(* ===== verification/Ltcp_Prelude.thy ===== *)
theory Ltcp_Prelude
  imports Main "HOL-Library.Word"
begin

text \<open>
  What every component of the LTCP development shares: the machine types of the C code, the
  faults a kernel execution can end in and the result type that carries them, byte order, spin
  locks, the counting semaphore, error numbers, and the collections of facts the proofs use.
  The platform is the one the Makefiles fix, Linux on x86-64: little endian, 4096-byte pages.
\<close>

unbundle bit_operations_syntax

subsection \<open>Collections\<close>

named_theorems ltcp_ops "definitions of the routines that are unfolded together"

subsection \<open>Machine types\<close>

type_synonym u8 = "8 word"
type_synonym u16 = "16 word"
type_synonym u32 = "32 word"
type_synonym u64 = "64 word"

text \<open>Kernel addresses of allocated objects; a C pointer is an optional address, NULL is None.\<close>

type_synonym addr = nat

subsection \<open>Faults\<close>

text \<open>
  A C execution that does not come to a normal return. \<open>NullDeref\<close> and \<open>Dangling\<close> are
  loads or stores through NULL or through memory that is not allocated, \<open>OutOfBounds\<close> an array
  index outside the array, \<open>SpinDeadlock\<close> a \<open>spin_lock\<close> on a lock the same execution
  holds, \<open>Blocked\<close> a sleep nobody ends, \<open>Diverges\<close> a loop that never leaves,
  \<open>Overflow\<close> a signed addition or multiplication that leaves its type.
\<close>

datatype fault = NullDeref | Dangling | OutOfBounds | SpinDeadlock | Blocked | Diverges | Overflow

type_synonym 'a res = "fault + 'a"

definition rbind :: "'a res \<Rightarrow> ('a \<Rightarrow> 'b res) \<Rightarrow> 'b res" where
  "rbind m f = (case m of Inl e \<Rightarrow> Inl e | Inr a \<Rightarrow> f a)"

lemma rbind_Inl [simp]: "rbind (Inl e) f = Inl e"
  by (simp add: rbind_def)

lemma rbind_Inr [simp]: "rbind (Inr a) f = f a"
  by (simp add: rbind_def)

lemma rbind_eq_Inr: "rbind m f = Inr b \<longleftrightarrow> (\<exists>a. m = Inr a \<and> f a = Inr b)"
  by (cases m) auto

lemma rbind_eq_Inl: "rbind m f = Inl e \<longleftrightarrow> m = Inl e \<or> (\<exists>a. m = Inr a \<and> f a = Inl e)"
  by (cases m) auto

lemma rbind_assoc: "rbind (rbind m f) g = rbind m (\<lambda>a. rbind (f a) g)"
  by (cases m) auto

lemma rbind_cong [fundef_cong]:
  "m = m' \<Longrightarrow> (\<And>a. m' = Inr a \<Longrightarrow> f a = g a) \<Longrightarrow> rbind m f = rbind m' g"
  by (cases m') simp_all

text \<open>The result of a loop that may not end: None is divergence.\<close>

definition of_loop :: "'a res option \<Rightarrow> 'a res" where
  "of_loop r = (case r of None \<Rightarrow> Inl Diverges | Some x \<Rightarrow> x)"

lemma of_loop_Some [simp]: "of_loop (Some x) = x"
  by (simp add: of_loop_def)

lemma of_loop_None [simp]: "of_loop None = Inl Diverges"
  by (simp add: of_loop_def)

subsection \<open>Byte order\<close>

text \<open>The kernel's \<open>ntohs\<close> and \<open>htons\<close> on a little-endian machine: the two bytes swapped.\<close>

definition ntohs :: "u16 \<Rightarrow> u16" where
  "ntohs w = push_bit 8 w OR drop_bit 8 w"

abbreviation htons :: "u16 \<Rightarrow> u16" where
  "htons \<equiv> ntohs"

lemma ntohs_ntohs [simp]: "ntohs (ntohs w) = w"
  by (rule bit_word_eqI) (auto simp: ntohs_def bit_simps)

lemma ntohs_inject [simp]: "ntohs a = ntohs b \<longleftrightarrow> a = b"
  by (metis ntohs_ntohs)

subsection \<open>Spin locks and the counting semaphore\<close>

text \<open>
  \<open>spin_lock\<close> on a lock that is already held by the running execution never returns.
  \<open>spin_unlock\<close> stores the unlocked value whatever the lock's state was.
\<close>

definition spin_lock :: "bool \<Rightarrow> bool res" where
  "spin_lock held = (if held then Inl SpinDeadlock else Inr True)"

lemma spin_lock_False [simp]: "spin_lock False = Inr True"
  by (simp add: spin_lock_def)

lemma spin_lock_True [simp]: "spin_lock True = Inl SpinDeadlock"
  by (simp add: spin_lock_def)

text \<open>\<open>down\<close> on a semaphore at zero sleeps until someone else calls \<open>up\<close>.\<close>

definition sem_down :: "nat \<Rightarrow> nat res" where
  "sem_down n = (if n = 0 then Inl Blocked else Inr (n - 1))"

definition sem_up :: "nat \<Rightarrow> nat" where
  "sem_up n = Suc n"

text \<open>\<open>down_timeout\<close>: zero on success, a negative error number when the time is over.\<close>

definition sem_down_timeout :: "nat \<Rightarrow> int \<times> nat" where
  "sem_down_timeout n = (if n = 0 then (- 62, 0) else (0, n - 1))"

lemma sem_simps [simp]:
  "sem_down 0 = Inl Blocked" "sem_down (Suc n) = Inr n" "sem_up n = Suc n"
  "sem_down_timeout 0 = (- 62, 0)" "sem_down_timeout (Suc n) = (0, n)"
  by (simp_all add: sem_down_def sem_up_def sem_down_timeout_def)

subsection \<open>Error numbers and platform constants\<close>

definition EAGAIN :: int where "EAGAIN = 11"
definition EFAULT :: int where "EFAULT = 14"
definition EINVAL :: int where "EINVAL = 22"

definition PAGE_SIZE :: nat where "PAGE_SIZE = 4096"

lemma PAGE_SIZE_pos [simp]: "0 < PAGE_SIZE"
  by (simp add: PAGE_SIZE_def)

subsection \<open>C strings\<close>

text \<open>The bytes before the first zero; reading an array that has none runs beyond it.\<close>

definition cstring :: "u8 list \<Rightarrow> u8 list" where
  "cstring bs = takeWhile (\<lambda>b. b \<noteq> 0) bs"

definition read_cstring :: "u8 list \<Rightarrow> u8 list res" where
  "read_cstring bs = (if 0 \<in> set bs then Inr (cstring bs) else Inl OutOfBounds)"

lemma cstring_append: "0 \<in> set bs \<Longrightarrow> cstring (bs @ xs) = cstring bs"
  by (induction bs) (auto simp: cstring_def)

subsection \<open>64-bit arithmetic read as natural numbers\<close>

lemma unat_of_nat64: "n < 2 ^ 64 \<Longrightarrow> unat (of_nat n :: u64) = n"
  by (simp add: unat_of_nat take_bit_nat_eq_self)

lemma unat_add_of_nat: "unat (w :: u64) + n < 2 ^ 64 \<Longrightarrow> unat (w + of_nat n) = unat w + n"
  using unat_of_nat64 [of n] by (simp add: unat_word_ariths del: of_nat_numeral)

lemma unat_sub_of_nat:
  assumes "n \<le> unat (w :: u64)"
  shows "unat (w - of_nat n) = unat w - n"
proof -
  have "unat w < 2 ^ LENGTH(64)" by (rule unsigned_less)
  with assms have "unat (of_nat n :: u64) = n" by (intro unat_of_nat64) simp
  with assms show ?thesis by (subst unat_sub) (simp_all add: word_le_nat_alt)
qed

lemma unat_neg_of_nat:
  assumes "0 < d" and "d < 2 ^ 64"
  shows "unat (- of_nat d :: u64) = 2 ^ 64 - d"
proof -
  define e where "e = 2 ^ 64 - d"
  with assms have e: "e + d = 2 ^ 64" "e < 2 ^ 64" by auto
  have "of_nat e + of_nat d = (of_nat (e + d) :: u64)" by simp
  also have "\<dots> = 0" by (simp add: e(1))
  finally have "(of_nat e :: u64) = - of_nat d"
    by (simp add: eq_neg_iff_add_eq_0)
  with unat_of_nat64 [OF e(2)] show ?thesis by (simp add: e_def)
qed

lemma unat_lt_2p64: "unat (w :: u64) < 2 ^ 64"
proof -
  have "unat w < 2 ^ LENGTH(64)" by (rule unsigned_less)
  then show ?thesis by simp
qed

subsection \<open>Words of different widths\<close>

lemma word_nat_eq: "of_nat (unat w) = w"
  by simp

lemma unat_ucast_u32: "unat (ucast (w :: u32) :: u64) = unat w"
proof -
  have "unat w < 2 ^ LENGTH(32)" by (rule unsigned_less)
  then show ?thesis by (simp add: unsigned_ucast_eq take_bit_nat_eq_self)
qed

subsection \<open>Lists\<close>

lemma map_at_most_one: "map f xs = [] \<or> map f xs = [a] \<Longrightarrow> length xs \<le> 1"
  by (cases xs) auto

lemma find_split:
  "find P xs = Some x \<Longrightarrow> \<exists>ys zs. xs = ys @ x # zs \<and> P x \<and> (\<forall>y \<in> set ys. \<not> P y)"
proof (induction xs)
  case Nil
  then show ?case by simp
next
  case (Cons a xs)
  show ?case
  proof (cases "P a")
    case True
    with Cons.prems show ?thesis by (intro exI [of _ "[]"] exI [of _ xs]) auto
  next
    case False
    with Cons.prems obtain ys zs where "xs = ys @ x # zs" "P x" "\<forall>y \<in> set ys. \<not> P y"
      using Cons.IH by auto
    with False show ?thesis by (intro exI [of _ "a # ys"] exI [of _ zs]) auto
  qed
qed

lemma find_SomeD: "find P xs = Some x \<Longrightarrow> x \<in> set xs \<and> P x"
  by (auto dest!: find_split)

lemma find_NoneI: "(\<And>x. x \<in> set xs \<Longrightarrow> \<not> P x) \<Longrightarrow> find P xs = None"
  by (simp add: find_None_iff)

lemma find_append:
  "find P (xs @ ys) = (case find P xs of None \<Rightarrow> find P ys | Some x \<Rightarrow> Some x)"
  by (induction xs) auto

lemma not_in_image: "x \<notin> f ` S \<longleftrightarrow> (\<forall>y \<in> S. f y \<noteq> x)"
  by auto

end
