(* ===== verification/Queue_Interface.thy ===== *)
theory Queue_Interface
  imports Ltcp_Prelude
begin

text \<open>
  The contracts of the module's two queues as locales. \<open>fifo_queue\<close> is what the connection
  lists of a port and the ring of message descriptors promise: a representation relation to an
  abstract list, an admission predicate on list contents, enqueue at the back, dequeue at the
  front. \<open>keyed_queue\<close> adds lookup and removal by key, as the connection lists have them.
  The refinement of whole operation sequences and the lookup laws are proved once here and
  obtained by the interpretations in \<open>Port_Functions\<close> and \<open>Ring_Queue\<close>.
\<close>

subsection \<open>Operation sequences\<close>

datatype 'a queue_op = Enq 'a | Deq

text \<open>The abstract queue: a list, and the results its dequeues return.\<close>

fun spec_run :: "'a list \<Rightarrow> 'a queue_op list \<Rightarrow> 'a option list \<times> 'a list" where
  "spec_run xs [] = ([], xs)"
| "spec_run xs (Enq x # ops) = spec_run (xs @ [x]) ops"
| "spec_run [] (Deq # ops) = (case spec_run [] ops of (os, ys) \<Rightarrow> (None # os, ys))"
| "spec_run (x # xs) (Deq # ops) = (case spec_run xs ops of (os, ys) \<Rightarrow> (Some x # os, ys))"

text \<open>Every content the run goes through after an enqueue is admitted.\<close>

fun spec_fits :: "('a list \<Rightarrow> bool) \<Rightarrow> 'a list \<Rightarrow> 'a queue_op list \<Rightarrow> bool" where
  "spec_fits fits xs [] = True"
| "spec_fits fits xs (Enq x # ops) = (fits (xs @ [x]) \<and> spec_fits fits (xs @ [x]) ops)"
| "spec_fits fits xs (Deq # ops) = spec_fits fits (tl xs) ops"

text \<open>The same sequence on a concrete state, with the concrete operations.\<close>

fun conc_run :: "('a \<Rightarrow> 's \<Rightarrow> 's res) \<Rightarrow> ('s \<Rightarrow> ('a option \<times> 's) res) \<Rightarrow> 's \<Rightarrow> 'a queue_op list
    \<Rightarrow> ('a option list \<times> 's) res" where
  "conc_run enq deq s [] = Inr ([], s)"
| "conc_run enq deq s (Enq x # ops) = rbind (enq x s) (\<lambda>s'. conc_run enq deq s' ops)"
| "conc_run enq deq s (Deq # ops) = rbind (deq s) (\<lambda>(r, s').
     rbind (conc_run enq deq s' ops) (\<lambda>(os, s''). Inr (r # os, s'')))"

subsection \<open>First in, first out\<close>

locale fifo_queue =
  fixes repr :: "'s \<Rightarrow> 'a list \<Rightarrow> bool"
    and fits :: "'a list \<Rightarrow> bool"
    and enq :: "'a \<Rightarrow> 's \<Rightarrow> 's res"
    and deq :: "'s \<Rightarrow> ('a option \<times> 's) res"
  assumes enq_back: "repr s xs \<Longrightarrow> fits (xs @ [x]) \<Longrightarrow> \<exists>s'. enq x s = Inr s' \<and> repr s' (xs @ [x])"
    and deq_empty: "repr s [] \<Longrightarrow> \<exists>s'. deq s = Inr (None, s') \<and> repr s' []"
    and deq_front: "repr s (x # xs) \<Longrightarrow> \<exists>s'. deq s = Inr (Some x, s') \<and> repr s' xs"
begin

lemma run_refines:
  "repr s xs \<Longrightarrow> spec_fits fits xs ops \<Longrightarrow>
     \<exists>s'. conc_run enq deq s ops = Inr (fst (spec_run xs ops), s') \<and> repr s' (snd (spec_run xs ops))"
proof (induction xs ops arbitrary: s rule: spec_run.induct)
  case (1 xs)
  then show ?case by simp
next
  case (2 xs x ops)
  then obtain s' where "enq x s = Inr s'" "repr s' (xs @ [x])"
    using enq_back [of s xs x] by auto
  with 2 show ?case by auto
next
  case (3 ops)
  then obtain s' where s': "deq s = Inr (None, s')" "repr s' []"
    using deq_empty by blast
  with 3 show ?case by (fastforce split: prod.splits)
next
  case (4 x xs ops)
  then obtain s' where s': "deq s = Inr (Some x, s')" "repr s' xs"
    using deq_front by blast
  with 4 show ?case by (fastforce split: prod.splits)
qed

end

lemma spec_run_enqs: "spec_run xs (map Enq ys @ ops) = spec_run (xs @ ys) ops"
  by (induction ys arbitrary: xs) auto

lemma spec_run_drain: "spec_run xs (replicate (length xs) Deq) = (map Some xs, [])"
  by (induction xs) auto

lemma spec_fits_enqs:
  assumes closed: "\<And>us vs. fits (us @ vs) \<Longrightarrow> fits us"
  shows "fits (xs @ ys) \<Longrightarrow> spec_fits fits (xs @ ys) ops \<Longrightarrow> spec_fits fits xs (map Enq ys @ ops)"
proof (induction ys arbitrary: xs)
  case Nil
  then show ?case by simp
next
  case (Cons y ys)
  then have "fits (xs @ [y])"
    using closed [of "xs @ [y]" ys] by simp
  with Cons.IH [of "xs @ [y]"] Cons.prems show ?case by simp
qed

lemma spec_fits_deqs [simp]: "spec_fits fits xs (replicate n Deq)"
  by (induction n arbitrary: xs) auto

subsection \<open>Lookup and removal by key\<close>

locale keyed_queue = fifo_queue repr fits enq deq
  for repr :: "'s \<Rightarrow> 'a list \<Rightarrow> bool" and fits and enq and deq +
  fixes key_of :: "'a \<Rightarrow> 'k"
    and look :: "'k \<Rightarrow> 's \<Rightarrow> 'a option res"
    and del :: "'k \<Rightarrow> 's \<Rightarrow> ('a option \<times> 's) res"
  assumes look_find: "repr s xs \<Longrightarrow> look k s = Inr (find (\<lambda>x. key_of x = k) xs)"
    and del_absent: "repr s xs \<Longrightarrow> k \<notin> key_of ` set xs \<Longrightarrow> del k s = Inr (None, s)"
    and del_first: "repr s (ys @ x # zs) \<Longrightarrow> key_of x \<notin> key_of ` set ys \<Longrightarrow> ys = [] \<or> zs \<noteq> [] \<Longrightarrow>
      \<exists>s'. del (key_of x) s = Inr (Some x, s') \<and> repr s' (ys @ zs)"
begin

lemma look_absent: "repr s xs \<Longrightarrow> k \<notin> key_of ` set xs \<Longrightarrow> look k s = Inr None"
  by (auto simp: look_find find_None_iff)

lemma look_present:
  assumes "repr s xs" and "k \<in> key_of ` set xs"
  shows "\<exists>x \<in> set xs. key_of x = k \<and> look k s = Inr (Some x)"
proof -
  from assms obtain x where "find (\<lambda>x. key_of x = k) xs = Some x"
    by (cases "find (\<lambda>x. key_of x = k) xs") (auto simp: find_None_iff)
  with assms(1) find_SomeD [OF this] show ?thesis by (auto simp: look_find)
qed

lemma look_after_enq:
  assumes "repr s xs" and "fits (xs @ [x])" and "key_of x \<notin> key_of ` set xs"
  shows "\<exists>s'. enq x s = Inr s' \<and> look (key_of x) s' = Inr (Some x)"
proof -
  from enq_back [OF assms(1,2)] obtain s' where "enq x s = Inr s'" "repr s' (xs @ [x])" by blast
  moreover have "find (\<lambda>y. key_of y = key_of x) (xs @ [x]) = Some x"
  proof -
    have "find (\<lambda>y. key_of y = key_of x) xs = None"
      using assms(3) unfolding find_None_iff by (metis image_eqI)
    then show ?thesis by (simp add: find_append)
  qed
  ultimately show ?thesis by (auto simp: look_find)
qed

text \<open>With distinct keys a removed key is gone, and every other key is still found.\<close>

lemma look_after_del:
  assumes "repr s (ys @ x # zs)" and "distinct (map key_of (ys @ x # zs))" and "ys = [] \<or> zs \<noteq> []"
  shows "\<exists>s'. del (key_of x) s = Inr (Some x, s') \<and> look (key_of x) s' = Inr None \<and>
    (\<forall>k. k \<noteq> key_of x \<longrightarrow> look k s' = look k s)"
proof -
  from assms obtain s' where s': "del (key_of x) s = Inr (Some x, s')" "repr s' (ys @ zs)"
    using del_first [of s ys x zs] by auto
  have "look (key_of x) s' = Inr None"
    using assms(2) by (intro look_absent [OF s'(2)]) auto
  moreover have "look k s' = look k s" if "k \<noteq> key_of x" for k
    using that look_find [OF s'(2)] look_find [OF assms(1)]
    by (simp add: find_append split: option.split)
  ultimately show ?thesis using s'(1) by blast
qed

end

end
