(* ===== verification/Port_Functions.thy ===== *)
theory Port_Functions
  imports Queue_Interface
begin

text \<open>
  \<open>ltcp/port_functions.c\<close> and the structures it works on (\<open>ltcp/local_tcp_protocol.h\<close>):
  per local port a doubly-linked list of \<open>struct port_sk\<close> nodes with head and tail pointers, a
  spin lock and the listening socket. Nodes live in an explicit heap, so the aliasing between
  the tables \<open>conns\<close> and \<open>incoming_conns\<close>, stale pointers and freed nodes are visible.
  The routines are translated pointer store by pointer store. The relation \<open>dll\<close> says that a
  table slot holds a well-formed doubly-linked list of given nodes, and the refinement lemmas
  show what each routine does to that list, every branch included.
\<close>

subsection \<open>Data\<close>

definition MAX_NUMBER_OF_PORTS :: nat where
  "MAX_NUMBER_OF_PORTS = 65535"

record port_sk =
  psk_sk :: "addr option"
  psk_rport :: u16
  psk_rip :: u32
  psk_next :: "addr option"
  psk_previous :: "addr option"

record port_sk_arr =
  psa_lock :: bool
  psa_head :: "addr option"
  psa_tail :: "addr option"
  psa_listening_sock :: "addr option"

type_synonym psk_heap = "addr \<Rightarrow> port_sk option"
type_synonym port_table = "nat \<Rightarrow> port_sk_arr"

text \<open>The static tables start zero-initialised.\<close>

definition empty_slot :: port_sk_arr where
  "empty_slot = \<lparr>psa_lock = False, psa_head = None, psa_tail = None, psa_listening_sock = None\<rparr>"

definition empty_table :: port_table where
  "empty_table = (\<lambda>_. empty_slot)"

text \<open>Loads and stores through a node pointer, and release of a node.\<close>

definition psk_load :: "psk_heap \<Rightarrow> addr option \<Rightarrow> port_sk res" where
  "psk_load h p = (case p of None \<Rightarrow> Inl NullDeref
     | Some a \<Rightarrow> (case h a of None \<Rightarrow> Inl Dangling | Some n \<Rightarrow> Inr n))"

definition psk_store :: "psk_heap \<Rightarrow> addr option \<Rightarrow> (port_sk \<Rightarrow> port_sk) \<Rightarrow> psk_heap res" where
  "psk_store h p f = (case p of None \<Rightarrow> Inl NullDeref
     | Some a \<Rightarrow> (case h a of None \<Rightarrow> Inl Dangling | Some n \<Rightarrow> Inr (h(a \<mapsto> f n))))"

definition psk_kfree :: "psk_heap \<Rightarrow> addr option \<Rightarrow> psk_heap res" where
  "psk_kfree h p = (case p of None \<Rightarrow> Inr h
     | Some a \<Rightarrow> (case h a of None \<Rightarrow> Inl Dangling | Some n \<Rightarrow> Inr (h(a := None))))"

text \<open>The C expression \<open>&(arr[ntohs(lport)])\<close>: an array of 65535 entries has no entry 65535.\<close>

definition port_index :: "u16 \<Rightarrow> nat" where
  "port_index lport = unat (ntohs lport)"

definition get_slot :: "port_table \<Rightarrow> nat \<Rightarrow> port_sk_arr res" where
  "get_slot arr i = (if i < MAX_NUMBER_OF_PORTS then Inr (arr i) else Inl OutOfBounds)"

definition lock_slot :: "port_sk_arr \<Rightarrow> port_sk_arr res" where
  "lock_slot e = rbind (spin_lock (psa_lock e)) (\<lambda>l. Inr (e\<lparr>psa_lock := l\<rparr>))"

definition unlock_slot :: "port_sk_arr \<Rightarrow> port_sk_arr" where
  "unlock_slot e = e\<lparr>psa_lock := False\<rparr>"

subsection \<open>The search loop\<close>

text \<open>
  \<open>while(current_psk != NULL)\<close> with the test on remote port and address: the first node that
  matches, NULL at the end of the list. A cyclic list without a match never ends.
\<close>

partial_function (option) find_psk ::
    "psk_heap \<Rightarrow> addr option \<Rightarrow> u16 \<Rightarrow> u32 \<Rightarrow> addr option res option" where
  "find_psk h current_psk rport rip =
     (case current_psk of None \<Rightarrow> Some (Inr None)
      | Some a \<Rightarrow>
         (case h a of None \<Rightarrow> Some (Inl Dangling)
          | Some n \<Rightarrow>
              if psk_rport n = rport \<and> psk_rip n = rip then Some (Inr (Some a))
              else find_psk h (psk_next n) rport rip))"

subsection \<open>The routines\<close>

text \<open>The unlinking of a found node: head, tail and inner node are three cases.\<close>

definition unlink_psk :: "psk_heap \<Rightarrow> port_sk_arr \<Rightarrow> addr \<Rightarrow> (psk_heap \<times> port_sk_arr) res" where
  "unlink_psk h conn_arr c =
     rbind (psk_load h (Some c)) (\<lambda>n.
     if Some c = psa_head conn_arr then
       (if psk_next n \<noteq> None then
          rbind (psk_store h (psk_next n) (psk_previous_update (\<lambda>_. None))) (\<lambda>h1.
          rbind (psk_load h1 (psa_head conn_arr)) (\<lambda>hd.
          Inr (h1, conn_arr\<lparr>psa_head := psk_next hd\<rparr>)))
        else Inr (h, conn_arr\<lparr>psa_head := None, psa_tail := None\<rparr>))
     else if Some c = psa_tail conn_arr then
       rbind (psk_store h (psk_previous n) (psk_next_update (\<lambda>_. None))) (\<lambda>h1.
       Inr (h1, conn_arr))
     else
       rbind (psk_store h (psk_previous n) (psk_next_update (\<lambda>_. psk_next n))) (\<lambda>h1.
       rbind (psk_load h1 (Some c)) (\<lambda>n1.
       rbind (psk_store h1 (psk_next n1) (psk_previous_update (\<lambda>_. psk_previous n1))) (\<lambda>h2.
       Inr (h2, conn_arr)))))"

definition remove_port_sk ::
    "psk_heap \<Rightarrow> port_table \<Rightarrow> u16 \<Rightarrow> u16 \<Rightarrow> u32 \<Rightarrow> (addr option \<times> psk_heap \<times> port_table) res" where
  "remove_port_sk h arr lport rport rip =
     (let i = port_index lport in
      rbind (get_slot arr i) (\<lambda>slot.
      rbind (lock_slot slot) (\<lambda>conn_arr.
      rbind (of_loop (find_psk h (psa_head conn_arr) rport rip)) (\<lambda>current_psk.
      case current_psk of
        Some c \<Rightarrow> rbind (unlink_psk h conn_arr c) (\<lambda>(h', conn_arr').
                    Inr (Some c, h', arr(i := unlock_slot conn_arr')))
      | None \<Rightarrow> Inr (None, h, arr(i := unlock_slot conn_arr))))))"

definition put_port_sk ::
    "psk_heap \<Rightarrow> port_table \<Rightarrow> u16 \<Rightarrow> (addr option \<times> psk_heap \<times> port_table) res" where
  "put_port_sk h arr lport =
     (let i = port_index lport in
      rbind (get_slot arr i) (\<lambda>slot.
      rbind (lock_slot slot) (\<lambda>conn_arr.
      if psa_head conn_arr \<noteq> None then
        let old_head = psa_head conn_arr in
        rbind (psk_load h old_head) (\<lambda>hd.
        if psk_next hd \<noteq> None then
          rbind (psk_store h (psk_next hd) (psk_previous_update (\<lambda>_. None))) (\<lambda>h'.
          Inr (old_head, h', arr(i := unlock_slot (conn_arr\<lparr>psa_head := psk_next hd\<rparr>))))
        else
          Inr (old_head, h, arr(i := unlock_slot (conn_arr\<lparr>psa_head := None, psa_tail := None\<rparr>))))
      else Inr (None, h, arr(i := unlock_slot conn_arr)))))"

definition add_port_sk ::
    "psk_heap \<Rightarrow> port_table \<Rightarrow> u16 \<Rightarrow> addr option \<Rightarrow> (psk_heap \<times> port_table) res" where
  "add_port_sk h arr lport psk =
     (if psk = None then Inr (h, arr)
      else let i = port_index lport in
        rbind (get_slot arr i) (\<lambda>slot.
        rbind (lock_slot slot) (\<lambda>conn_arr.
        rbind (psk_store h psk (psk_next_update (\<lambda>_. None))) (\<lambda>h1.
        let current_tail = psa_tail conn_arr in
        if current_tail \<noteq> None then
          rbind (psk_store h1 psk (psk_previous_update (\<lambda>_. current_tail))) (\<lambda>h2.
          rbind (psk_store h2 current_tail (psk_next_update (\<lambda>_. psk))) (\<lambda>h3.
          Inr (h3, arr(i := unlock_slot (conn_arr\<lparr>psa_tail := psk\<rparr>)))))
        else
          rbind (psk_store h1 psk (psk_previous_update (\<lambda>_. None))) (\<lambda>h2.
          Inr (h2, arr(i := unlock_slot (conn_arr\<lparr>psa_head := psk, psa_tail := psk\<rparr>))))))))"

definition get_port_sk ::
    "psk_heap \<Rightarrow> port_table \<Rightarrow> u16 \<Rightarrow> u16 \<Rightarrow> u32 \<Rightarrow> (addr option \<times> port_table) res" where
  "get_port_sk h arr lport rport rip =
     (let i = port_index lport in
      rbind (get_slot arr i) (\<lambda>slot.
      rbind (lock_slot slot) (\<lambda>conn_arr.
      rbind (of_loop (find_psk h (psa_head conn_arr) rport rip)) (\<lambda>current_psk.
      Inr (current_psk, arr(i := unlock_slot conn_arr))))))"

definition portsk_queue_empty :: "port_table \<Rightarrow> u16 \<Rightarrow> bool res" where
  "portsk_queue_empty arr lport =
     rbind (get_slot arr (port_index lport)) (\<lambda>slot.
     Inr (if psa_head slot \<noteq> None then False else True))"

definition add_listening_sk_port_sk_arr ::
    "port_table \<Rightarrow> u16 \<Rightarrow> addr option \<Rightarrow> port_table res" where
  "add_listening_sk_port_sk_arr arr lport ls =
     (let i = port_index lport in
      rbind (get_slot arr i) (\<lambda>slot.
      rbind (lock_slot slot) (\<lambda>conn_arr.
      Inr (arr(i := unlock_slot (conn_arr\<lparr>psa_listening_sock := ls\<rparr>))))))"

definition get_listening_sk_port_sk_arr :: "port_table \<Rightarrow> u16 \<Rightarrow> addr option res" where
  "get_listening_sk_port_sk_arr arr lport =
     rbind (get_slot arr (port_index lport)) (\<lambda>slot. Inr (psa_listening_sock slot))"

text \<open>
  \<open>wake_up_listening_sock\<close> calls the kernel's \<open>wake_up\<close> on the listening socket's wait
  queue; the model returns the socket that is woken, None when the slot has none.
\<close>

definition wake_up_listening_sock ::
    "port_table \<Rightarrow> u16 \<Rightarrow> (addr option \<times> port_table) res" where
  "wake_up_listening_sock arr lport =
     (let i = port_index lport in
      rbind (get_slot arr i) (\<lambda>slot.
      rbind (lock_slot slot) (\<lambda>conn_arr.
      Inr (psa_listening_sock conn_arr, arr(i := unlock_slot conn_arr)))))"

subsection \<open>Doubly-linked list segments\<close>

fun dseg :: "psk_heap \<Rightarrow> addr option \<Rightarrow> addr option \<Rightarrow> addr list \<Rightarrow> addr option \<Rightarrow> bool" where
  "dseg h q p [] r = (p = r)"
| "dseg h q p (a # as) r =
     (p = Some a \<and> (case h a of None \<Rightarrow> False
        | Some n \<Rightarrow> psk_previous n = q \<and> dseg h (Some a) (psk_next n) as r))"

fun lastp :: "addr option \<Rightarrow> addr list \<Rightarrow> addr option" where
  "lastp q [] = q"
| "lastp q (a # as) = lastp (Some a) as"

definition dll :: "psk_heap \<Rightarrow> port_sk_arr \<Rightarrow> addr list \<Rightarrow> bool" where
  "dll h e xs \<longleftrightarrow> dseg h None (psa_head e) xs None \<and> psa_tail e = lastp None xs \<and> distinct xs"

definition psk_matches :: "psk_heap \<Rightarrow> u16 \<Rightarrow> u32 \<Rightarrow> addr \<Rightarrow> bool" where
  "psk_matches h rport rip a =
     (case h a of None \<Rightarrow> False | Some n \<Rightarrow> psk_rport n = rport \<and> psk_rip n = rip)"

lemma lastp_append [simp]: "lastp q (xs @ ys) = lastp (lastp q xs) ys"
  by (induction xs arbitrary: q) auto

lemma lastp_in: "xs \<noteq> [] \<Longrightarrow> \<exists>a \<in> set xs. lastp q xs = Some a"
  by (induction xs arbitrary: q) (auto, metis lastp.simps(1))

lemma lastp_None [simp]: "lastp None xs = None \<longleftrightarrow> xs = []"
  using lastp_in [of xs None] by (cases xs) auto

lemma dseg_append [simp]:
  "dseg h q p (xs @ ys) r = (\<exists>m. dseg h q p xs m \<and> dseg h (lastp q xs) m ys r)"
  by (induction xs arbitrary: q p) (auto split: option.splits)

lemma dseg_frame [simp]: "a \<notin> set xs \<Longrightarrow> dseg (h(a := v)) q p xs r = dseg h q p xs r"
  by (induction xs arbitrary: q p) (auto split: option.splits)

lemma dseg_cong: "(\<And>a. a \<in> set xs \<Longrightarrow> h a = h' a) \<Longrightarrow> dseg h q p xs r = dseg h' q p xs r"
  by (induction xs arbitrary: q p) (auto split: option.splits)

lemma dseg_alloc: "dseg h q p xs r \<Longrightarrow> a \<in> set xs \<Longrightarrow> \<exists>n. h a = Some n"
  by (induction xs arbitrary: q p) (auto split: option.splits)

lemma dseg_head: "dseg h q p xs None \<Longrightarrow> p = None \<longleftrightarrow> xs = []"
  by (cases xs) auto

lemma dseg_Some: "dseg h q (Some a) xs None \<Longrightarrow> \<exists>ys n. xs = a # ys \<and> h a = Some n \<and>
   psk_previous n = q \<and> dseg h (Some a) (psk_next n) ys None"
  by (cases xs) (auto split: option.splits)

lemma dseg_inner:
  "dseg h q p (ys @ c # zs) None \<Longrightarrow> \<exists>n. h c = Some n \<and> psk_previous n = lastp q ys \<and>
     dseg h q p ys (Some c) \<and> dseg h (Some c) (psk_next n) zs None"
  by (auto split: option.splits)

text \<open>Redirecting the last node's next pointer, and the first node's previous pointer.\<close>

lemma dseg_set_next:
  assumes "dseg h q p (xs @ [a]) r" and "h a = Some n" and "a \<notin> set xs"
  shows "dseg (h(a \<mapsto> n\<lparr>psk_next := r'\<rparr>)) q p (xs @ [a]) r'"
  using assms by auto

lemma dseg_set_prev:
  assumes "dseg h q p (a # xs) r" and "h a = Some n" and "a \<notin> set xs"
  shows "dseg (h(a \<mapsto> n\<lparr>psk_previous := q'\<rparr>)) q' p (a # xs) r"
  using assms by auto

subsection \<open>The search loop on a well-formed list\<close>

lemma find_psk_dseg:
  "dseg h q p xs None \<Longrightarrow> find_psk h p rport rip = Some (Inr (find (psk_matches h rport rip) xs))"
proof (induction xs arbitrary: q p)
  case Nil
  then show ?case by (simp add: find_psk.simps)
next
  case (Cons a xs)
  then obtain n where n: "p = Some a" "h a = Some n" "dseg h (Some a) (psk_next n) xs None"
    by (auto split: option.splits)
  then show ?case
    using Cons.IH [OF n(3)] by (simp add: find_psk.simps [of h "Some a"] psk_matches_def)
qed

lemmas pf_ops = psk_load_def psk_store_def lock_slot_def unlock_slot_def get_slot_def Let_def

lemma port_index_le: "port_index p \<le> 65535"
proof -
  have "unat (ntohs p) < 2 ^ LENGTH(16)" by (rule unsigned_less)
  then show ?thesis by (simp add: port_index_def)
qed


lemma relock [simp]: "\<not> psa_lock e \<Longrightarrow> e\<lparr>psa_lock := False\<rparr> = e"
  by (cases e) simp

text \<open>The fields the list routines never write.\<close>

definition psk_payload :: "psk_heap \<Rightarrow> addr \<Rightarrow> (addr option \<times> u16 \<times> u32) option" where
  "psk_payload h a = map_option (\<lambda>n. (psk_sk n, psk_rport n, psk_rip n)) (h a)"

text \<open>
  The frame of an operation on slot \<open>i\<close> that owns the nodes \<open>X\<close>: other slots and the nodes
  of other lists are untouched, the lock is released, the listening socket is kept, and no
  node's connection data changes.
\<close>

definition slot_frame ::
    "nat \<Rightarrow> addr set \<Rightarrow> psk_heap \<Rightarrow> port_table \<Rightarrow> psk_heap \<Rightarrow> port_table \<Rightarrow> bool" where
  "slot_frame i X h arr h' arr' \<longleftrightarrow>
     (\<forall>j. j \<noteq> i \<longrightarrow> arr' j = arr j) \<and> \<not> psa_lock (arr' i) \<and>
     psa_listening_sock (arr' i) = psa_listening_sock (arr i) \<and>
     (\<forall>b. b \<notin> X \<longrightarrow> h' b = h b) \<and> psk_payload h' = psk_payload h"

lemma slot_frame_refl [simp]: "\<not> psa_lock (arr i) \<Longrightarrow> slot_frame i X h arr h arr"
  by (simp add: slot_frame_def)

lemma payload_upd [simp]:
  "h a = Some n \<Longrightarrow> psk_payload (h(a \<mapsto> n\<lparr>psk_next := x\<rparr>)) = psk_payload h"
  "h a = Some n \<Longrightarrow> psk_payload (h(a \<mapsto> n\<lparr>psk_previous := y\<rparr>)) = psk_payload h"
  by (auto simp: psk_payload_def fun_eq_iff)

lemma psk_matches_payload:
  "psk_payload h' = psk_payload h \<Longrightarrow> psk_matches h' = psk_matches h"
proof -
  have "psk_matches h r i a = (case psk_payload h a of None \<Rightarrow> False
     | Some (_, rp, ri) \<Rightarrow> rp = r \<and> ri = i)" for h r i a
    by (simp add: psk_matches_def psk_payload_def split: option.splits)
  then show "psk_payload h' = psk_payload h \<Longrightarrow> psk_matches h' = psk_matches h"
    by (simp add: fun_eq_iff)
qed

lemma get_port_sk_dll:
  assumes "dll h (arr i) xs" and "i = port_index lport" and "i < MAX_NUMBER_OF_PORTS"
    and "\<not> psa_lock (arr i)"
  shows "get_port_sk h arr lport rport rip = Inr (find (psk_matches h rport rip) xs, arr)"
proof -
  from assms(1) have "find_psk h (psa_head (arr i)) rport rip =
      Some (Inr (find (psk_matches h rport rip) xs))"
    by (auto simp: dll_def intro: find_psk_dseg)
  with assms show ?thesis by (simp add: get_port_sk_def pf_ops)
qed

lemma dll_Nil: "dll h e [] \<longleftrightarrow> psa_head e = None \<and> psa_tail e = None"
  by (auto simp: dll_def)

lemma dll_head: "dll h e xs \<Longrightarrow> psa_head e = None \<longleftrightarrow> xs = []"
  by (auto simp: dll_def dest: dseg_head)

lemma put_port_sk_dll:
  assumes "dll h (arr i) xs" and i: "i = port_index lport" "i < MAX_NUMBER_OF_PORTS"
    and "\<not> psa_lock (arr i)"
  shows "\<exists>h' arr'. put_port_sk h arr lport = Inr (case xs of [] \<Rightarrow> None | a # _ \<Rightarrow> Some a, h', arr') \<and>
     dll h' (arr' i) (tl xs) \<and> slot_frame i (set (tl xs)) h arr h' arr'"
proof (cases xs)
  case Nil
  with assms show ?thesis by (simp add: put_port_sk_def pf_ops dll_Nil)
next
  case (Cons a ys)
  with assms(1) obtain n where n: "psa_head (arr i) = Some a" "h a = Some n"
    "dseg h (Some a) (psk_next n) ys None" "psa_tail (arr i) = lastp (Some a) ys"
    "a \<notin> set ys" "distinct ys"
    by (auto simp: dll_def split: option.splits)
  show ?thesis
  proof (cases ys)
    case Nil
    with n have "psk_next n = None" by simp
    with Nil n Cons assms show ?thesis
      by (simp add: put_port_sk_def pf_ops dll_Nil slot_frame_def)
  next
    case (Cons b zs)
    with n(3) obtain m where m: "psk_next n = Some b" "h b = Some m"
      by (auto split: option.splits)
    let ?h = "h(b \<mapsto> m\<lparr>psk_previous := None\<rparr>)"
    have "dseg ?h None (Some b) ys None"
      using dseg_set_prev [of h "Some a" "psk_next n" b zs None m None] n Cons m by simp
    then show ?thesis
      using m n Cons \<open>xs = a # ys\<close> assms
      by (simp add: put_port_sk_def pf_ops dll_def slot_frame_def)
  qed
qed

lemma add_port_sk_dll:
  assumes "dll h (arr i) xs" and i: "i = port_index lport" "i < MAX_NUMBER_OF_PORTS"
    and "\<not> psa_lock (arr i)" and a: "h a = Some n" "a \<notin> set xs"
  shows "\<exists>h' arr'. add_port_sk h arr lport (Some a) = Inr (h', arr') \<and>
     dll h' (arr' i) (xs @ [a]) \<and> slot_frame i (insert a (set xs)) h arr h' arr'"
proof (cases xs rule: rev_cases)
  case Nil
  let ?h = "h(a \<mapsto> n\<lparr>psk_next := None, psk_previous := None\<rparr>)"
  have "psk_payload ?h = psk_payload h"
    using a by (auto simp: psk_payload_def fun_eq_iff)
  with Nil assms show ?thesis
    by (simp add: add_port_sk_def pf_ops dll_def slot_frame_def)
next
  case (snoc ys b)
  with assms(1) obtain m where m: "psa_tail (arr i) = Some b" "h b = Some m"
    "dseg h None (psa_head (arr i)) (ys @ [b]) None" "b \<notin> set ys" "distinct ys"
    by (auto simp: dll_def split: option.splits)
  from a snoc have ab: "a \<noteq> b" "a \<notin> set ys" by auto
  let ?n = "n\<lparr>psk_next := None, psk_previous := Some b\<rparr>"
  let ?h1 = "h(a \<mapsto> ?n)"
  let ?h2 = "?h1(b \<mapsto> m\<lparr>psk_next := Some a\<rparr>)"
  have "dseg ?h1 None (psa_head (arr i)) (ys @ [b]) None"
    using m(3) ab by (simp split: option.splits)
  then have "dseg ?h2 None (psa_head (arr i)) (ys @ [b]) (Some a)"
    using m(2,4) ab by (intro dseg_set_next) auto
  then have "dseg ?h2 None (psa_head (arr i)) (xs @ [a]) None"
    using ab snoc by auto
  moreover have "psk_payload ?h2 = psk_payload h"
    using a m ab by (auto simp: psk_payload_def fun_eq_iff)
  ultimately show ?thesis
    using assms m ab snoc
    by (simp add: add_port_sk_def pf_ops dll_def slot_frame_def)
qed


text \<open>
  Removing the first match. The forward chain always loses exactly the found node; the list
  stays well-formed when the found node is the head or has a successor. When it is the last
  of several nodes the tail pointer keeps naming the removed node.
\<close>

lemma unlink_psk_dll:
  assumes dll: "dll h e (ys @ c # zs)" and proper: "ys = [] \<or> zs \<noteq> []"
  shows "\<exists>h' e'. unlink_psk h e c = Inr (h', e') \<and> dll h' e' (ys @ zs) \<and>
     psa_lock e' = psa_lock e \<and> psa_listening_sock e' = psa_listening_sock e \<and>
     (\<forall>b. b \<notin> set (ys @ zs) \<longrightarrow> h' b = h b) \<and> psk_payload h' = psk_payload h"
proof -
  from dll obtain n where n: "h c = Some n" "psk_previous n = lastp None ys"
    "dseg h None (psa_head e) ys (Some c)" "dseg h (Some c) (psk_next n) zs None"
    and t: "psa_tail e = lastp (Some c) zs"
    and d: "distinct (ys @ c # zs)"
    by (auto simp: dll_def split: option.splits)
  show ?thesis
  proof (cases zs)
    case Nil
    with proper have "ys = []" by simp
    with n Nil show ?thesis by (simp add: unlink_psk_def pf_ops dll_Nil)
  next
    case (Cons b ws)
    with n(4) obtain m where m: "psk_next n = Some b" "h b = Some m"
      by (auto split: option.splits)
    let ?p = "lastp None ys"
    let ?h = "h(b \<mapsto> m\<lparr>psk_previous := ?p\<rparr>)"
    have zs: "dseg ?h ?p (Some b) zs None"
      using dseg_set_prev [of h "Some c" "psk_next n" b ws None m ?p] n(4) d Cons m by simp
    have tail: "psa_tail e = lastp q zs" for q
      using t Cons by simp
    show ?thesis
    proof (cases ys rule: rev_cases)
      case Nil
      with n m zs tail [of None] d Cons show ?thesis
        by (simp add: unlink_psk_def pf_ops dll_def)
    next
      case (snoc vs a)
      from n(3) snoc obtain k where k: "h a = Some k" "psk_next k = Some c"
        by (auto split: option.splits)
      have dist: "a \<noteq> b" "a \<noteq> c" "b \<noteq> c" "a \<notin> set vs" "b \<notin> set ys" "a \<notin> set zs"
        using d snoc Cons by auto
      have hd: "psa_head e \<noteq> Some c"
        using n(3) d snoc by (cases vs) auto
      have tl: "psa_tail e \<noteq> Some c"
        using tail [of None] lastp_in [of zs None] d Cons by auto
      let ?h1 = "h(a \<mapsto> k\<lparr>psk_next := Some b\<rparr>)"
      let ?h2 = "?h1(b \<mapsto> m\<lparr>psk_previous := Some a\<rparr>)"
      have ya: "dseg ?h1 None (psa_head e) ys (Some b)"
        using n(3) k dist snoc by (auto intro: dseg_set_next)
      have "dseg ?h2 None (psa_head e) ys (Some b)"
        using ya dist by simp
      moreover have "dseg ?h2 (Some a) (Some b) zs None"
        using zs snoc dist by (subst fun_upd_twist) auto
      ultimately have "dseg ?h2 None (psa_head e) (ys @ zs) None"
        using snoc by auto
      moreover have "psk_payload ?h2 = psk_payload h"
        using k m dist by (auto simp: psk_payload_def fun_eq_iff)
      ultimately show ?thesis
        using n m k dist hd tl tail [of "Some a"] d snoc Cons
        by (auto simp: unlink_psk_def pf_ops dll_def)
    qed
  qed
qed

lemma unlink_psk_last:
  assumes dll: "dll h e (ys @ [c])" and "ys \<noteq> []"
  shows "\<exists>h'. unlink_psk h e c = Inr (h', e) \<and> dseg h' None (psa_head e) ys None \<and>
     psa_tail e = Some c \<and> (\<forall>b. b \<notin> set ys \<longrightarrow> h' b = h b) \<and> psk_payload h' = psk_payload h"
proof -
  obtain vs a where ys: "ys = vs @ [a]" using \<open>ys \<noteq> []\<close> by (cases ys rule: rev_cases) auto
  from dll ys obtain n k where n: "h c = Some n" "psk_previous n = Some a" "psk_next n = None"
    "dseg h None (psa_head e) ys (Some c)" "psa_tail e = Some c" "h a = Some k"
    and d: "distinct (ys @ [c])"
    by (auto simp: dll_def split: option.splits)
  have hd: "psa_head e \<noteq> Some c"
    using n(4) d ys by (cases vs) auto
  let ?h = "h(a \<mapsto> k\<lparr>psk_next := None\<rparr>)"
  have "dseg ?h None (psa_head e) ys None"
    using n d ys by (auto intro: dseg_set_next)
  with n hd d ys show ?thesis
    by (auto simp: unlink_psk_def pf_ops)
qed


lemma remove_port_sk_absent:
  assumes "dll h (arr i) xs" and "i = port_index lport" and "i < MAX_NUMBER_OF_PORTS"
    and "\<not> psa_lock (arr i)" and "find (psk_matches h rport rip) xs = None"
  shows "remove_port_sk h arr lport rport rip = Inr (None, h, arr)"
proof -
  from assms(1) have "find_psk h (psa_head (arr i)) rport rip =
      Some (Inr (find (psk_matches h rport rip) xs))"
    by (auto simp: dll_def intro: find_psk_dseg)
  with assms show ?thesis by (simp add: remove_port_sk_def pf_ops)
qed

lemma remove_port_sk_unlink:
  assumes "dll h (arr i) (ys @ c # zs)" and "i = port_index lport" and "i < MAX_NUMBER_OF_PORTS"
    and "\<not> psa_lock (arr i)" and "psk_matches h rport rip c"
    and "\<And>b. b \<in> set ys \<Longrightarrow> \<not> psk_matches h rport rip b"
  shows "remove_port_sk h arr lport rport rip =
    rbind (unlink_psk h ((arr i)\<lparr>psa_lock := True\<rparr>) c) (\<lambda>(h', e').
      Inr (Some c, h', arr(i := e'\<lparr>psa_lock := False\<rparr>)))"
proof -
  have "find (psk_matches h rport rip) ys = None"
    using assms(6) by (rule find_NoneI)
  then have "find (psk_matches h rport rip) (ys @ c # zs) = Some c"
    using assms(5) by (simp add: find_append)
  moreover from assms(1) have "find_psk h (psa_head (arr i)) rport rip =
      Some (Inr (find (psk_matches h rport rip) (ys @ c # zs)))"
    unfolding dll_def by (blast intro: find_psk_dseg)
  ultimately show ?thesis using assms(2-4) by (simp add: remove_port_sk_def pf_ops)
qed

lemma dll_lock [simp]: "dll h (e\<lparr>psa_lock := l\<rparr>) xs = dll h e xs"
  by (simp add: dll_def)

lemma remove_port_sk_dll:
  assumes "dll h (arr i) (ys @ c # zs)" and "i = port_index lport" and "i < MAX_NUMBER_OF_PORTS"
    and "\<not> psa_lock (arr i)" and "psk_matches h rport rip c"
    and "\<And>b. b \<in> set ys \<Longrightarrow> \<not> psk_matches h rport rip b"
    and "ys = [] \<or> zs \<noteq> []"
  shows "\<exists>h' arr'. remove_port_sk h arr lport rport rip = Inr (Some c, h', arr') \<and>
    dll h' (arr' i) (ys @ zs) \<and> slot_frame i (set (ys @ zs)) h arr h' arr'"
proof -
  from unlink_psk_dll [of h "(arr i)\<lparr>psa_lock := True\<rparr>" ys c zs] assms(1,7)
  obtain h' e' where "unlink_psk h ((arr i)\<lparr>psa_lock := True\<rparr>) c = Inr (h', e')"
    "dll h' e' (ys @ zs)" "psa_listening_sock e' = psa_listening_sock (arr i)"
    "\<forall>b. b \<notin> set (ys @ zs) \<longrightarrow> h' b = h b" "psk_payload h' = psk_payload h"
    by auto
  with remove_port_sk_unlink [of h arr i ys c zs, OF assms(1-6)] show ?thesis
    by (simp add: slot_frame_def)
qed

lemma remove_port_sk_last:
  assumes "dll h (arr i) (ys @ [c])" and "i = port_index lport" and "i < MAX_NUMBER_OF_PORTS"
    and "\<not> psa_lock (arr i)" and "psk_matches h rport rip c"
    and "\<And>b. b \<in> set ys \<Longrightarrow> \<not> psk_matches h rport rip b"
    and "ys \<noteq> []"
  shows "\<exists>h'. remove_port_sk h arr lport rport rip = Inr (Some c, h', arr) \<and>
    dseg h' None (psa_head (arr i)) ys None \<and> psa_tail (arr i) = Some c \<and>
    slot_frame i (set ys) h arr h' arr"
proof -
  from unlink_psk_last [of h "(arr i)\<lparr>psa_lock := True\<rparr>" ys c] assms(1,7)
  obtain h' where "unlink_psk h ((arr i)\<lparr>psa_lock := True\<rparr>) c = Inr (h', (arr i)\<lparr>psa_lock := True\<rparr>)"
    "dseg h' None (psa_head (arr i)) ys None" "psa_tail (arr i) = Some c"
    "\<forall>b. b \<notin> set ys \<longrightarrow> h' b = h b" "psk_payload h' = psk_payload h"
    by auto
  with remove_port_sk_unlink [of h arr i ys c "[]", OF assms(1-6)] assms(4) show ?thesis
    by (simp add: slot_frame_def)
qed

subsection \<open>The connection lists as a keyed queue\<close>

text \<open>
  A port's list as an abstract queue of nodes. The nodes' connection data \<open>P\<close> is a parameter:
  no list routine changes it, and it decides both the allocation and the keys.
\<close>

type_synonym psk_data = "addr \<Rightarrow> (addr option \<times> u16 \<times> u32) option"

definition port_repr :: "psk_data \<Rightarrow> u16 \<Rightarrow> psk_heap \<times> port_table \<Rightarrow> addr list \<Rightarrow> bool" where
  "port_repr P lport s xs \<longleftrightarrow> (case s of (h, arr) \<Rightarrow>
     dll h (arr (port_index lport)) xs \<and> \<not> psa_lock (arr (port_index lport)) \<and>
     port_index lport < MAX_NUMBER_OF_PORTS \<and> psk_payload h = P)"

definition port_fits :: "psk_data \<Rightarrow> addr list \<Rightarrow> bool" where
  "port_fits P xs \<longleftrightarrow> distinct xs \<and> (\<forall>a \<in> set xs. P a \<noteq> None)"

definition port_enq :: "u16 \<Rightarrow> addr \<Rightarrow> psk_heap \<times> port_table \<Rightarrow> (psk_heap \<times> port_table) res" where
  "port_enq lport a s = (case s of (h, arr) \<Rightarrow> add_port_sk h arr lport (Some a))"

definition port_deq ::
    "u16 \<Rightarrow> psk_heap \<times> port_table \<Rightarrow> (addr option \<times> psk_heap \<times> port_table) res" where
  "port_deq lport s = (case s of (h, arr) \<Rightarrow> put_port_sk h arr lport)"

definition port_key :: "psk_data \<Rightarrow> addr \<Rightarrow> (u16 \<times> u32) option" where
  "port_key P a = map_option snd (P a)"

text \<open>A search key is a pair of remote port and address; None is never searched for.\<close>

definition port_look ::
    "u16 \<Rightarrow> (u16 \<times> u32) option \<Rightarrow> psk_heap \<times> port_table \<Rightarrow> addr option res" where
  "port_look lport k s = (case k of None \<Rightarrow> Inr None | Some (rport, rip) \<Rightarrow>
     (case s of (h, arr) \<Rightarrow> rbind (get_port_sk h arr lport rport rip) (\<lambda>(r, arr'). Inr r)))"

definition port_del :: "u16 \<Rightarrow> (u16 \<times> u32) option \<Rightarrow> psk_heap \<times> port_table
    \<Rightarrow> (addr option \<times> psk_heap \<times> port_table) res" where
  "port_del lport k s = (case k of None \<Rightarrow> Inr (None, s) | Some (rport, rip) \<Rightarrow>
     (case s of (h, arr) \<Rightarrow> remove_port_sk h arr lport rport rip))"

lemma psk_matches_key: "psk_matches h rport rip a \<longleftrightarrow> port_key (psk_payload h) a = Some (rport, rip)"
  by (auto simp: psk_matches_def port_key_def psk_payload_def split: option.splits)

lemma dll_key_alloc: "dll h e xs \<Longrightarrow> a \<in> set xs \<Longrightarrow> port_key (psk_payload h) a \<noteq> None"
  by (auto simp: dll_def port_key_def psk_payload_def dest: dseg_alloc)

interpretation pq: keyed_queue "port_repr P lport" "port_fits P" "port_enq lport" "port_deq lport"
    "port_key P" "port_look lport" "port_del lport"
  for P lport
proof unfold_locales
  fix s xs x
  assume r: "port_repr P lport s xs" and f: "port_fits P (xs @ [x])"
  obtain h arr where s: "s = (h, arr)" by (cases s)
  from r f s obtain n where "h x = Some n" "x \<notin> set xs"
    by (auto simp: port_repr_def port_fits_def psk_payload_def)
  with r s add_port_sk_dll [of h arr "port_index lport" xs lport x n]
  show "\<exists>s'. port_enq lport x s = Inr s' \<and> port_repr P lport s' (xs @ [x])"
    by (auto simp: port_repr_def port_enq_def slot_frame_def)
next
  fix s
  assume r: "port_repr P lport s []"
  then show "\<exists>s'. port_deq lport s = Inr (None, s') \<and> port_repr P lport s' []"
    using put_port_sk_dll [of "fst s" "snd s" "port_index lport" "[]" lport]
    by (fastforce simp: port_repr_def port_deq_def slot_frame_def split: prod.splits)
next
  fix s x xs
  assume r: "port_repr P lport s (x # xs)"
  then show "\<exists>s'. port_deq lport s = Inr (Some x, s') \<and> port_repr P lport s' xs"
    using put_port_sk_dll [of "fst s" "snd s" "port_index lport" "x # xs" lport]
    by (fastforce simp: port_repr_def port_deq_def slot_frame_def split: prod.splits)
next
  fix s xs k
  assume r: "port_repr P lport s xs"
  obtain h arr where s: "s = (h, arr)" by (cases s)
  show "port_look lport k s = Inr (find (\<lambda>x. port_key P x = k) xs)"
  proof (cases k)
    case None
    with r s show ?thesis
      by (auto simp: port_look_def port_repr_def dest: dll_key_alloc intro!: find_NoneI [symmetric])
  next
    case (Some q)
    with r s get_port_sk_dll [of h arr "port_index lport" xs lport "fst q" "snd q"]
    show ?thesis
      by (auto simp: port_look_def port_repr_def psk_matches_key [abs_def] split: prod.splits)
  qed
next
  fix s xs k
  assume r: "port_repr P lport s xs" and k: "k \<notin> port_key P ` set xs"
  obtain h arr where s: "s = (h, arr)" by (cases s)
  show "port_del lport k s = Inr (None, s)"
  proof (cases k)
    case None
    then show ?thesis by (simp add: port_del_def)
  next
    case (Some q)
    have "find (psk_matches h (fst q) (snd q)) xs = None"
    proof (rule find_NoneI)
      fix x
      assume "x \<in> set xs"
      with k have "port_key P x \<noteq> k" by blast
      with r s Some show "\<not> psk_matches h (fst q) (snd q) x"
        by (auto simp: port_repr_def psk_matches_key)
    qed
    with r s Some remove_port_sk_absent [of h arr "port_index lport" xs lport "fst q" "snd q"]
    show ?thesis by (auto simp: port_del_def port_repr_def split: prod.splits)
  qed
next
  fix s ys x zs
  assume r: "port_repr P lport s (ys @ x # zs)" and k: "port_key P x \<notin> port_key P ` set ys"
    and p: "ys = [] \<or> zs \<noteq> []"
  obtain h arr where s: "s = (h, arr)" by (cases s)
  from r s obtain rport rip where q: "port_key P x = Some (rport, rip)"
    using dll_key_alloc [of h "arr (port_index lport)" "ys @ x # zs" x] by (auto simp: port_repr_def)
  have "\<exists>h' arr'. remove_port_sk h arr lport rport rip = Inr (Some x, h', arr') \<and>
    dll h' (arr' (port_index lport)) (ys @ zs) \<and>
    slot_frame (port_index lport) (set (ys @ zs)) h arr h' arr'"
    using r s k q p
    by (intro remove_port_sk_dll) (auto simp: port_repr_def psk_matches_key not_in_image)
  with r s q show "\<exists>s'. port_del lport (port_key P x) s = Inr (Some x, s') \<and>
      port_repr P lport s' (ys @ zs)"
    by (auto simp: port_del_def port_repr_def slot_frame_def)
qed

subsection \<open>Ownership across slots and tables\<close>

text \<open>
  The module keeps two tables over one heap. \<open>table_inv\<close> says that every slot of a table is
  unlocked and holds the list \<open>L i\<close>, with no node in two slots; \<open>tables_inv\<close> that the two
  tables share no node either.
\<close>

definition slot_nodes :: "(nat \<Rightarrow> addr list) \<Rightarrow> addr set" where
  "slot_nodes L = (\<Union>i \<in> {..<MAX_NUMBER_OF_PORTS}. set (L i))"

definition table_inv :: "psk_heap \<Rightarrow> port_table \<Rightarrow> (nat \<Rightarrow> addr list) \<Rightarrow> bool" where
  "table_inv h arr L \<longleftrightarrow>
     (\<forall>i < MAX_NUMBER_OF_PORTS. dll h (arr i) (L i) \<and> \<not> psa_lock (arr i)) \<and>
     (\<forall>i < MAX_NUMBER_OF_PORTS. \<forall>j < MAX_NUMBER_OF_PORTS. i \<noteq> j \<longrightarrow> set (L i) \<inter> set (L j) = {})"

definition tables_inv :: "psk_heap \<Rightarrow> port_table \<Rightarrow> port_table \<Rightarrow> (nat \<Rightarrow> addr list)
    \<Rightarrow> (nat \<Rightarrow> addr list) \<Rightarrow> bool" where
  "tables_inv h inc con Li Lc \<longleftrightarrow>
     table_inv h inc Li \<and> table_inv h con Lc \<and> slot_nodes Li \<inter> slot_nodes Lc = {}"

lemma dll_cong: "dll h e xs \<Longrightarrow> (\<And>a. a \<in> set xs \<Longrightarrow> h' a = h a) \<Longrightarrow> dll h' e xs"
  using dseg_cong [of xs h' h] by (auto simp: dll_def)

lemma table_inv_cong:
  "table_inv h arr L \<Longrightarrow> (\<And>a. a \<in> slot_nodes L \<Longrightarrow> h' a = h a) \<Longrightarrow> table_inv h' arr L"
  unfolding table_inv_def slot_nodes_def by (blast intro: dll_cong)

lemma slot_nodes_mem: "i < MAX_NUMBER_OF_PORTS \<Longrightarrow> a \<in> set (L i) \<Longrightarrow> a \<in> slot_nodes L"
  by (auto simp: slot_nodes_def)

lemma slot_nodes_upd:
  "i < MAX_NUMBER_OF_PORTS \<Longrightarrow> slot_nodes (L(i := xs)) \<subseteq> slot_nodes L \<union> set xs"
  by (auto simp: slot_nodes_def split: if_splits)

text \<open>
  One lemma for every operation: a step on slot \<open>i\<close> that writes only nodes of \<open>L i\<close> and nodes
  in no list keeps the table, with the slot's list replaced.
\<close>

lemma table_inv_step:
  assumes inv: "table_inv h arr L" and i: "i < MAX_NUMBER_OF_PORTS"
    and fr: "slot_frame i X h arr h' arr'" and xs: "dll h' (arr' i) xs"
    and X: "X \<inter> slot_nodes L \<subseteq> set (L i)" and new: "set xs \<inter> slot_nodes L \<subseteq> set (L i)"
  shows "table_inv h' arr' (L(i := xs))"
proof -
  have other: "dll h' (arr' j) (L j) \<and> \<not> psa_lock (arr' j)"
    if j: "j < MAX_NUMBER_OF_PORTS" "j \<noteq> i" for j
  proof -
    have ij: "set (L i) \<inter> set (L j) = {}" and d: "dll h (arr j) (L j)" "\<not> psa_lock (arr j)"
      using inv i j by (simp_all add: table_inv_def)
    have fr': "\<forall>b. b \<notin> X \<longrightarrow> h' b = h b" "arr' j = arr j"
      using fr j by (simp_all add: slot_frame_def)
    have "a \<notin> X" if "a \<in> set (L j)" for a
      using that X ij slot_nodes_mem [of j a L] j by blast
    then have "dll h' (arr j) (L j)"
      using fr' by (intro dll_cong [OF d(1)]) blast
    with d fr' show ?thesis by simp
  qed
  have sep: "set xs \<inter> set (L j) = {}" if j: "j < MAX_NUMBER_OF_PORTS" "j \<noteq> i" for j
  proof -
    have "set (L i) \<inter> set (L j) = {}"
      using inv i j by (simp add: table_inv_def)
    with new slot_nodes_mem [of j _ L] j show ?thesis by blast
  qed
  have slot: "dll h' (arr' j) ((L(i := xs)) j) \<and> \<not> psa_lock (arr' j)"
    if "j < MAX_NUMBER_OF_PORTS" for j
    using other [of j] that xs fr by (cases "j = i") (simp_all add: slot_frame_def)
  have disj: "set ((L(i := xs)) j) \<inter> set ((L(i := xs)) k) = {}"
    if "j < MAX_NUMBER_OF_PORTS" "k < MAX_NUMBER_OF_PORTS" "j \<noteq> k" for j k
  proof (cases "j = i \<or> k = i")
    case True
    then show ?thesis
    proof
      assume "j = i"
      with that sep [of k] show ?thesis by simp
    next
      assume "k = i"
      with that sep [of j] show ?thesis by (simp add: Int_commute)
    qed
  next
    case False
    with that inv show ?thesis by (simp add: table_inv_def)
  qed
  show ?thesis
    by (simp add: table_inv_def slot disj del: fun_upd_apply)
qed

lemma table_inv_other:
  "table_inv h arr L \<Longrightarrow> slot_frame i X h arr0 h' arr0' \<Longrightarrow> X \<inter> slot_nodes L = {} \<Longrightarrow> table_inv h' arr L"
  by (erule table_inv_cong) (auto simp: slot_frame_def)

lemma table_inv_dll:
  "table_inv h arr L \<Longrightarrow> i < MAX_NUMBER_OF_PORTS \<Longrightarrow> dll h (arr i) (L i) \<and> \<not> psa_lock (arr i)"
  by (simp add: table_inv_def)

lemma tables_add_fst:
  assumes inv: "tables_inv h inc con Li Lc" and i: "i = port_index lport" "i < MAX_NUMBER_OF_PORTS"
    and a: "h a = Some n" "a \<notin> slot_nodes Li" "a \<notin> slot_nodes Lc"
  shows "\<exists>h' inc'. add_port_sk h inc lport (Some a) = Inr (h', inc') \<and>
    tables_inv h' inc' con (Li(i := Li i @ [a])) Lc \<and>
    slot_frame i (insert a (set (Li i))) h inc h' inc'"
proof -
  from inv i have "dll h (inc i) (Li i)" "\<not> psa_lock (inc i)" "a \<notin> set (Li i)"
    using a slot_nodes_mem [of i a Li] by (auto simp: tables_inv_def table_inv_def)
  from add_port_sk_dll [of h inc i, OF this(1) i this(2) a(1) this(3)] obtain h' inc' where
    st: "add_port_sk h inc lport (Some a) = Inr (h', inc')" "dll h' (inc' i) (Li i @ [a])"
    "slot_frame i (insert a (set (Li i))) h inc h' inc'"
    by blast
  have sub: "set (Li i) \<subseteq> slot_nodes Li" using i slot_nodes_mem [of i _ Li] by auto
  have "table_inv h' inc' (Li(i := Li i @ [a]))"
    using inv i st a by (intro table_inv_step) (auto simp: tables_inv_def)
  moreover have "table_inv h' con Lc"
    using inv st a sub by (intro table_inv_other [OF _ st(3)]) (auto simp: tables_inv_def)
  moreover have "slot_nodes (Li(i := Li i @ [a])) \<inter> slot_nodes Lc = {}"
    using slot_nodes_upd [OF i(2), of Li "Li i @ [a]"] sub a inv by (auto simp: tables_inv_def)
  ultimately show ?thesis using st by (auto simp: tables_inv_def)
qed

lemma tables_inv_swap: "tables_inv h inc con Li Lc \<longleftrightarrow> tables_inv h con inc Lc Li"
  by (auto simp: tables_inv_def)

lemma tables_put_fst:
  assumes inv: "tables_inv h inc con Li Lc" and i: "i = port_index lport" "i < MAX_NUMBER_OF_PORTS"
  shows "\<exists>h' inc'. put_port_sk h inc lport =
      Inr (case Li i of [] \<Rightarrow> None | a # _ \<Rightarrow> Some a, h', inc') \<and>
    tables_inv h' inc' con (Li(i := tl (Li i))) Lc \<and> slot_frame i (set (Li i)) h inc h' inc'"
proof -
  from inv i have "dll h (inc i) (Li i)" "\<not> psa_lock (inc i)"
    by (auto simp: tables_inv_def table_inv_def)
  from put_port_sk_dll [of h inc i, OF this(1) i this(2)] obtain h' inc' where
    st: "put_port_sk h inc lport = Inr (case Li i of [] \<Rightarrow> None | a # _ \<Rightarrow> Some a, h', inc')"
    "dll h' (inc' i) (tl (Li i))" "slot_frame i (set (tl (Li i))) h inc h' inc'"
    by blast
  have tl: "set (tl (Li i)) \<subseteq> set (Li i)" by (cases "Li i") auto
  have sub: "set (Li i) \<subseteq> slot_nodes Li" using i slot_nodes_mem [of i _ Li] by auto
  have fr: "slot_frame i (set (Li i)) h inc h' inc'"
    using st(3) tl by (auto simp: slot_frame_def)
  have "table_inv h' inc' (Li(i := tl (Li i)))"
    using inv i st fr tl by (intro table_inv_step [OF _ i(2) fr]) (auto simp: tables_inv_def)
  moreover have "table_inv h' con Lc"
    using inv sub by (intro table_inv_other [OF _ fr]) (auto simp: tables_inv_def)
  moreover have "slot_nodes (Li(i := tl (Li i))) \<inter> slot_nodes Lc = {}"
    using slot_nodes_upd [OF i(2), of Li "tl (Li i)"] sub tl inv by (auto simp: tables_inv_def)
  ultimately show ?thesis using st fr by (auto simp: tables_inv_def)
qed

lemma tables_remove_fst:
  assumes inv: "tables_inv h inc con Li Lc" and i: "i = port_index lport" "i < MAX_NUMBER_OF_PORTS"
    and L: "Li i = ys @ c # zs" "ys = [] \<or> zs \<noteq> []"
    and m: "psk_matches h rport rip c" "\<And>b. b \<in> set ys \<Longrightarrow> \<not> psk_matches h rport rip b"
  shows "\<exists>h' inc'. remove_port_sk h inc lport rport rip = Inr (Some c, h', inc') \<and>
    tables_inv h' inc' con (Li(i := ys @ zs)) Lc \<and> slot_frame i (set (ys @ zs)) h inc h' inc'"
proof -
  from inv i L have "dll h (inc i) (ys @ c # zs)" "\<not> psa_lock (inc i)"
    by (auto simp: tables_inv_def table_inv_def dest: spec [of _ i])
  from remove_port_sk_dll [of h inc i ys c zs, OF this(1) i this(2) m L(2)] obtain h' inc' where
    st: "remove_port_sk h inc lport rport rip = Inr (Some c, h', inc')"
    "dll h' (inc' i) (ys @ zs)" "slot_frame i (set (ys @ zs)) h inc h' inc'"
    by blast
  have sub: "set (ys @ zs) \<subseteq> slot_nodes Li" using i L slot_nodes_mem [of i _ Li] by auto
  have "table_inv h' inc' (Li(i := ys @ zs))"
    using inv i st L by (intro table_inv_step) (auto simp: tables_inv_def)
  moreover have "table_inv h' con Lc"
    using inv sub by (intro table_inv_other [OF _ st(3)]) (auto simp: tables_inv_def)
  moreover have "slot_nodes (Li(i := ys @ zs)) \<inter> slot_nodes Lc = {}"
    using slot_nodes_upd [OF i(2), of Li "ys @ zs"] sub inv by (auto simp: tables_inv_def)
  ultimately show ?thesis using st by (auto simp: tables_inv_def)
qed

subsection \<open>Properties\<close>

text \<open>
  C5. The connection list of a port is a first-in first-out queue: from a well-formed list, every
  sequence of \<open>add_port_sk\<close> and \<open>put_port_sk\<close> calls that adds only allocated nodes not
  already in the list returns, returns exactly the nodes the abstract queue returns in its order
  (NULL when it is empty), and leaves a well-formed doubly-linked list of the abstract content.
  No node's connection data changes.
\<close>

theorem port_list_refines_fifo:
  assumes "dll h (arr (port_index lport)) xs" and "\<not> psa_lock (arr (port_index lport))"
    and "port_index lport < MAX_NUMBER_OF_PORTS"
    and "spec_fits (port_fits (psk_payload h)) xs ops"
  shows "\<exists>h' arr'. conc_run (port_enq lport) (port_deq lport) (h, arr) ops =
      Inr (fst (spec_run xs ops), h', arr') \<and>
    dll h' (arr' (port_index lport)) (snd (spec_run xs ops)) \<and> psk_payload h' = psk_payload h"
proof -
  have "port_repr (psk_payload h) lport (h, arr) xs"
    using assms by (simp add: port_repr_def)
  from pq.run_refines [OF this assms(4)] show ?thesis
    by (auto simp: port_repr_def)
qed

text \<open>A concrete heap: two nodes for one port, a third one not yet in any list.\<close>

definition demo_psk :: "nat \<Rightarrow> port_sk" where
  "demo_psk k = \<lparr>psk_sk = Some (100 + k), psk_rport = of_nat k, psk_rip = of_nat (10 * k),
     psk_next = None, psk_previous = None\<rparr>"

definition demo_heap :: psk_heap where
  "demo_heap = [1 \<mapsto> (demo_psk 1)\<lparr>psk_next := Some 2\<rparr>,
                2 \<mapsto> (demo_psk 2)\<lparr>psk_previous := Some 1\<rparr>, 3 \<mapsto> demo_psk 3]"

definition demo_table :: port_table where
  "demo_table = empty_table(port_index 0x5000 := empty_slot\<lparr>psa_head := Some 1, psa_tail := Some 2\<rparr>)"

lemma demo_dll:
  "dll demo_heap (demo_table (port_index 0x5000)) [1, 2]"
  "\<not> psa_lock (demo_table (port_index 0x5000))"
  "demo_heap 3 = Some (demo_psk 3)"
  by (simp_all add: dll_def demo_heap_def demo_table_def demo_psk_def empty_slot_def empty_table_def)

lemma demo_index: "port_index 0x5000 = 80"
  by (simp add: port_index_def ntohs_def)

theorem port_list_refines_fifo_witness:
  "\<exists>h' arr'. conc_run (port_enq 0x5000) (port_deq 0x5000) (demo_heap, demo_table)
       [Deq, Enq 3, Deq, Deq, Deq] = Inr ([Some 1, Some 2, Some 3, None], h', arr') \<and>
     dll h' (arr' (port_index 0x5000)) [] \<and> psk_payload h' = psk_payload demo_heap"
proof -
  have "spec_fits (port_fits (psk_payload demo_heap)) [1, 2] [Deq, Enq 3, Deq, Deq, Deq]"
    by (simp add: port_fits_def psk_payload_def demo_heap_def)
  with port_list_refines_fifo [of demo_heap demo_table "0x5000", OF demo_dll(1,2), of "[Deq, Enq 3, Deq, Deq, Deq]"] show ?thesis
    by (simp add: demo_index MAX_NUMBER_OF_PORTS_def)
qed



text \<open>
  C26. Lock discipline: whatever the heap and the table hold, when one of the six locking routines
  returns, the slot's lock was free at entry and is free at exit on that path, and no other
  slot of the table changed.
\<close>

definition lock_balanced :: "nat \<Rightarrow> port_table \<Rightarrow> port_table \<Rightarrow> bool" where
  "lock_balanced i arr arr' \<longleftrightarrow>
     \<not> psa_lock (arr i) \<and> \<not> psa_lock (arr' i) \<and> (\<forall>j. j \<noteq> i \<longrightarrow> arr' j = arr j)"

lemma lock_slot_Inr: "lock_slot e = Inr e' \<longleftrightarrow> \<not> psa_lock e \<and> e' = e\<lparr>psa_lock := True\<rparr>"
  by (auto simp: lock_slot_def spin_lock_def)



text \<open>
  The tables have 65535 entries, indexed by the port in host order: for port 65535, a legal TCP
  port, every routine reads beyond the array, and for every other port the index is inside.
\<close>

theorem port_65535_out_of_bounds:
  "port_index lport = 65535 \<Longrightarrow>
     remove_port_sk h arr lport rport rip = Inl OutOfBounds \<and>
     put_port_sk h arr lport = Inl OutOfBounds \<and>
     add_port_sk h arr lport (Some a) = Inl OutOfBounds \<and>
     get_port_sk h arr lport rport rip = Inl OutOfBounds \<and>
     portsk_queue_empty arr lport = Inl OutOfBounds \<and>
     get_listening_sk_port_sk_arr arr lport = Inl OutOfBounds"
  by (simp add: remove_port_sk_def put_port_sk_def add_port_sk_def get_port_sk_def get_slot_def
      portsk_queue_empty_def get_listening_sk_port_sk_arr_def MAX_NUMBER_OF_PORTS_def Let_def)

theorem port_65535_out_of_bounds_witness:
  "add_port_sk demo_heap empty_table 0xFFFF (Some 3) = Inl OutOfBounds"
proof -
  have "port_index 0xFFFF = 65535"
    by (simp add: port_index_def ntohs_def)
  then show ?thesis
    using port_65535_out_of_bounds by blast
qed

lemma port_index_less: "port_index lport < MAX_NUMBER_OF_PORTS \<longleftrightarrow> port_index lport \<noteq> 65535"
  using port_index_le [of lport] by (auto simp: MAX_NUMBER_OF_PORTS_def)

text \<open>
  C29. Removing the last of several nodes leaves the slot's tail pointer at the removed node. When
  that node is then freed, as the CLOSE handler does, the next \<open>add_port_sk\<close> on the port writes
  through freed memory; when it is kept, as on the way from one table to the other, the next
  node added is not reachable from the slot's head and \<open>get_port_sk\<close> answers as if it had
  never been added.
\<close>

theorem stale_tail_after_remove:
  assumes "dll h (arr (port_index lport)) (ys @ [c])" and "ys \<noteq> []"
    and "port_index lport < MAX_NUMBER_OF_PORTS" and "\<not> psa_lock (arr (port_index lport))"
    and "psk_matches h rport rip c" and "\<forall>b \<in> set ys. \<not> psk_matches h rport rip b"
    and "h a = Some n" and "a \<notin> set (ys @ [c])"
  shows "\<exists>h1. remove_port_sk h arr lport rport rip = Inr (Some c, h1, arr) \<and>
    (\<exists>h2. psk_kfree h1 (Some c) = Inr h2 \<and> add_port_sk h2 arr lport (Some a) = Inl Dangling) \<and>
    (\<exists>h3 arr3. add_port_sk h1 arr lport (Some a) = Inr (h3, arr3) \<and>
       (\<forall>rp ri. get_port_sk h3 arr3 lport rp ri = Inr (find (psk_matches h rp ri) ys, arr3)))"
proof -
  let ?i = "port_index lport"
  from remove_port_sk_last [of h arr ?i ys c lport rport rip] assms
  obtain h1 where rm: "remove_port_sk h arr lport rport rip = Inr (Some c, h1, arr)"
    and seg: "dseg h1 None (psa_head (arr ?i)) ys None" and tl: "psa_tail (arr ?i) = Some c"
    and fr: "\<forall>b. b \<notin> set ys \<longrightarrow> h1 b = h b" "psk_payload h1 = psk_payload h"
    by (auto simp: slot_frame_def)
  from assms(1) have c: "c \<notin> set ys" "\<exists>k. h c = Some k"
    by (auto simp: dll_def split: option.splits)
  from c fr(1) obtain k where k: "h1 c = Some k" by auto
  from assms(7,8) fr(1) have a: "h1 a = Some n" "a \<noteq> c" "a \<notin> set ys" by auto
  have free: "psk_kfree h1 (Some c) = Inr (h1(c := None))"
    using k by (simp add: psk_kfree_def)
  have fault: "add_port_sk (h1(c := None)) arr lport (Some a) = Inl Dangling"
    using a tl assms(3,4) by (simp add: add_port_sk_def pf_ops)
  let ?n = "n\<lparr>psk_next := None, psk_previous := Some c\<rparr>"
  let ?h3 = "h1(a \<mapsto> ?n, c \<mapsto> k\<lparr>psk_next := Some a\<rparr>)"
  let ?arr3 = "arr(?i := (arr ?i)\<lparr>psa_tail := Some a\<rparr>)"
  have add: "add_port_sk h1 arr lport (Some a) = Inr (?h3, ?arr3)"
    using a k tl assms(3,4) by (simp add: add_port_sk_def pf_ops)
  have pl: "psk_payload ?h3 = psk_payload h"
  proof -
    have "psk_payload ?h3 b = psk_payload h1 b" for b
      using a k by (simp add: psk_payload_def)
    then have "psk_payload ?h3 = psk_payload h1" by (rule ext)
    with fr(2) show ?thesis by simp
  qed
  have "dseg ?h3 None (psa_head (arr ?i)) ys None"
    using seg a c by simp
  then have get: "\<forall>rp ri. get_port_sk ?h3 ?arr3 lport rp ri = Inr (find (psk_matches h rp ri) ys, ?arr3)"
    using assms(3,4) by (simp add: get_port_sk_def pf_ops find_psk_dseg psk_matches_payload [OF pl])
  from rm free fault add get show ?thesis by (intro exI conjI) assumption+
qed

theorem stale_tail_after_remove_witness:
  "\<exists>h1 h2. remove_port_sk demo_heap demo_table 0x5000 2 20 = Inr (Some 2, h1, demo_table) \<and>
     psk_kfree h1 (Some 2) = Inr h2 \<and> add_port_sk h2 demo_table 0x5000 (Some 3) = Inl Dangling"
proof -
  have "psk_matches demo_heap 2 20 2" "\<forall>b \<in> set [1]. \<not> psk_matches demo_heap 2 20 b"
    by (simp_all add: psk_matches_def demo_heap_def demo_psk_def)
  then show ?thesis
    using stale_tail_after_remove [of demo_heap demo_table "0x5000" "[1]" 2 2 20 3] demo_dll
    by (auto simp: demo_index MAX_NUMBER_OF_PORTS_def)
qed

end
