(* ===== verification/Ring_Queue.thy ===== *)
theory Ring_Queue
  imports Queue_Interface
begin

text \<open>
  The shared ring of message descriptors (\<open>rdma/rdma_daemon.h\<close>) and the code that moves it:
  \<open>get_free_metamessage\<close>, the fill and publish steps of \<open>rdma_xmit\<close> on the sending machine,
  and the head of the loop of \<open>rdma_recv\<close> on the receiving machine
  (\<open>rdma/rdma_daemon.c\<close>). Indices are the 32-bit words of the C struct. \<open>pending\<close> lists the
  slots the receiver would still read; the refinement says the ring is a first-in first-out
  queue up to its capacity of 1557 messages, and the theorems on a full ring what happens beyond.
\<close>

subsection \<open>Data\<close>

definition SEGMENT_SIZE :: nat where "SEGMENT_SIZE = 64 * 1024"
definition LTCP_QUEUE_MSG_SIZE :: nat where "LTCP_QUEUE_MSG_SIZE = 42"
definition SIZE_OF_OTHER_ELEMENTS :: nat where "SIZE_OF_OTHER_ELEMENTS = 20"
definition LTCP_MSG_QUEUE_BYTESIZE :: nat where
  "LTCP_MSG_QUEUE_BYTESIZE = SEGMENT_SIZE - SIZE_OF_OTHER_ELEMENTS"
definition LTCP_MSG_QUEUE_SIZE :: nat where
  "LTCP_MSG_QUEUE_SIZE = LTCP_MSG_QUEUE_BYTESIZE div LTCP_QUEUE_MSG_SIZE"

lemma LTCP_MSG_QUEUE_SIZE: "LTCP_MSG_QUEUE_SIZE = 1559"
  by (simp add: LTCP_MSG_QUEUE_SIZE_def LTCP_MSG_QUEUE_BYTESIZE_def SEGMENT_SIZE_def
      SIZE_OF_OTHER_ELEMENTS_def LTCP_QUEUE_MSG_SIZE_def)

record ltcp_queue_msg =
  src_ip :: u32
  dest_ip :: u32
  src_port :: u32
  dest_port :: u32
  msg_type :: u32
  offset_from_aperture :: u64
  msg_size :: u64

record ltcp_ring_queue =
  rq_start :: u32
  rq_end :: u32
  phys_start :: u32
  phys_end :: u32
  int_no :: u32
  rq_queue :: "nat \<Rightarrow> ltcp_queue_msg"

subsection \<open>The sender's side\<close>

text \<open>The returned pointer \<open>&(rq->queue[rq->end])\<close> is its index; NULL is None.\<close>

definition get_free_metamessage :: "ltcp_ring_queue \<Rightarrow> nat option \<times> ltcp_ring_queue" where
  "get_free_metamessage rq =
     (if rq_end rq + 1 = rq_start rq then (None, rq)
      else
        let rq' = (if rq_end rq + 1 = of_nat LTCP_MSG_QUEUE_SIZE then rq\<lparr>rq_end := 0\<rparr> else rq)
        in (Some (unat (rq_end rq')), rq'))"

text \<open>The seven stores that fill the message header in \<open>rdma_xmit\<close>, through that pointer.\<close>

definition fill_metamessage ::
    "ltcp_ring_queue \<Rightarrow> nat \<Rightarrow> ltcp_queue_msg \<Rightarrow> ltcp_ring_queue res" where
  "fill_metamessage rq i m =
     (if i < LTCP_MSG_QUEUE_SIZE then Inr (rq\<lparr>rq_queue := (rq_queue rq)(i := m)\<rparr>)
      else Inl OutOfBounds)"

text \<open>The end of \<open>rdma_xmit\<close>: wrap if needed, then \<open>end++\<close>.\<close>

definition publish_metamessage :: "ltcp_ring_queue \<Rightarrow> ltcp_ring_queue" where
  "publish_metamessage rq =
     (let rq' = (if rq_end rq + 1 = of_nat LTCP_MSG_QUEUE_SIZE then rq\<lparr>rq_end := 0\<rparr> else rq)
      in rq'\<lparr>rq_end := rq_end rq' + 1\<rparr>)"

text \<open>
  The three steps as \<open>rdma_xmit\<close> runs them under \<open>send_queue_lock\<close>. Without a free slot the
  code prints a message and goes on to publish all the same.
\<close>

definition send_metamessage :: "ltcp_queue_msg \<Rightarrow> ltcp_ring_queue \<Rightarrow> ltcp_ring_queue res" where
  "send_metamessage m rq =
     (case get_free_metamessage rq of
        (None, rq1) \<Rightarrow> Inr (publish_metamessage rq1)
      | (Some i, rq1) \<Rightarrow> rbind (fill_metamessage rq1 i m) (\<lambda>rq2. Inr (publish_metamessage rq2)))"

subsection \<open>The receiver's side\<close>

text \<open>
  One test and advance of the loop in \<open>rdma_recv\<close>: None when the loop leaves, Some of the slot
  that \<open>&(rq->queue[rq->start++])\<close> names otherwise.
\<close>

definition rdma_recv_next :: "ltcp_ring_queue \<Rightarrow> (nat option \<times> ltcp_ring_queue) res" where
  "rdma_recv_next rq =
     (let take = (\<lambda>r. if unat (rq_start r) < LTCP_MSG_QUEUE_SIZE
                      then Inr (Some (unat (rq_start r)), r\<lparr>rq_start := rq_start r + 1\<rparr>)
                      else Inl OutOfBounds)
      in if rq_start rq \<noteq> rq_end rq then
           (if rq_start rq + 1 = of_nat LTCP_MSG_QUEUE_SIZE then
              let rq1 = rq\<lparr>rq_start := 0\<rparr>
              in if rq_end rq1 = rq_start rq1 then Inr (None, rq1) else take rq1
            else take rq)
         else Inr (None, rq))"

definition recv_metamessage ::
    "ltcp_ring_queue \<Rightarrow> (ltcp_queue_msg option \<times> ltcp_ring_queue) res" where
  "recv_metamessage rq = rbind (rdma_recv_next rq) (\<lambda>(i, rq'). Inr (map_option (rq_queue rq') i, rq'))"

subsection \<open>Pending slots\<close>

definition ring_ok :: "ltcp_ring_queue \<Rightarrow> bool" where
  "ring_ok rq \<longleftrightarrow> unat (rq_start rq) < LTCP_MSG_QUEUE_SIZE \<and> unat (rq_end rq) < LTCP_MSG_QUEUE_SIZE"

definition slots_between :: "nat \<Rightarrow> nat \<Rightarrow> nat list" where
  "slots_between s e =
     (if s \<le> e then [s..<e] else [s..<LTCP_MSG_QUEUE_SIZE - 1] @ [0..<e])"

definition pending :: "ltcp_ring_queue \<Rightarrow> nat list" where
  "pending rq = slots_between (unat (rq_start rq)) (unat (rq_end rq))"

text \<open>The positions from which a further send does not append: see \<open>send_full\<close> below.\<close>

definition ring_full :: "ltcp_ring_queue \<Rightarrow> bool" where
  "ring_full rq \<longleftrightarrow>
     unat (rq_end rq) + 1 = unat (rq_start rq) \<or>
     unat (rq_end rq) = LTCP_MSG_QUEUE_SIZE - 1 \<and> unat (rq_start rq) \<le> 1"

definition ring_capacity :: nat where
  "ring_capacity = LTCP_MSG_QUEUE_SIZE - 2"

definition ring_repr :: "ltcp_ring_queue \<Rightarrow> ltcp_queue_msg list \<Rightarrow> bool" where
  "ring_repr rq ms \<longleftrightarrow> ring_ok rq \<and> map (rq_queue rq) (pending rq) = ms"

definition ring_fits :: "ltcp_queue_msg list \<Rightarrow> bool" where
  "ring_fits ms \<longleftrightarrow> length ms \<le> ring_capacity"

lemma u32_succ: "unat (w :: u32) < 2000 \<Longrightarrow> unat (w + 1) = unat w + 1"
  by (simp add: unat_word_ariths)

lemma u32_succ_eq: "unat (w :: u32) < 2000 \<Longrightarrow> w + 1 = v \<longleftrightarrow> unat w + 1 = unat v"
  by (simp add: word_unat_eq_iff u32_succ)

lemma length_slots_between:
  "s < LTCP_MSG_QUEUE_SIZE \<Longrightarrow> e < LTCP_MSG_QUEUE_SIZE \<Longrightarrow>
   length (slots_between s e) = (if s \<le> e then e - s else LTCP_MSG_QUEUE_SIZE - 1 - s + e)"
  by (auto simp: slots_between_def)

lemma ring_full_length: "ring_ok rq \<Longrightarrow> ring_full rq \<Longrightarrow> ring_capacity \<le> length (pending rq)"
  by (auto simp: ring_ok_def ring_full_def ring_capacity_def pending_def length_slots_between
      LTCP_MSG_QUEUE_SIZE)

text \<open>One send from a ring that is not full, on the indices.\<close>

lemma get_free_cases:
  assumes "ring_ok rq" and "\<not> ring_full rq"
  shows "get_free_metamessage rq =
    (if unat (rq_end rq) = LTCP_MSG_QUEUE_SIZE - 1 then (Some 0, rq\<lparr>rq_end := 0\<rparr>)
     else (Some (unat (rq_end rq)), rq))"
  using assms
  by (auto simp: get_free_metamessage_def ring_ok_def ring_full_def u32_succ_eq LTCP_MSG_QUEUE_SIZE)

lemma publish_simp:
  "unat (rq_end rq) < LTCP_MSG_QUEUE_SIZE - 1 \<Longrightarrow>
   publish_metamessage rq = rq\<lparr>rq_end := rq_end rq + 1\<rparr>"
  by (auto simp: publish_metamessage_def u32_succ_eq LTCP_MSG_QUEUE_SIZE)

lemma slots_between_extend:
  assumes "s < LTCP_MSG_QUEUE_SIZE" and "e < LTCP_MSG_QUEUE_SIZE - 1" and "e + 1 \<noteq> s"
  shows "slots_between s (e + 1) = slots_between s e @ [e] \<and> e \<notin> set (slots_between s e)"
  using assms by (auto simp: slots_between_def)

lemma slots_between_wrap:
  assumes "s < LTCP_MSG_QUEUE_SIZE" and "1 < s"
  shows "slots_between s (LTCP_MSG_QUEUE_SIZE - 1) = slots_between s 0"
  using assms by (auto simp: slots_between_def)

lemma map_upd_notin: "i \<notin> set xs \<Longrightarrow> map (f(i := m)) xs = map f xs"
  by (induction xs) auto

lemma send_not_full:
  assumes ok: "ring_ok rq" and nf: "\<not> ring_full rq"
  shows "\<exists>rq'. send_metamessage m rq = Inr rq' \<and> ring_ok rq' \<and>
    map (rq_queue rq') (pending rq') = map (rq_queue rq) (pending rq) @ [m] \<and>
    rq_start rq' = rq_start rq"
proof -
  define r where "r = (if unat (rq_end rq) = LTCP_MSG_QUEUE_SIZE - 1 then rq\<lparr>rq_end := 0\<rparr> else rq)"
  have free: "get_free_metamessage rq = (Some (unat (rq_end r)), r)"
    using get_free_cases [OF ok nf] by (simp add: r_def)
  have e: "unat (rq_end r) < LTCP_MSG_QUEUE_SIZE - 1"
    and s: "unat (rq_start rq) < LTCP_MSG_QUEUE_SIZE" "unat (rq_end r) + 1 \<noteq> unat (rq_start rq)"
    using ok nf by (auto simp: r_def ring_ok_def ring_full_def LTCP_MSG_QUEUE_SIZE)
  have r: "rq_start r = rq_start rq" "rq_queue r = rq_queue rq"
    by (simp_all add: r_def)
  have same: "pending r = pending rq"
    using ok nf slots_between_wrap [of "unat (rq_start rq)"]
    by (auto simp: r_def pending_def ring_ok_def ring_full_def)
  define f where "f = r\<lparr>rq_queue := (rq_queue rq)(unat (rq_end r) := m), rq_end := rq_end r + 1\<rparr>"
  have "send_metamessage m rq = Inr f"
    using e publish_simp [of "r\<lparr>rq_queue := (rq_queue rq)(unat (rq_end r) := m)\<rparr>"]
    by (simp add: send_metamessage_def free fill_metamessage_def f_def r)
  moreover have e1: "unat (rq_end r + 1) = unat (rq_end r) + 1"
    using e by (intro u32_succ) (simp add: LTCP_MSG_QUEUE_SIZE)
  have "pending f = slots_between (unat (rq_start rq)) (unat (rq_end r) + 1)"
    unfolding pending_def using e1 r by (simp add: f_def)
  with slots_between_extend [OF s(1) e s(2)] r
  have p: "pending f = pending r @ [unat (rq_end r)]" "unat (rq_end r) \<notin> set (pending r)"
    by (simp_all add: pending_def)
  have "map (rq_queue f) (pending f) = map (rq_queue rq) (pending rq) @ [m]"
    using p same by (simp add: f_def map_upd_notin)
  moreover have "ring_ok f"
    using e e1 s(1) r by (simp add: ring_ok_def f_def)
  ultimately show ?thesis using r by (simp add: f_def)
qed

text \<open>One turn of the receive loop takes the oldest pending slot, in every position of the ring.\<close>

lemma recv_next_pending:
  assumes ok: "ring_ok rq"
  shows "\<exists>rq'. rdma_recv_next rq = Inr (case pending rq of [] \<Rightarrow> None | i # _ \<Rightarrow> Some i, rq') \<and>
    ring_ok rq' \<and> pending rq' = tl (pending rq) \<and> rq_queue rq' = rq_queue rq \<and> rq_end rq' = rq_end rq"
proof -
  let ?s = "unat (rq_start rq)" and ?e = "unat (rq_end rq)"
  have b: "?s < 1559" "?e < 1559"
    using ok by (simp_all add: ring_ok_def LTCP_MSG_QUEUE_SIZE)
  have wrap: "rq_start rq + 1 = of_nat LTCP_MSG_QUEUE_SIZE \<longleftrightarrow> ?s = 1558"
    using b by (simp add: u32_succ_eq LTCP_MSG_QUEUE_SIZE)
  have eq: "rq_start rq = rq_end rq \<longleftrightarrow> ?s = ?e"
    by (simp add: word_unat_eq_iff)
  have one: "unat (rq_start rq + 1) = ?s + 1"
    using b by (intro u32_succ) simp
  consider (empty) "?s = ?e" | (wrapped) "?s \<noteq> ?e" "?s = 1558" | (plain) "?s \<noteq> ?e" "?s < 1558"
    using b by linarith
  then show ?thesis
  proof cases
    case empty
    then show ?thesis
      using ok eq by (simp add: rdma_recv_next_def pending_def slots_between_def)
  next
    case wrapped
    then have "pending rq = [0..<?e]"
      using b by (simp add: pending_def slots_between_def LTCP_MSG_QUEUE_SIZE)
    then show ?thesis
      using wrapped wrap eq b ok
      by (cases "?e = 0")
        (auto simp: rdma_recv_next_def Let_def LTCP_MSG_QUEUE_SIZE ring_ok_def pending_def
          slots_between_def word_unat_eq_iff upt_conv_Cons)
  next
    case plain
    then have "pending rq = ?s # slots_between (?s + 1) ?e"
      using b by (auto simp: pending_def slots_between_def LTCP_MSG_QUEUE_SIZE upt_conv_Cons)
    then show ?thesis
      using plain wrap eq b ok one
      by (simp add: rdma_recv_next_def Let_def LTCP_MSG_QUEUE_SIZE ring_ok_def pending_def)
  qed
qed

interpretation mq: fifo_queue ring_repr ring_fits send_metamessage recv_metamessage
proof unfold_locales
  fix s xs x
  assume "ring_repr s xs" and "ring_fits (xs @ [x])"
  then have "ring_ok s" "\<not> ring_full s"
    using ring_full_length [of s] by (auto simp: ring_repr_def ring_fits_def)
  from send_not_full [OF this] \<open>ring_repr s xs\<close>
  show "\<exists>s'. send_metamessage x s = Inr s' \<and> ring_repr s' (xs @ [x])"
    by (auto simp: ring_repr_def)
next
  fix s
  assume "ring_repr s []"
  then show "\<exists>s'. recv_metamessage s = Inr (None, s') \<and> ring_repr s' []"
    using recv_next_pending [of s] by (auto simp: ring_repr_def recv_metamessage_def)
next
  fix s x xs
  assume "ring_repr s (x # xs)"
  then show "\<exists>s'. recv_metamessage s = Inr (Some x, s') \<and> ring_repr s' xs"
    using recv_next_pending [of s]
    by (auto simp: ring_repr_def recv_metamessage_def map_tl split: list.splits)
qed

subsection \<open>Properties\<close>

text \<open>The zeroed ring that \<open>setup_recv_meta_queue\<close> leaves, with messages told apart by type.\<close>

definition demo_msg :: "nat \<Rightarrow> ltcp_queue_msg" where
  "demo_msg k = \<lparr>src_ip = 1, dest_ip = 2, src_port = 3, dest_port = 4, msg_type = of_nat k,
     offset_from_aperture = 0, msg_size = 0\<rparr>"

definition demo_ring :: "nat \<Rightarrow> nat \<Rightarrow> ltcp_ring_queue" where
  "demo_ring s e = \<lparr>rq_start = of_nat s, rq_end = of_nat e, phys_start = 0, phys_end = 0, int_no = 0,
     rq_queue = demo_msg\<rparr>"

lemma demo_ring_pending:
  "s < LTCP_MSG_QUEUE_SIZE \<Longrightarrow> e < LTCP_MSG_QUEUE_SIZE \<Longrightarrow>
   ring_ok (demo_ring s e) \<and> pending (demo_ring s e) = slots_between s e"
  by (simp add: demo_ring_def ring_ok_def pending_def unat_of_nat LTCP_MSG_QUEUE_SIZE)

text \<open>
  C6. The descriptor ring between the two machines is a first-in first-out queue: for every
  interleaving of sends and receive-loop turns in which at most 1557 messages are pending
  after a send, no operation faults, every receive turn returns the oldest message not yet
  received, with the contents its sender filled in, and a turn on an empty ring returns none.
\<close>

theorem ring_refines_fifo:
  assumes "ring_ok rq" and "spec_fits ring_fits (map (rq_queue rq) (pending rq)) ops"
  shows "\<exists>rq'. conc_run send_metamessage recv_metamessage rq ops =
      Inr (fst (spec_run (map (rq_queue rq) (pending rq)) ops), rq') \<and> ring_ok rq' \<and>
    map (rq_queue rq') (pending rq') = snd (spec_run (map (rq_queue rq) (pending rq)) ops)"
  using mq.run_refines [of rq "map (rq_queue rq) (pending rq)" ops] assms
  by (auto simp: ring_repr_def)

theorem ring_refines_fifo_witness:
  "\<exists>rq'. conc_run send_metamessage recv_metamessage (demo_ring 1557 1557)
      [Enq (demo_msg 7), Enq (demo_msg 8), Deq, Enq (demo_msg 9), Deq, Deq, Deq] =
    Inr ([Some (demo_msg 7), Some (demo_msg 8), Some (demo_msg 9), None], rq') \<and> ring_ok rq'"
proof -
  have "ring_ok (demo_ring 1557 1557)" "pending (demo_ring 1557 1557) = []"
    using demo_ring_pending [of 1557 1557] by (simp_all add: LTCP_MSG_QUEUE_SIZE slots_between_def)
  then show ?thesis
    using ring_refines_fifo [of "demo_ring 1557 1557"
      "[Enq (demo_msg 7), Enq (demo_msg 8), Deq, Enq (demo_msg 9), Deq, Deq, Deq]"]
    by (auto simp: ring_fits_def ring_capacity_def LTCP_MSG_QUEUE_SIZE)
qed

lemma send_full:
  assumes ok: "ring_ok rq" and full: "ring_full rq"
  shows "ring_capacity \<le> length (pending rq) \<and>
    (\<exists>rq'. send_metamessage m rq = Inr rq' \<and> ring_ok rq' \<and>
      (map (rq_queue rq') (pending rq') = [] \<or> map (rq_queue rq') (pending rq') = [m]))"
proof (intro conjI)
  show "ring_capacity \<le> length (pending rq)"
    using ok full by (rule ring_full_length)
  let ?s = "unat (rq_start rq)" and ?e = "unat (rq_end rq)"
  have b: "?s < 1559" "?e < 1559"
    using ok by (simp_all add: ring_ok_def LTCP_MSG_QUEUE_SIZE)
  have eq: "rq_end rq + 1 = v \<longleftrightarrow> ?e + 1 = unat v" for v
    using b by (intro u32_succ_eq) simp
  show "\<exists>rq'. send_metamessage m rq = Inr rq' \<and> ring_ok rq' \<and>
      (map (rq_queue rq') (pending rq') = [] \<or> map (rq_queue rq') (pending rq') = [m])"
  proof (cases "?e + 1 = ?s")
    case True
    with b have "rq_end rq \<noteq> 1558" by auto
    with True have "send_metamessage m rq = Inr (rq\<lparr>rq_end := rq_end rq + 1\<rparr>)"
      using b eq by (simp add: send_metamessage_def get_free_metamessage_def publish_metamessage_def
          LTCP_MSG_QUEUE_SIZE)
    moreover have "unat (rq_end rq + 1) = ?s"
      using True b u32_succ [of "rq_end rq"] by simp
    ultimately show ?thesis
      using b by (simp add: ring_ok_def pending_def slots_between_def LTCP_MSG_QUEUE_SIZE)
  next
    case False
    with full have se: "?e = 1558" "?s \<le> 1"
      by (auto simp: ring_full_def LTCP_MSG_QUEUE_SIZE)
    then have "send_metamessage m rq = Inr (rq\<lparr>rq_end := 1, rq_queue := (rq_queue rq)(0 := m)\<rparr>)"
      using False eq by (simp add: send_metamessage_def get_free_metamessage_def
          publish_metamessage_def fill_metamessage_def LTCP_MSG_QUEUE_SIZE)
    with se b show ?thesis
      by (auto simp: ring_ok_def pending_def slots_between_def LTCP_MSG_QUEUE_SIZE)
  qed
qed

text \<open>
  C30. A send on a full ring destroys the queue instead of being refused. In the positions where
  \<open>get_free_metamessage\<close> notices (the slot after \<open>end\<close> is \<open>start\<close>) \<open>rdma_xmit\<close> still
  advances \<open>end\<close>; in the two positions at the wrap it does not notice. In all of them the
  send returns without fault, at least 1557 messages were pending before, and at most the new
  one is pending after.
\<close>

theorem send_full_loses_queue:
  assumes ok: "ring_ok rq" and full: "ring_full rq"
  shows "ring_capacity \<le> length (pending rq) \<and>
    (\<exists>rq'. send_metamessage m rq = Inr rq' \<and> ring_ok rq' \<and>
      (map (rq_queue rq') (pending rq') = [] \<or> map (rq_queue rq') (pending rq') = [m]))"
  using assms by (rule send_full)

theorem send_full_loses_queue_witness:
  "length (pending (demo_ring 5 4)) = 1557 \<and>
   (\<exists>rq'. send_metamessage (demo_msg 0) (demo_ring 5 4) = Inr rq' \<and> length (pending rq') \<le> 1)"
proof -
  have d: "ring_ok (demo_ring 5 4)" "pending (demo_ring 5 4) = slots_between 5 4"
    using demo_ring_pending [of 5 4] by (simp_all add: LTCP_MSG_QUEUE_SIZE)
  have "ring_full (demo_ring 5 4)"
    by (simp add: ring_full_def demo_ring_def)
  from send_full_loses_queue [OF d(1) this, of "demo_msg 0"] d(2) show ?thesis
    by (auto simp: slots_between_def LTCP_MSG_QUEUE_SIZE)
qed

text \<open>
  C27. Memory safety and bounds of the ring: started from indices inside the ring, a send never
  stores outside the descriptor array, the receive loop never reads outside it, and both leave
  the indices inside, on a full ring as well; slot 1558 is never used.
\<close>

theorem ring_indices_in_bounds:
  assumes "ring_ok rq"
  shows "(\<exists>rq'. send_metamessage m rq = Inr rq' \<and> ring_ok rq') \<and>
    (\<exists>i rq'. rdma_recv_next rq = Inr (i, rq') \<and> ring_ok rq' \<and> (\<forall>k. i = Some k \<longrightarrow> k < 1558)) \<and>
    (\<forall>i rq'. get_free_metamessage rq = (Some i, rq') \<longrightarrow> i < 1558)"
proof (intro conjI)
  show "\<exists>rq'. send_metamessage m rq = Inr rq' \<and> ring_ok rq'"
    using send_not_full [OF assms, of m] send_full [OF assms, of m] by blast
  have "\<forall>k \<in> set (pending rq). k < 1558"
    using assms by (auto simp: pending_def slots_between_def ring_ok_def LTCP_MSG_QUEUE_SIZE)
  with recv_next_pending [OF assms]
  show "\<exists>i rq'. rdma_recv_next rq = Inr (i, rq') \<and> ring_ok rq' \<and> (\<forall>k. i = Some k \<longrightarrow> k < 1558)"
    by (fastforce split: list.splits)
  show "\<forall>i rq'. get_free_metamessage rq = (Some i, rq') \<longrightarrow> i < 1558"
    using assms by (auto simp: get_free_metamessage_def ring_ok_def u32_succ_eq LTCP_MSG_QUEUE_SIZE
        Let_def split: if_splits)
qed

theorem ring_indices_in_bounds_witness:
  "\<exists>rq'. send_metamessage (demo_msg 0) (demo_ring 0 1558) = Inr rq' \<and> ring_ok rq'"
  using ring_indices_in_bounds [of "demo_ring 0 1558" "demo_msg 0"] demo_ring_pending [of 0 1558]
  by (simp add: LTCP_MSG_QUEUE_SIZE)


subsection \<open>Sender and receiver interleaved\<close>

text \<open>
  The ring is shared memory: the receiving machine's loop can run between any two stores of the
  sender. The sender's progress is a program counter: \<open>Idle\<close> outside \<open>send_queue_lock\<close>, \<open>Filled m\<close>
  when the slot is taken and filled but \<open>end\<close> not yet advanced, \<open>NoSlot\<close> when
  \<open>get_free_metamessage\<close> returned NULL. \<open>sent\<close> and \<open>got\<close> record what was published and what
  the receiver read. The rules carry the code's own guards only.
\<close>

datatype sender_pc = Idle | Filled ltcp_queue_msg | NoSlot

record ring_sys =
  sys_ring :: ltcp_ring_queue
  sys_pc :: sender_pc
  sys_sent :: "ltcp_queue_msg list"
  sys_got :: "ltcp_queue_msg list"

inductive ring_step :: "ring_sys \<Rightarrow> ring_sys \<Rightarrow> bool" where
  take_slot: "sys_pc s = Idle \<Longrightarrow> get_free_metamessage (sys_ring s) = (Some i, r1) \<Longrightarrow>
     fill_metamessage r1 i m = Inr r2 \<Longrightarrow> ring_step s (s\<lparr>sys_ring := r2, sys_pc := Filled m\<rparr>)"
| no_slot: "sys_pc s = Idle \<Longrightarrow> get_free_metamessage (sys_ring s) = (None, r1) \<Longrightarrow>
     ring_step s (s\<lparr>sys_ring := r1, sys_pc := NoSlot\<rparr>)"
| publish: "sys_pc s = Filled m \<Longrightarrow>
     ring_step s (s\<lparr>sys_ring := publish_metamessage (sys_ring s), sys_pc := Idle,
                    sys_sent := sys_sent s @ [m]\<rparr>)"
| publish_none: "sys_pc s = NoSlot \<Longrightarrow>
     ring_step s (s\<lparr>sys_ring := publish_metamessage (sys_ring s), sys_pc := Idle\<rparr>)"
| receive: "rdma_recv_next (sys_ring s) = Inr (Some i, r1) \<Longrightarrow>
     ring_step s (s\<lparr>sys_ring := r1, sys_got := sys_got s @ [rq_queue r1 i]\<rparr>)"
| receive_none: "rdma_recv_next (sys_ring s) = Inr (None, r1) \<Longrightarrow>
     ring_step s (s\<lparr>sys_ring := r1\<rparr>)"

inductive_cases ring_step_elim: "ring_step s t"

text \<open>Runs in which the sender starts a message only while fewer than 1557 are pending.\<close>

inductive ring_run :: "ring_sys \<Rightarrow> ring_sys \<Rightarrow> bool" where
  start: "ring_run s s"
| step: "ring_run s t \<Longrightarrow> ring_step t u \<Longrightarrow>
     (sys_pc t = Idle \<and> sys_pc u \<noteq> Idle \<longrightarrow> length (pending (sys_ring t)) < ring_capacity) \<Longrightarrow>
     ring_run s u"

text \<open>
  What every step keeps: what was published is what was read followed by what is pending, and a
  filled slot is the one that publishing appends.
\<close>

definition ring_inv :: "ring_sys \<Rightarrow> bool" where
  "ring_inv s \<longleftrightarrow> ring_ok (sys_ring s) \<and>
     sys_sent s = sys_got s @ map (rq_queue (sys_ring s)) (pending (sys_ring s)) \<and>
     (case sys_pc s of Idle \<Rightarrow> True
      | NoSlot \<Rightarrow> False
      | Filled m \<Rightarrow> unat (rq_end (sys_ring s)) < 1558 \<and>
          rq_queue (sys_ring s) (unat (rq_end (sys_ring s))) = m \<and>
          length (pending (sys_ring s)) < ring_capacity)"

lemma take_slot_pending:
  assumes ok: "ring_ok rq" and room: "length (pending rq) < ring_capacity"
    and free: "get_free_metamessage rq = (Some i, r1)" and fill: "fill_metamessage r1 i m = Inr r2"
  shows "ring_ok r2 \<and> map (rq_queue r2) (pending r2) = map (rq_queue rq) (pending rq) \<and>
    unat (rq_end r2) < 1558 \<and> rq_queue r2 (unat (rq_end r2)) = m \<and>
    length (pending r2) = length (pending rq)"
proof -
  have nf: "\<not> ring_full rq"
    using ring_full_length [OF ok] room by auto
  have r1: "r1 = (if unat (rq_end rq) = 1558 then rq\<lparr>rq_end := 0\<rparr> else rq)" "i = unat (rq_end r1)"
    using free get_free_cases [OF ok nf] by (auto simp: LTCP_MSG_QUEUE_SIZE split: if_splits)
  have p: "pending r1 = pending rq" "rq_queue r1 = rq_queue rq" "ring_ok r1" "i < 1558"
    using r1 ok nf slots_between_wrap [of "unat (rq_start rq)"]
    by (auto simp: pending_def ring_ok_def ring_full_def LTCP_MSG_QUEUE_SIZE)
  have "i \<notin> set (pending r1)"
    using r1(2) p(3,4) by (auto simp: pending_def slots_between_def ring_ok_def LTCP_MSG_QUEUE_SIZE split: if_splits)
  moreover have r2: "r2 = r1\<lparr>rq_queue := (rq_queue r1)(i := m)\<rparr>"
    using fill by (simp add: fill_metamessage_def split: if_splits)
  moreover have "pending r2 = pending r1" "rq_end r2 = rq_end r1" "ring_ok r2"
    using r2 p(3) by (simp_all add: pending_def ring_ok_def)
  ultimately show ?thesis
    using p r1(2) by (simp add: map_upd_notin)
qed

lemma publish_pending:
  assumes ok: "ring_ok rq" and e: "unat (rq_end rq) < 1558"
    and room: "length (pending rq) < ring_capacity"
  shows "ring_ok (publish_metamessage rq) \<and> rq_queue (publish_metamessage rq) = rq_queue rq \<and>
    pending (publish_metamessage rq) = pending rq @ [unat (rq_end rq)]"
proof -
  have ne: "unat (rq_end rq) + 1 \<noteq> unat (rq_start rq)"
    using ring_full_length [OF ok] room by (auto simp: ring_full_def)
  have p: "publish_metamessage rq = rq\<lparr>rq_end := rq_end rq + 1\<rparr>"
    using e by (intro publish_simp) (simp add: LTCP_MSG_QUEUE_SIZE)
  have u: "unat (rq_end rq + 1) = unat (rq_end rq) + 1"
    using e by (intro u32_succ) simp
  show ?thesis
    using slots_between_extend [of "unat (rq_start rq)" "unat (rq_end rq)"] ok e ne u
    by (simp add: p pending_def ring_ok_def LTCP_MSG_QUEUE_SIZE)
qed

lemma ring_step_inv:
  assumes "ring_step s t" and "ring_inv s"
    and "sys_pc s = Idle \<and> sys_pc t \<noteq> Idle \<longrightarrow> length (pending (sys_ring s)) < ring_capacity"
  shows "ring_inv t"
  using assms
proof cases
  case (take_slot i r1 m r2)
  with assms take_slot_pending [of "sys_ring s" i r1 m r2] show ?thesis
    by (simp add: ring_inv_def)
next
  case (no_slot r1)
  with assms ring_full_length [of "sys_ring s"] show ?thesis
    by (auto simp: ring_inv_def get_free_metamessage_def ring_full_def ring_ok_def u32_succ_eq
        LTCP_MSG_QUEUE_SIZE Let_def split: if_splits)
next
  case (publish m)
  with assms publish_pending [of "sys_ring s"] show ?thesis
    by (simp add: ring_inv_def)
next
  case publish_none
  with assms show ?thesis by (simp add: ring_inv_def)
next
  case (receive i r1)
  with assms recv_next_pending [of "sys_ring s"] show ?thesis
    by (cases "pending (sys_ring s)")
      (auto simp: ring_inv_def split: sender_pc.splits)
next
  case (receive_none r1)
  with assms recv_next_pending [of "sys_ring s"] show ?thesis
    by (cases "pending (sys_ring s)")
      (auto simp: ring_inv_def split: sender_pc.splits)
qed


definition demo_sys :: "nat \<Rightarrow> sender_pc \<Rightarrow> ltcp_queue_msg list \<Rightarrow> ring_sys" where
  "demo_sys e pc ms = \<lparr>sys_ring = demo_ring 0 e, sys_pc = pc, sys_sent = ms, sys_got = []\<rparr>"

lemma demo_run: "ring_run (demo_sys 0 Idle []) (demo_sys 1 Idle [demo_msg 0])"
proof -
  have "ring_step (demo_sys 0 Idle []) (demo_sys 0 (Filled (demo_msg 0)) [])"
    using ring_step.take_slot [of "demo_sys 0 Idle []" 0 "demo_ring 0 0" "demo_msg 0" "demo_ring 0 0"]
    by (simp add: demo_sys_def demo_ring_def get_free_metamessage_def fill_metamessage_def
        LTCP_MSG_QUEUE_SIZE fun_upd_idem)
  moreover have "ring_step (demo_sys 0 (Filled (demo_msg 0)) []) (demo_sys 1 Idle [demo_msg 0])"
    using ring_step.publish [of "demo_sys 0 (Filled (demo_msg 0)) []" "demo_msg 0"]
    by (simp add: demo_sys_def demo_ring_def publish_metamessage_def LTCP_MSG_QUEUE_SIZE)
  moreover have "length (pending (demo_ring 0 0)) < ring_capacity"
    by (simp add: demo_ring_def pending_def slots_between_def ring_capacity_def LTCP_MSG_QUEUE_SIZE)
  ultimately show ?thesis
    by (intro ring_run.step [OF ring_run.step [OF ring_run.start]]) (auto simp: demo_sys_def)
qed



subsection \<open>Layout of the shared segment\<close>

text \<open>
  Both structs live in a segment of \<open>SEGMENT_SIZE\<close> bytes. A member is its size and alignment;
  members are placed in order, each at the next multiple of its alignment, and the size is
  rounded up to the largest alignment, as the C ABI of the platform does.
\<close>

definition align_up :: "nat \<Rightarrow> nat \<Rightarrow> nat" where
  "align_up n a = (n + a - 1) div a * a"

fun place_members :: "nat \<Rightarrow> (nat \<times> nat) list \<Rightarrow> nat" where
  "place_members off [] = off"
| "place_members off ((sz, al) # ms) = place_members (align_up off al + sz) ms"

definition c_sizeof :: "(nat \<times> nat) list \<Rightarrow> nat" where
  "c_sizeof ms = align_up (place_members 0 ms) (foldr max (map snd ms) 1)"

definition sizeof_ltcp_queue_msg :: nat where
  "sizeof_ltcp_queue_msg = c_sizeof [(4, 4), (4, 4), (4, 4), (4, 4), (4, 4), (8, 8), (8, 8)]"

definition sizeof_ltcp_ring_queue :: nat where
  "sizeof_ltcp_ring_queue = c_sizeof [(4, 4), (4, 4), (4, 4), (4, 4), (4, 4),
     (LTCP_MSG_QUEUE_SIZE * sizeof_ltcp_queue_msg, 8)]"

text \<open>
  The ring fits the shared segment: with \<open>LTCP_MSG_QUEUE_SIZE\<close> entries the whole struct is at
  most \<open>SEGMENT_SIZE\<close> bytes long, although the two size constants of the header (42 and 20) are
  not the sizes the compiler uses (40, and 24 with padding).
\<close>

theorem ring_fits_segment:
  "sizeof_ltcp_ring_queue \<le> SEGMENT_SIZE \<and> sizeof_ltcp_queue_msg = 40 \<and>
   sizeof_ltcp_queue_msg \<noteq> LTCP_QUEUE_MSG_SIZE \<and>
   sizeof_ltcp_ring_queue = 24 + LTCP_MSG_QUEUE_SIZE * sizeof_ltcp_queue_msg"
  by (simp add: sizeof_ltcp_ring_queue_def sizeof_ltcp_queue_msg_def c_sizeof_def align_up_def
      LTCP_MSG_QUEUE_SIZE SEGMENT_SIZE_def LTCP_QUEUE_MSG_SIZE_def)

end
