(* ===== verification/Page_Math.thy ===== *)
theory Page_Math
  imports Ltcp_Prelude
begin

text \<open>
  How a user buffer is cut into pages and messages: \<open>calc_nr_pages\<close>
  (\<open>ltcp/local_tcp_protocol.c\<close>) and the loop of \<open>ltcp_direct_copy\<close> (\<open>rdma/rdma_daemon.c\<close>)
  that splits a send into calls of at most \<open>MAX_PAGES_SEND\<close> pages, in 64-bit arithmetic. The
  loop is parametric in the function it calls, \<open>rdma_xmit\<close>, so its calls can be recorded.
\<close>

subsection \<open>Counting pages\<close>

definition PAGE_SIZE64 :: u64 where
  "PAGE_SIZE64 = of_nat PAGE_SIZE"

lemma PAGE_SIZE64: "PAGE_SIZE64 = 4096"
  by (simp add: PAGE_SIZE64_def PAGE_SIZE_def)

definition calc_nr_pages :: "u64 \<Rightarrow> u64 \<Rightarrow> u64" where
  "calc_nr_pages start len =
     (let nr_pages = 1;
          offset_last_page = (start + len) mod PAGE_SIZE64;
          offset_first_page = start mod PAGE_SIZE64
      in if PAGE_SIZE64 < offset_first_page + len then
           let nr_pages = nr_pages + (len - (PAGE_SIZE64 - offset_first_page)) div PAGE_SIZE64
           in if offset_last_page \<noteq> 0 then nr_pages + 1 else nr_pages
         else nr_pages)"

text \<open>The pages a buffer of \<open>l\<close> bytes at address \<open>s\<close> touches: first to last, at least one.\<close>

definition pages_spanned :: "nat \<Rightarrow> nat \<Rightarrow> nat" where
  "pages_spanned s l = (if l = 0 then 1 else (s + l - 1) div PAGE_SIZE - s div PAGE_SIZE + 1)"

lemma pages_spanned_offset:
  "pages_spanned s l = (if l = 0 then 1 else (s mod PAGE_SIZE + l - 1) div PAGE_SIZE + 1)"
proof -
  have "s = s div PAGE_SIZE * PAGE_SIZE + s mod PAGE_SIZE" by simp
  then have "(s + l - 1) div PAGE_SIZE = s div PAGE_SIZE + (s mod PAGE_SIZE + l - 1) div PAGE_SIZE"
    if "0 < l"
  proof -
    have "s + l - 1 = s div PAGE_SIZE * PAGE_SIZE + (s mod PAGE_SIZE + l - 1)"
      using that by simp
    then show ?thesis
      by (metis PAGE_SIZE_pos div_mult_self3 less_numeral_extra(3))
  qed
  then show ?thesis by (auto simp: pages_spanned_def)
qed

lemma nat_pages:
  assumes "4096 < x"
  shows "(if x mod 4096 \<noteq> 0 then (x - 4096) div 4096 + 2 else (x - 4096) div 4096 + 1) =
    (x - 1) div 4096 + (1::nat)"
proof -
  obtain q r where x: "x = 4096 * q + r" "r < 4096" "1 \<le> q"
    using assms by (metis div_greater_zero_iff less_imp_le mod_less_divisor mult_div_mod_eq
        zero_less_numeral less_eq_Suc_le One_nat_def)
  have "x - 4096 = 4096 * (q - 1) + r" using x by (simp add: diff_mult_distrib2)
  then have a: "(x - 4096) div 4096 = q - 1" using x by simp
  show ?thesis
  proof (cases "r = 0")
    case True
    with x have "x - 1 = 4096 * (q - 1) + 4095" by (simp add: diff_mult_distrib2)
    then have "(x - 1) div 4096 = q - 1" by simp
    with a x True show ?thesis by simp
  next
    case False
    with x have "x - 1 = 4096 * q + (r - 1)" "r - 1 < 4096" by simp_all
    then have "(x - 1) div 4096 = q" by simp
    with a x False show ?thesis by simp
  qed
qed

lemma calc_nr_pages_unat:
  assumes "unat start + unat len < 2 ^ 64"
  shows "unat (calc_nr_pages start len) = pages_spanned (unat start) (unat len)"
proof -
  define x where "x = unat start mod 4096 + unat len"
  have x: "x < 2 ^ 64"
    using assms mod_less_eq_dividend [of "unat start" 4096] by (simp add: x_def)
  have o: "unat (start mod 4096) = unat start mod 4096"
    by (simp add: unat_mod)
  have sum: "unat (start mod 4096 + len) = x"
    using x by (simp add: unat_word_ariths o x_def)
  have gt: "4096 < start mod 4096 + len \<longleftrightarrow> 4096 < x"
    by (simp add: word_less_nat_alt sum)
  have "unat ((start + len) mod 4096) = x mod 4096"
    using assms by (simp add: unat_mod unat_word_ariths x_def mod_add_left_eq)
  then have z: "(start + len) mod 4096 = 0 \<longleftrightarrow> x mod 4096 = 0"
    by (metis unat_eq_zero)
  have rest: "len - (4096 - start mod 4096) = start mod 4096 + len - 4096"
    by simp
  show ?thesis
  proof (cases "4096 < x")
    case False
    then have "(x - 1) div 4096 = 0" by simp
    with False show ?thesis
      by (simp add: calc_nr_pages_def PAGE_SIZE64 gt pages_spanned_offset PAGE_SIZE_def x_def)
  next
    case True
    have "unat (start mod 4096 + len - 4096) = x - 4096"
      using True by (subst unat_sub) (simp_all add: word_le_nat_alt sum)
    then have d: "unat ((len - (4096 - start mod 4096)) div 4096) = (x - 4096) div 4096"
      unfolding rest by (simp add: unat_div)
    define q where "q = (len - (4096 - start mod 4096)) div 4096"
    have q: "unat q = (x - 4096) div 4096" and q2: "unat q < 2 ^ 52"
      using d x by (simp_all add: q_def)
    have n1: "unat (1 + q) = unat q + 1" and n2: "unat (1 + q + 1) = unat q + 2"
      using q2 by (simp_all add: unat_word_ariths)
    have "unat (calc_nr_pages start len) = (if x mod 4096 \<noteq> 0 then unat q + 2 else unat q + 1)"
      using True n1 n2 by (simp add: calc_nr_pages_def PAGE_SIZE64 gt z Let_def q_def [symmetric])
    also have "\<dots> = (x - 1) div 4096 + 1"
      unfolding q by (rule nat_pages [OF True])
    also have "\<dots> = pages_spanned (unat start) (unat len)"
      using True mod_less_divisor [of 4096 "unat start"]
      by (auto simp: pages_spanned_offset PAGE_SIZE_def x_def)
    finally show ?thesis .
  qed
qed

text \<open>
  C14. \<open>calc_nr_pages\<close> is exact: for every buffer that does not wrap around the address space it
  returns the number of pages from the one holding the first byte to the one holding the last,
  and one for an empty buffer.
\<close>

theorem calc_nr_pages_exact:
  assumes "unat start + unat len < 2 ^ 64"
  shows "unat (calc_nr_pages start len) = pages_spanned (unat start) (unat len)"
  using assms by (rule calc_nr_pages_unat)

theorem calc_nr_pages_exact_witness:
  "unat (calc_nr_pages 0x1FFF 4098) = pages_spanned 0x1FFF 4098 \<and> pages_spanned 0x1FFF 4098 = 3"
  using calc_nr_pages_exact [of "0x1FFF" 4098] by (simp add: pages_spanned_def PAGE_SIZE_def)

text \<open>
  The page array is large enough: the \<open>len/PAGE_SIZE + 2\<close> pointers that \<open>rdma_xmit\<close> and
  \<open>local_tcp_recvmsg\<close> allocate hold every page counted, so the debug assertion of
  \<open>ltcp_direct_copy\<close> on the number of pages never fires.
\<close>

theorem calc_nr_pages_bound:
  assumes "unat start + unat len < 2 ^ 64"
  shows "calc_nr_pages start len \<le> len div PAGE_SIZE64 + 2"
proof -
  let ?l = "unat len" and ?o = "unat start mod PAGE_SIZE"
  have "unat (calc_nr_pages start len) \<le> ?l div 4096 + 2"
  proof -
    have "?o + ?l - 1 \<le> ?l + 4096" by (simp add: PAGE_SIZE_def)
    then have "(?o + ?l - 1) div 4096 \<le> (?l + 4096) div 4096" by (rule div_le_mono)
    moreover have "(?l + 4096) div 4096 = ?l div 4096 + 1" by simp
    ultimately have "(?o + ?l - 1) div 4096 \<le> ?l div 4096 + 1" by simp
    then show ?thesis
      by (simp add: calc_nr_pages_unat [OF assms] pages_spanned_offset PAGE_SIZE_def)
  qed
  moreover have "unat (len div 4096 + 2) = ?l div 4096 + 2"
    proof -
    have "unat (len div 4096) = ?l div 4096" by (simp add: unat_div)
    moreover have "?l div 4096 < 2 ^ 52" using assms by simp
    ultimately show ?thesis by (simp add: unat_word_ariths)
  qed
  ultimately show ?thesis
    by (simp add: PAGE_SIZE64 word_le_nat_alt)
qed

theorem calc_nr_pages_bound_witness: "calc_nr_pages 0x1FFF 4098 \<le> 4098 div PAGE_SIZE64 + 2"
  using calc_nr_pages_bound [of "0x1FFF" 4098] by simp

subsection \<open>Splitting a send\<close>

definition MB :: u64 where "MB = 1024 * 1024"
definition MAX_SEND :: u64 where "MAX_SEND = 127 * MB"
definition MAX_PAGES_SEND :: u64 where "MAX_PAGES_SEND = MAX_SEND div PAGE_SIZE64"

lemma MAX_PAGES_SEND: "MAX_PAGES_SEND = 32512"
  by (simp add: MAX_PAGES_SEND_def MAX_SEND_def MB_def PAGE_SIZE64)

text \<open>
  The \<open>for\<close> loop. \<open>xmit\<close> takes the address, the number of pages, the offset into the first page
  (a 16-bit argument) and the size; a nonzero return stops the loop with -1.
\<close>

function direct_copy_loop ::
    "(u64 \<Rightarrow> u64 \<Rightarrow> u16 \<Rightarrow> u64 \<Rightarrow> 's \<Rightarrow> (int \<times> 's) res) \<Rightarrow> u64 \<Rightarrow> u64 \<Rightarrow> u64 \<Rightarrow> u64 \<Rightarrow> u64 \<Rightarrow> 's
      \<Rightarrow> (int \<times> 's) res" where
  "direct_copy_loop xmit start offset_first_page nr_pages i left_to_send s =
     (if i < nr_pages then
        let pages_to_send = (if MAX_PAGES_SEND < nr_pages - i then MAX_PAGES_SEND else nr_pages - i)
        in if pages_to_send = nr_pages - i then
             rbind (xmit (start + i * PAGE_SIZE64) pages_to_send (ucast offset_first_page) left_to_send s)
               (\<lambda>(rc, s'). Inr (if rc \<noteq> 0 then - 1 else 0, s'))
           else
             rbind (xmit (start + i * PAGE_SIZE64) pages_to_send (ucast offset_first_page)
                 (pages_to_send * PAGE_SIZE64) s)
               (\<lambda>(rc, s'). if rc \<noteq> 0 then Inr (- 1, s')
                 else direct_copy_loop xmit start offset_first_page nr_pages (i + MAX_PAGES_SEND)
                        (left_to_send - pages_to_send * PAGE_SIZE64) s')
      else Inr (0, s))"
  by pat_completeness auto
termination
proof (relation "measure (\<lambda>(xmit, start, off, nr, i, left, s). unat (nr - i))", simp, goal_cases)
  case (1 xmit start off nr i left s)
  then have "MAX_PAGES_SEND < nr - i" by (auto split: if_splits)
  then have "unat (nr - i - MAX_PAGES_SEND) < unat (nr - i)"
    by (simp add: word_less_nat_alt unat_sub word_le_nat_alt MAX_PAGES_SEND)
  then show ?case by (simp add: diff_diff_eq)
qed

declare direct_copy_loop.simps [simp del]


text \<open>The calls the loop makes when every one succeeds, with their arguments.\<close>

type_synonym xmit_call = "u64 \<times> u64 \<times> u16 \<times> u64"

definition record_xmit :: "u64 \<Rightarrow> u64 \<Rightarrow> u16 \<Rightarrow> u64 \<Rightarrow> xmit_call list \<Rightarrow> (int \<times> xmit_call list) res" where
  "record_xmit a p off sz calls = Inr (0, calls @ [(a, p, off, sz)])"

definition full_call :: "u64 \<Rightarrow> u64 \<Rightarrow> u64 \<Rightarrow> nat \<Rightarrow> xmit_call" where
  "full_call start off i j =
     (start + (i + of_nat j * MAX_PAGES_SEND) * PAGE_SIZE64, MAX_PAGES_SEND, ucast off,
      MAX_PAGES_SEND * PAGE_SIZE64)"

definition last_call :: "u64 \<Rightarrow> u64 \<Rightarrow> u64 \<Rightarrow> u64 \<Rightarrow> u64 \<Rightarrow> nat \<Rightarrow> xmit_call" where
  "last_call start off nr i left k =
     (start + (i + of_nat k * MAX_PAGES_SEND) * PAGE_SIZE64, nr - (i + of_nat k * MAX_PAGES_SEND),
      ucast off, left - of_nat k * (MAX_PAGES_SEND * PAGE_SIZE64))"

lemma direct_copy_trace:
  assumes "unat nr = unat i + (k * 32512 + r)" and "0 < r" and "r \<le> 32512"
  shows "direct_copy_loop record_xmit start off nr i left calls =
    Inr (0, calls @ map (full_call start off i) [0..<k] @ [last_call start off nr i left k])"
  using assms
proof (induction k arbitrary: i left calls)
  case 0
  then have lt: "i < nr" by (simp add: word_less_nat_alt)
  then have "unat (nr - i) = r"
    using 0 by (simp add: unat_sub word_le_nat_alt)
  with 0 have "\<not> MAX_PAGES_SEND < nr - i"
    by (simp add: word_less_nat_alt MAX_PAGES_SEND)
  with lt show ?case
    by (subst direct_copy_loop.simps) (simp add: record_xmit_def last_call_def)
next
  case (Suc k)
  have lt: "i < nr"
    using Suc.prems by (simp add: word_less_nat_alt)
  then have "unat (nr - i) = Suc k * 32512 + r"
    using Suc.prems(1) by (simp add: unat_sub word_le_nat_alt)
  then have big: "MAX_PAGES_SEND < nr - i"
    using Suc.prems(2) by (simp add: word_less_nat_alt MAX_PAGES_SEND)
  have "unat nr < 2 ^ LENGTH(64)" by (rule unsigned_less)
  then have "unat (i + MAX_PAGES_SEND) = unat i + 32512"
    using Suc.prems(1) by (simp add: unat_word_ariths MAX_PAGES_SEND)
  then have u: "unat nr = unat (i + MAX_PAGES_SEND) + (k * 32512 + r)"
    using Suc.prems(1) by simp
  have step: "direct_copy_loop record_xmit start off nr i left calls =
      direct_copy_loop record_xmit start off nr (i + MAX_PAGES_SEND)
        (left - MAX_PAGES_SEND * PAGE_SIZE64) (calls @ [full_call start off i 0])"
    using lt big less_imp_neq [OF big]
    by (subst direct_copy_loop.simps) (simp add: record_xmit_def full_call_def)
  have shift: "full_call start off (i + MAX_PAGES_SEND) j = full_call start off i (Suc j)"
    "last_call start off nr (i + MAX_PAGES_SEND) (left - MAX_PAGES_SEND * PAGE_SIZE64) k =
     last_call start off nr i left (Suc k)" for j
    by (simp_all add: full_call_def last_call_def algebra_simps)
  have "map (full_call start off i) [0..<Suc k] =
      full_call start off i 0 # map (full_call start off (i + MAX_PAGES_SEND)) [0..<k]"
    by (simp add: upt_conv_Cons map_Suc_upt [symmetric] shift comp_def del: upt_Suc)
  then show ?case
    unfolding step Suc.IH [OF u Suc.prems(2,3)] by (simp add: shift)
qed


text \<open>
  The whole split as \<open>ltcp_direct_copy\<close> starts it: the page count goes through a C \<open>int\<close> and is
  compared as an unsigned 64-bit value again.
\<close>

definition through_int :: "u64 \<Rightarrow> u64" where
  "through_int n = scast (ucast n :: u32)"

lemma through_int_small:
  assumes "unat n < 2 ^ 31"
  shows "through_int n = n"
proof -
  have "nat (uint n) < 2 ^ 31"
    using assms unfolding unat_eq_nat_uint .
  then have "uint n < 2 ^ 31"
    using nat_less_iff [of "uint n" "2 ^ 31"] by simp
  then have "signed_take_bit 31 (uint n) = uint n"
    by (intro signed_take_bit_int_eq_self) (auto intro: order_trans [OF _ uint_ge_0])
  then have "sint (ucast n :: u32) = uint n"
    by (subst signed_ucast_eq) simp
  then show ?thesis
    by (simp add: through_int_def scast_eq)
qed

definition split_send ::
    "(u64 \<Rightarrow> u64 \<Rightarrow> u16 \<Rightarrow> u64 \<Rightarrow> 's \<Rightarrow> (int \<times> 's) res) \<Rightarrow> u64 \<Rightarrow> u64 \<Rightarrow> 's \<Rightarrow> (int \<times> 's) res" where
  "split_send xmit start len s =
     direct_copy_loop xmit start (start mod PAGE_SIZE64) (through_int (calc_nr_pages start len)) 0 len s"

definition chunk_bytes :: nat where
  "chunk_bytes = 32512 * 4096"

text \<open>The number of full-sized calls before the last one.\<close>

definition full_calls :: "nat \<Rightarrow> nat \<Rightarrow> nat" where
  "full_calls s l = (pages_spanned s l - 1) div 32512"

lemma pages_spanned_pos: "0 < pages_spanned s l"
  by (simp add: pages_spanned_def)

lemma split_send_trace:
  assumes "unat start + unat len < 2 ^ 64" and "pages_spanned (unat start) (unat len) < 2 ^ 31"
  shows "split_send record_xmit start len calls = Inr (0, calls @
    map (full_call start (start mod PAGE_SIZE64) 0) [0..<full_calls (unat start) (unat len)] @
    [last_call start (start mod PAGE_SIZE64) (calc_nr_pages start len) 0 len
       (full_calls (unat start) (unat len))])"
proof -
  let ?n = "calc_nr_pages start len" and ?p = "pages_spanned (unat start) (unat len)"
  let ?k = "full_calls (unat start) (unat len)"
  have n: "unat ?n = ?p" using assms(1) by (rule calc_nr_pages_unat)
  have "?p = ?k * 32512 + ((?p - 1) mod 32512 + 1)"
    using pages_spanned_pos [of "unat start" "unat len"] by (simp add: full_calls_def)
  then have "unat ?n = unat (0 :: u64) + (?k * 32512 + ((?p - 1) mod 32512 + 1))"
    using n by simp
  from direct_copy_trace [OF this] show ?thesis
    using n assms(2) by (simp add: split_send_def through_int_small)
qed


lemma full_calls_div:
  "0 < l \<Longrightarrow> full_calls s l = (s mod PAGE_SIZE + l - 1) div chunk_bytes"
  by (simp add: full_calls_def pages_spanned_offset div_mult2_eq [symmetric] chunk_bytes_def PAGE_SIZE_def)

lemma chunk_word: "MAX_PAGES_SEND * PAGE_SIZE64 = of_nat chunk_bytes"
  by (simp add: MAX_PAGES_SEND PAGE_SIZE64 chunk_bytes_def)

lemma of_nat_chunks: "of_nat j * MAX_PAGES_SEND * PAGE_SIZE64 = of_nat (j * chunk_bytes)"
  by (simp add: mult.assoc chunk_word)

text \<open>Calls that lie end to end from address \<open>s\<close> to address \<open>e\<close>.\<close>

fun contiguous :: "nat \<Rightarrow> xmit_call list \<Rightarrow> nat \<Rightarrow> bool" where
  "contiguous s [] e = (s = e)"
| "contiguous s ((a, p, off, z) # cs) e = (unat a = s \<and> contiguous (s + unat z) cs e)"

lemma contiguous_append:
  "contiguous s (xs @ ys) e = (\<exists>m. contiguous s xs m \<and> contiguous m ys e)"
  by (induction xs arbitrary: s) auto

lemma contiguous_full:
  "unat start + k * chunk_bytes < 2 ^ 64 \<Longrightarrow>
   contiguous (unat start) (map (full_call start off 0) [0..<k]) (unat start + k * chunk_bytes)"
proof (induction k)
  case 0
  then show ?case by simp
next
  case (Suc k)
  then have lt: "unat start + k * chunk_bytes < 2 ^ 64" by (simp add: chunk_bytes_def)
  then have "unat (start + of_nat (k * chunk_bytes)) = unat start + k * chunk_bytes"
    by (rule unat_add_of_nat)
  then have "unat (fst (full_call start off 0 k)) = unat start + k * chunk_bytes"
    by (simp add: full_call_def of_nat_chunks)
  moreover have "unat (MAX_PAGES_SEND * PAGE_SIZE64) = chunk_bytes"
    by (simp add: MAX_PAGES_SEND PAGE_SIZE64 chunk_bytes_def)
  ultimately show ?case
    using Suc.IH [OF lt] by (auto simp: contiguous_append full_call_def add.assoc)
qed

text \<open>
  C15. A send from a page-aligned buffer is split exactly: the calls lie end to end from the start of
  the buffer to its end, none is empty, none is larger than 127 MB, and the pages mapped for
  each one hold its data.
\<close>

theorem aligned_send_split:
  assumes "start mod PAGE_SIZE64 = 0" and "0 < len" and "unat start + unat len < 2 ^ 64"
    and "pages_spanned (unat start) (unat len) < 2 ^ 31"
  shows "\<exists>calls. split_send record_xmit start len [] = Inr (0, calls) \<and>
    contiguous (unat start) calls (unat start + unat len) \<and>
    (\<forall>(a, p, off, z) \<in> set calls. 0 < unat z \<and> z \<le> MAX_SEND \<and> unat off + unat z \<le> unat p * PAGE_SIZE)"
proof -
  let ?s = "unat start" and ?l = "unat len"
  define k where "k = full_calls ?s ?l"
  define lst where "lst = last_call start 0 (calc_nr_pages start len) 0 len k"
  have "unat (start mod 4096) = 0"
    using assms(1) by (simp add: PAGE_SIZE64)
  then have al: "?s mod 4096 = 0"
    by (simp add: unat_mod)
  have l: "0 < ?l"
    using assms(2) by (simp add: word_less_nat_alt)
  have k: "k = (?l - 1) div chunk_bytes"
    using l al by (simp add: k_def full_calls_div PAGE_SIZE_def)
  have kl: "k * chunk_bytes \<le> ?l - 1"
    by (simp add: k)
  have kr: "?l - 1 < k * chunk_bytes + chunk_bytes"
    unfolding k using mod_less_divisor [of chunk_bytes "?l - 1"]
    by (simp add: chunk_bytes_def div_mod_decomp [of "?l - 1" "32512 * 4096"])
  have z: "unat (snd (snd (snd lst))) = ?l - k * chunk_bytes"
    using kl l by (simp add: lst_def last_call_def chunk_word unat_sub_of_nat flip: of_nat_mult)
  have a: "unat (fst lst) = ?s + k * chunk_bytes"
    using unat_add_of_nat [of start "k * chunk_bytes"] kl l assms(3)
    by (simp add: lst_def last_call_def of_nat_chunks)
  have nr: "unat (calc_nr_pages start len) = (?l - 1) div 4096 + 1"
    using calc_nr_pages_unat [OF assms(3)] l al by (simp add: pages_spanned_offset PAGE_SIZE_def)
  have kq: "k * 32512 \<le> (?l - 1) div 4096"
    by (simp add: k chunk_bytes_def div_mult2_eq mult.commute [of 32512])
  have p: "unat (fst (snd lst)) = (?l - 1) div 4096 + 1 - k * 32512"
    using unat_sub_of_nat [of "k * 32512" "calc_nr_pages start len"] kq nr
    by (simp add: lst_def last_call_def MAX_PAGES_SEND)
  have fits: "?l - k * chunk_bytes \<le> ((?l - 1) div 4096 + 1 - k * 32512) * 4096"
    using l by (simp add: chunk_bytes_def diff_mult_distrib)
  define calls where "calls = map (full_call start 0 0) [0..<k] @ [lst]"
  have "split_send record_xmit start len [] = Inr (0, calls)"
    using split_send_trace [OF assms(3,4), of "[]"] assms(1) by (simp add: calls_def lst_def k_def)
  moreover have "contiguous ?s calls (?s + ?l)"
    using contiguous_full [of start k 0] kl l assms(3) a z
    by (cases lst) (auto simp: calls_def contiguous_append)
  moreover have "case c of (a, p, off, z) \<Rightarrow>
      0 < unat z \<and> z \<le> MAX_SEND \<and> unat off + unat z \<le> unat p * PAGE_SIZE" if "c \<in> set calls" for c
  proof (cases "c = lst")
    case True
    have "unat (fst (snd (snd lst))) = 0" by (simp add: lst_def last_call_def)
    moreover have "0 < ?l - k * chunk_bytes" "?l - k * chunk_bytes \<le> chunk_bytes"
      using kl kr l by linarith+
    ultimately show ?thesis
      using True z p fits
      by (cases lst) (simp add: MAX_SEND_def MB_def word_le_nat_alt PAGE_SIZE_def chunk_bytes_def)
  next
    case False
    with that show ?thesis
      by (auto simp: calls_def full_call_def MAX_SEND_def MB_def MAX_PAGES_SEND PAGE_SIZE64 PAGE_SIZE_def)
  qed
  ultimately show ?thesis by blast
qed


lemma demo_send_pages:
  "pages_spanned 4096 133169153 = 32513" "pages_spanned 8191 133169142 = 32513"
  by (simp_all add: pages_spanned_def PAGE_SIZE_def)

theorem aligned_send_split_witness:
  "\<exists>calls. split_send record_xmit 4096 133169153 [] = Inr (0, calls) \<and> contiguous 4096 calls 133173249"
  using aligned_send_split [of 4096 133169153] demo_send_pages
  by (auto simp: PAGE_SIZE64)

text \<open>
  C31. A send from an unaligned buffer of more than one call is cut wrongly: the offset of the first
  page is kept for every call, so each full call's data reaches beyond the pages mapped for it;
  and when the length falls short of the full calls, \<open>left_to_send\<close> wraps below zero, the last
  call gets a size of almost 2 to the 64.
\<close>

theorem unaligned_send_split:
  assumes "unat start + unat len < 2 ^ 64" and "pages_spanned (unat start) (unat len) < 2 ^ 31"
    and "0 < unat start mod PAGE_SIZE" and "0 < full_calls (unat start) (unat len)"
  shows "\<exists>first rest final. split_send record_xmit start len [] = Inr (0, first # rest @ [final]) \<and>
    (case first of (a, p, off, z) \<Rightarrow> unat p * PAGE_SIZE < unat off + unat z) \<and>
    (unat len < full_calls (unat start) (unat len) * chunk_bytes \<longrightarrow>
       (case final of (a, p, off, z) \<Rightarrow>
          unat z = 2 ^ 64 - (full_calls (unat start) (unat len) * chunk_bytes - unat len)))"
proof -
  let ?s = "unat start" and ?l = "unat len"
  define k where "k = full_calls ?s ?l"
  define off where "off = start mod PAGE_SIZE64"
  define final where "final = last_call start off (calc_nr_pages start len) 0 len k"
  have l: "0 < ?l"
    using assms(4) by (auto simp: full_calls_def pages_spanned_def split: if_splits)
  have split: "split_send record_xmit start len [] =
      Inr (0, full_call start off 0 0 # map (full_call start off 0) [1..<k] @ [final])"
    using split_send_trace [OF assms(1,2), of "[]"] assms(4)
    by (simp add: final_def off_def k_def upt_conv_Cons)
  have first: "case full_call start off 0 0 of (a, p, off, z) \<Rightarrow> unat p * PAGE_SIZE < unat off + unat z"
  proof -
    have "unat off = ?s mod 4096"
      by (simp add: off_def PAGE_SIZE64 unat_mod)
    then have "unat (ucast off :: u16) = ?s mod 4096"
      by (simp add: unsigned_ucast_eq take_bit_eq_mod)
    then show ?thesis
      using assms(3) by (simp add: full_call_def MAX_PAGES_SEND PAGE_SIZE64 PAGE_SIZE_def)
  qed
  have final: "case final of (a, p, off, z) \<Rightarrow> unat z = 2 ^ 64 - (k * chunk_bytes - ?l)"
    if short: "?l < k * chunk_bytes"
  proof -
    let ?d = "k * chunk_bytes - ?l"
    have "k * chunk_bytes \<le> ?s mod PAGE_SIZE + ?l - 1"
      unfolding k_def full_calls_div [OF l] by simp
    with short have d: "0 < ?d" "?d < 4096"
      using mod_less_divisor [of PAGE_SIZE ?s] by (simp_all add: PAGE_SIZE_def)
    have "len - of_nat (k * chunk_bytes) = - of_nat ?d"
    proof -
      have "of_nat (k * chunk_bytes) = (of_nat (?l + ?d) :: u64)" using short by simp
      then show ?thesis by (simp only: of_nat_add) simp
    qed
    moreover have "unat (- of_nat ?d :: u64) = 2 ^ 64 - ?d"
      using d by (intro unat_neg_of_nat) simp_all
    ultimately show ?thesis
      by (simp add: final_def last_call_def chunk_word)
  qed
  from split first final show ?thesis
    unfolding k_def [symmetric] by (intro exI conjI impI) assumption+
qed

theorem unaligned_send_split_witness:
  "\<exists>first rest final. split_send record_xmit 8191 133169142 [] = Inr (0, first # rest @ [final]) \<and>
     (case final of (a, p, off, z) \<Rightarrow> unat z = 2 ^ 64 - 10)"
proof -
  have "full_calls 8191 133169142 = 1"
    by (simp add: full_calls_def demo_send_pages)
  then show ?thesis
    using unaligned_send_split [of 8191 133169142] demo_send_pages
    by (auto simp: PAGE_SIZE_def chunk_bytes_def)
qed

end
