(* ===== verification/Iommu_Map.thy ===== *)
theory Iommu_Map
  imports Ltcp_Prelude
begin

text \<open>
  \<open>osif_iommu_map_user_pages\<close> (\<open>ltcp/local_tcp_protocol.c\<close>): a block of I/O addresses is taken
  from the range allocator and the user's pages are mapped into it one by one, with a rollback
  when a page cannot be mapped. The allocator, the IOMMU and the constants of the OSIF headers
  are not part of the repository: they are the fields of the parameter \<open>osif\<close>, and
  \<open>osif_contract\<close> states the documented behaviour the code relies on.
\<close>

subsection \<open>The environment\<close>

type_synonym io_domain = "u64 \<Rightarrow> u64 option"

record iommu_state =
  io_dom :: io_domain
  io_blocks :: "u64 list"

record osif =
  osif_allocator_alloc :: "u64 list \<Rightarrow> u64 \<Rightarrow> u64 \<Rightarrow> u64 option \<times> u64 list"
  osif_allocator_free :: "u64 list \<Rightarrow> u64 \<Rightarrow> u64 list"
  iommu_map :: "io_domain \<Rightarrow> u64 \<Rightarrow> u64 \<Rightarrow> int \<times> io_domain"
  iommu_unmap :: "io_domain \<Rightarrow> u64 \<Rightarrow> io_domain"
  page_to_phys :: "nat \<Rightarrow> u64"
  OSIF_PAGE_SIZE :: u64
  OSIF_ERR_OK :: int
  OSIF_ERR_NOSPC :: int
  OSIF_ERR_NOMEM :: int

text \<open>
  A failing allocation takes nothing and freeing a block just taken restores the allocator; a
  failing map changes nothing, a successful one enters the page, unmapping removes it; the
  error codes differ from success.
\<close>

definition osif_contract :: "osif \<Rightarrow> bool" where
  "osif_contract env \<longleftrightarrow>
     (\<forall>bl len al bl'. osif_allocator_alloc env bl len al = (None, bl') \<longrightarrow> bl' = bl) \<and>
     (\<forall>bl len al b bl'. osif_allocator_alloc env bl len al = (Some b, bl') \<longrightarrow>
        osif_allocator_free env bl' b = bl) \<and>
     (\<forall>d iova p rc d'. iommu_map env d iova p = (rc, d') \<longrightarrow>
        d' = (if rc = 0 then d(iova \<mapsto> p) else d)) \<and>
     (\<forall>d iova. iommu_unmap env d iova = d(iova := None)) \<and>
     OSIF_ERR_NOSPC env \<noteq> OSIF_ERR_OK env \<and> OSIF_ERR_NOMEM env \<noteq> OSIF_ERR_OK env"

subsection \<open>The routine\<close>

text \<open>\<open>for(;i>0;i--) iommu_unmap(..., block->addr + OSIF_PAGE_SIZE * (i-1), ...)\<close>.\<close>

fun unmap_loop :: "osif \<Rightarrow> u64 \<Rightarrow> nat \<Rightarrow> io_domain \<Rightarrow> io_domain" where
  "unmap_loop env block 0 d = d"
| "unmap_loop env block (Suc i) d =
     unmap_loop env block i (iommu_unmap env d (block + OSIF_PAGE_SIZE env * of_nat i))"

text \<open>The mapping loop: the number of the page, the domain, and on failure the rollback.\<close>

function map_loop :: "osif \<Rightarrow> nat list \<Rightarrow> u64 \<Rightarrow> nat \<Rightarrow> nat \<Rightarrow> io_domain \<Rightarrow> (int \<times> io_domain) res" where
  "map_loop env page_list block n i d =
     (if i < n then
        if length page_list \<le> i then Inl OutOfBounds
        else case iommu_map env d (block + OSIF_PAGE_SIZE env * of_nat i)
                    (page_to_phys env (page_list ! i)) of
          (rc, d') \<Rightarrow> if rc \<noteq> 0 then Inr (rc, unmap_loop env block i d')
                      else map_loop env page_list block n (Suc i) d'
      else Inr (0, d))"
  by pat_completeness auto
termination
  by (relation "measure (\<lambda>(env, pl, block, n, i, d). n - i)") auto

declare map_loop.simps [simp del]

text \<open>
  \<open>range_ok\<close> is whether the range pointer is non-NULL, \<open>handle\<close> the caller's handle variable,
  which only the last two branches assign.
\<close>

definition osif_iommu_map_user_pages ::
    "osif \<Rightarrow> bool \<Rightarrow> nat list \<Rightarrow> int \<Rightarrow> u64 option \<Rightarrow> iommu_state
      \<Rightarrow> (int \<times> u64 option \<times> iommu_state) res" where
  "osif_iommu_map_user_pages env range_ok page_list page_list_len handle s =
     (if \<not> range_ok then Inr (- 1, handle, s)
      else
        let len = of_int page_list_len * OSIF_PAGE_SIZE env
        in if len = 0 then Inr (- 1, handle, s)
           else case osif_allocator_alloc env (io_blocks s) len (OSIF_PAGE_SIZE env) of
             (None, bl) \<Rightarrow> Inr (OSIF_ERR_NOSPC env, handle, s\<lparr>io_blocks := bl\<rparr>)
           | (Some block, bl) \<Rightarrow>
               rbind (map_loop env page_list block (nat page_list_len) 0 (io_dom s)) (\<lambda>(rc, d).
               if rc \<noteq> 0 then
                 Inr (OSIF_ERR_NOMEM env, None,
                      s\<lparr>io_dom := d, io_blocks := osif_allocator_free env bl block\<rparr>)
               else Inr (OSIF_ERR_OK env, Some block, s\<lparr>io_dom := d, io_blocks := bl\<rparr>)))"

subsection \<open>Mapped addresses\<close>

definition block_addr :: "osif \<Rightarrow> u64 \<Rightarrow> nat \<Rightarrow> u64" where
  "block_addr env block j = block + OSIF_PAGE_SIZE env * of_nat j"

lemma unmap_loop_eq:
  "osif_contract env \<Longrightarrow>
   unmap_loop env block i d = (\<lambda>x. if \<exists>j < i. x = block_addr env block j then None else d x)"
proof (induction i arbitrary: d)
  case 0
  then show ?case by simp
next
  case (Suc i)
  then have "iommu_unmap env d (block_addr env block i) = d(block_addr env block i := None)"
    by (simp add: osif_contract_def)
  with Suc show ?case
    by (auto simp: fun_eq_iff less_Suc_eq block_addr_def [symmetric])
qed

lemma osif_map_eq:
  "osif_contract env \<Longrightarrow> iommu_map env d iova p = (rc, d') \<Longrightarrow> d' = (if rc = 0 then d(iova \<mapsto> p) else d)"
  by (simp add: osif_contract_def)

lemma map_loop_returns:
  "n \<le> length pl \<Longrightarrow> \<exists>rc d'. map_loop env pl block n i d = Inr (rc, d')"
proof (induction env pl block n i d rule: map_loop.induct)
  case (1 env pl block n i d)
  then show ?case
    by (subst map_loop.simps) (auto split: prod.split)
qed

text \<open>A failing run has rolled back: every address it may have entered is unmapped again.\<close>

lemma map_loop_rollback:
  "osif_contract env \<Longrightarrow> map_loop env pl block n i d = Inr (rc, d') \<Longrightarrow> rc \<noteq> 0 \<Longrightarrow>
    \<exists>m. i \<le> m \<and> m < n \<and> d' = (\<lambda>x. if \<exists>j < m. x = block_addr env block j then None else d x)"
proof (induction env pl block n i d rule: map_loop.induct)
  case (1 env pl block n i d)
  from "1.prems" have i: "i < n" "i < length pl"
    by (auto simp: map_loop.simps [of env pl block n i d] split: if_splits)
  obtain rc1 d1 where m: "iommu_map env d (block_addr env block i) (page_to_phys env (pl ! i)) = (rc1, d1)"
    by (cases "iommu_map env d (block_addr env block i) (page_to_phys env (pl ! i))")
  show ?case
  proof (cases "rc1 = 0")
    case False
    then have "d1 = d" using osif_map_eq [OF "1.prems"(1) m] by simp
    with False i m "1.prems" show ?thesis
      by (intro exI [of _ i])
        (simp add: map_loop.simps [of env pl block n i d] unmap_loop_eq block_addr_def)
  next
    case True
    then have d1: "d1 = d(block_addr env block i \<mapsto> page_to_phys env (pl ! i))"
      using osif_map_eq [OF "1.prems"(1) m] by simp
    have rest: "map_loop env pl block n (Suc i) d1 = Inr (rc, d')"
      using True i m "1.prems"(2) by (simp add: map_loop.simps [of env pl block n i d] block_addr_def)
    have "\<exists>k. Suc i \<le> k \<and> k < n \<and> d' = (\<lambda>x. if \<exists>j < k. x = block_addr env block j then None else d1 x)"
      using i m True
      by (intro "1.IH" [OF i(1) _ _ _ "1.prems"(1) rest "1.prems"(3)]) (auto simp: block_addr_def)
    then obtain k where k: "Suc i \<le> k" "k < n"
      "d' = (\<lambda>x. if \<exists>j < k. x = block_addr env block j then None else d1 x)" by blast
    then show ?thesis
      by (intro exI [of _ k]) (auto simp: d1 fun_eq_iff)
  qed
qed

text \<open>A successful run has entered exactly the pages from \<open>i\<close> on.\<close>

lemma map_loop_maps:
  "osif_contract env \<Longrightarrow> map_loop env pl block n i d = Inr (0, d') \<Longrightarrow>
   inj_on (block_addr env block) {..<n} \<Longrightarrow>
   (\<forall>j. i \<le> j \<and> j < n \<longrightarrow> d' (block_addr env block j) = Some (page_to_phys env (pl ! j))) \<and>
   (\<forall>x. (\<forall>j. i \<le> j \<and> j < n \<longrightarrow> x \<noteq> block_addr env block j) \<longrightarrow> d' x = d x)"
proof (induction env pl block n i d rule: map_loop.induct)
  case (1 env pl block n i d)
  show ?case
  proof (cases "i < n")
    case False
    with "1.prems" show ?thesis by (auto simp: map_loop.simps [of env pl block n i d])
  next
    case i: True
    with "1.prems" have il: "i < length pl"
      by (auto simp: map_loop.simps [of env pl block n i d] split: if_splits)
    obtain rc1 d1 where m: "iommu_map env d (block_addr env block i) (page_to_phys env (pl ! i)) = (rc1, d1)"
      by (cases "iommu_map env d (block_addr env block i) (page_to_phys env (pl ! i))")
    have rc1: "rc1 = 0"
      using m i il "1.prems"(2)
      by (auto simp: map_loop.simps [of env pl block n i d] block_addr_def split: if_splits)
    then have d1: "d1 = d(block_addr env block i \<mapsto> page_to_phys env (pl ! i))"
      using osif_map_eq [OF "1.prems"(1) m] by simp
    have rest: "map_loop env pl block n (Suc i) d1 = Inr (0, d')"
      using rc1 i il m "1.prems"(2) by (simp add: map_loop.simps [of env pl block n i d] block_addr_def)
    have IH: "(\<forall>j. Suc i \<le> j \<and> j < n \<longrightarrow> d' (block_addr env block j) = Some (page_to_phys env (pl ! j))) \<and>
      (\<forall>x. (\<forall>j. Suc i \<le> j \<and> j < n \<longrightarrow> x \<noteq> block_addr env block j) \<longrightarrow> d' x = d1 x)"
      using i il m rc1
      by (intro "1.IH" [OF i _ _ _ "1.prems"(1) rest "1.prems"(3)]) (auto simp: block_addr_def)
    have ne: "block_addr env block i \<noteq> block_addr env block j" if "Suc i \<le> j" "j < n" for j
      using inj_onD [OF "1.prems"(3), of i j] that i by auto
    then have here: "d' (block_addr env block i) = Some (page_to_phys env (pl ! i))"
      using IH by (auto simp: d1)
    show ?thesis
    proof (intro conjI allI impI)
      fix j
      assume "i \<le> j \<and> j < n"
      then show "d' (block_addr env block j) = Some (page_to_phys env (pl ! j))"
        using here IH by (cases "j = i") auto
    next
      fix x
      assume x: "\<forall>j. i \<le> j \<and> j < n \<longrightarrow> x \<noteq> block_addr env block j"
      then have "d' x = d1 x" using IH by auto
      with x i show "d' x = d x" by (simp add: d1)
    qed
  qed
qed

lemma block_addr_inj:
  assumes "OSIF_PAGE_SIZE env \<noteq> 0" and "unat (OSIF_PAGE_SIZE env) * n \<le> 2 ^ 64"
  shows "inj_on (block_addr env block) {..<n}"
proof (rule inj_onI)
  fix j k
  assume jk: "j \<in> {..<n}" "k \<in> {..<n}" and eq: "block_addr env block j = block_addr env block k"
  let ?p = "unat (OSIF_PAGE_SIZE env)"
  have p: "?p \<noteq> 0" using assms(1) unat_eq_zero by blast
  have u: "unat (OSIF_PAGE_SIZE env * of_nat m) = ?p * m" if "m < n" for m
  proof -
    have "?p * m < ?p * n" using p that by simp
    with assms(2) have "?p * m < 2 ^ 64" by linarith
    then have "unat (of_nat (?p * m) :: u64) = ?p * m" by (rule unat_of_nat64)
    then show ?thesis by simp
  qed
  from eq have "OSIF_PAGE_SIZE env * of_nat j = OSIF_PAGE_SIZE env * of_nat k"
    by (simp add: block_addr_def)
  then have "unat (OSIF_PAGE_SIZE env * of_nat j) = unat (OSIF_PAGE_SIZE env * of_nat k)"
    by (rule arg_cong)
  then have "?p * j = ?p * k" using u jk unfolding lessThan_iff by metis
  with p show "j = k" by (metis mult_cancel1)
qed


subsection \<open>Properties\<close>

text \<open>A concrete environment: 4096-byte pages, blocks from 0x10000, the physical address 0xDEAD000 fails.\<close>

definition demo_osif :: osif where
  "demo_osif = \<lparr>osif_allocator_alloc = (\<lambda>bl len al. if bl = [] then (Some 0x10000, [0x10000]) else (None, bl)),
     osif_allocator_free = (\<lambda>bl b. if bl = [b] then [] else remove1 b bl),
     iommu_map = (\<lambda>d iova p. if p = 0xDEAD000 then (- 12, d) else (0, d(iova \<mapsto> p))),
     iommu_unmap = (\<lambda>d iova. d(iova := None)),
     page_to_phys = (\<lambda>pg. of_nat pg * 4096), OSIF_PAGE_SIZE = 4096,
     OSIF_ERR_OK = 0, OSIF_ERR_NOSPC = 1, OSIF_ERR_NOMEM = 2\<rparr>"

lemma demo_osif_contract: "osif_contract demo_osif"
  by (auto simp: osif_contract_def demo_osif_def split: if_splits)

definition demo_iommu :: iommu_state where
  "demo_iommu = \<lparr>io_dom = (\<lambda>_. None), io_blocks = []\<rparr>"

text \<open>
  C16. Mapping user pages is all or nothing: given a page list of the stated length and an
  allocator that hands out unmapped addresses, the routine always returns, and whenever it
  returns an error both the IOMMU domain and the allocator are exactly as before, however many
  pages had been mapped when the failure occurred.
\<close>

theorem map_user_pages_atomic:
  assumes "osif_contract env" and "nat n \<le> length page_list"
    and "\<forall>b bl j. osif_allocator_alloc env (io_blocks s) (of_int n * OSIF_PAGE_SIZE env) (OSIF_PAGE_SIZE env)
        = (Some b, bl) \<longrightarrow> j < nat n \<longrightarrow> io_dom s (block_addr env b j) = None"
  shows "\<exists>rc h s'. osif_iommu_map_user_pages env rng page_list n handle s = Inr (rc, h, s') \<and>
    (rc \<noteq> OSIF_ERR_OK env \<longrightarrow> s' = s)"
proof (cases "rng \<and> of_int n * OSIF_PAGE_SIZE env \<noteq> 0")
  case False
  then show ?thesis by (auto simp: osif_iommu_map_user_pages_def)
next
  case go: True
  obtain b bl where al: "osif_allocator_alloc env (io_blocks s) (of_int n * OSIF_PAGE_SIZE env)
      (OSIF_PAGE_SIZE env) = (b, bl)"
    by (cases "osif_allocator_alloc env (io_blocks s) (of_int n * OSIF_PAGE_SIZE env)
      (OSIF_PAGE_SIZE env)")
  show ?thesis
  proof (cases b)
    case None
    with al assms(1) have "bl = io_blocks s" by (auto simp: osif_contract_def)
    with None al go show ?thesis by (simp add: osif_iommu_map_user_pages_def Let_def)
  next
    case (Some blk)
    obtain rc d where m: "map_loop env page_list blk (nat n) 0 (io_dom s) = Inr (rc, d)"
      using map_loop_returns [OF assms(2)] by blast
    have "d = io_dom s" if "rc \<noteq> 0"
    proof -
      from map_loop_rollback [OF assms(1) m that] obtain k where
        k: "k < nat n" "d = (\<lambda>x. if \<exists>j < k. x = block_addr env blk j then None else io_dom s x)" by blast
      have "io_dom s (block_addr env blk j) = None" if "j < k" for j
        using that k(1) assms(3) al Some by (meson less_trans)
      with k(2) show ?thesis by (auto simp: fun_eq_iff)
    qed
    moreover have "osif_allocator_free env bl blk = io_blocks s"
      using assms(1) al Some by (auto simp: osif_contract_def)
    ultimately show ?thesis
      using m Some al go by (auto simp: osif_iommu_map_user_pages_def Let_def)
  qed
qed

theorem map_user_pages_atomic_witness:
  "\<exists>rc h s'. osif_iommu_map_user_pages demo_osif True [7, 0xDEAD] 2 None demo_iommu = Inr (rc, h, s') \<and>
     (rc \<noteq> 0 \<longrightarrow> s' = demo_iommu)"
  using map_user_pages_atomic [OF demo_osif_contract, of 2 "[7, 0xDEAD]" demo_iommu True None]
  by (simp add: demo_iommu_def demo_osif_def)

lemma map_user_pages_maps:
  assumes "osif_contract env" and "OSIF_ERR_OK env \<noteq> - 1"
    and "OSIF_PAGE_SIZE env \<noteq> 0" and "unat (OSIF_PAGE_SIZE env) * nat n \<le> 2 ^ 64"
    and "osif_iommu_map_user_pages env rng page_list n handle s = Inr (OSIF_ERR_OK env, h, s')"
  shows "\<exists>block. h = Some block \<and>
    (\<forall>j < nat n. io_dom s' (block_addr env block j) = Some (page_to_phys env (page_list ! j))) \<and>
    (\<forall>x. (\<forall>j < nat n. x \<noteq> block_addr env block j) \<longrightarrow> io_dom s' x = io_dom s x)"
proof -
  from assms(1,2,5) obtain blk bl d where
    m: "map_loop env page_list blk (nat n) 0 (io_dom s) = Inr (0, d)" "h = Some blk" "io_dom s' = d"
    by (auto simp: osif_iommu_map_user_pages_def osif_contract_def Let_def rbind_eq_Inr
        split: if_splits prod.splits option.splits)
  from map_loop_maps [OF assms(1) m(1) block_addr_inj [OF assms(3,4)]] m(2,3) show ?thesis
    by auto
qed

text \<open>
  C17. A successful mapping is complete: the returned handle is a block in which page \<open>j\<close> of the
  list is mapped at the \<open>j\<close>-th page address, and no other I/O address changed.
\<close>

theorem map_user_pages_complete:
  assumes "osif_contract env" and "OSIF_ERR_OK env \<noteq> - 1"
    and "OSIF_PAGE_SIZE env \<noteq> 0" and "unat (OSIF_PAGE_SIZE env) * nat n \<le> 2 ^ 64"
    and "osif_iommu_map_user_pages env rng page_list n handle s = Inr (OSIF_ERR_OK env, h, s')"
  shows "\<exists>block. h = Some block \<and>
    (\<forall>j < nat n. io_dom s' (block_addr env block j) = Some (page_to_phys env (page_list ! j))) \<and>
    (\<forall>x. (\<forall>j < nat n. x \<noteq> block_addr env block j) \<longrightarrow> io_dom s' x = io_dom s x)"
  using assms by (rule map_user_pages_maps)

theorem map_user_pages_complete_witness:
  "\<exists>s'. osif_iommu_map_user_pages demo_osif True [7, 9] 2 None demo_iommu = Inr (0, Some 0x10000, s') \<and>
     io_dom s' 0x11000 = Some 0x9000"
proof -
  define s' where "s' = demo_iommu\<lparr>io_dom := [0x10000 \<mapsto> 0x7000, 0x11000 \<mapsto> 0x9000], io_blocks := [0x10000]\<rparr>"
  have run: "osif_iommu_map_user_pages demo_osif True [7, 9] 2 None demo_iommu = Inr (0, Some 0x10000, s')"
    by (simp add: osif_iommu_map_user_pages_def demo_osif_def demo_iommu_def map_loop.simps s'_def)
  have ok: "OSIF_ERR_OK demo_osif = 0" "OSIF_PAGE_SIZE demo_osif = 4096"
    by (simp_all add: demo_osif_def)
  obtain block where "Some (0x10000 :: u64) = Some block"
    "\<forall>j < nat 2. io_dom s' (block_addr demo_osif block j) = Some (page_to_phys demo_osif ([7, 9] ! j))"
    using map_user_pages_complete [OF demo_osif_contract, of 2 True "[7, 9]" None demo_iommu "Some 0x10000" s']
      run ok by auto
  then have "io_dom s' (block_addr demo_osif 0x10000 1) = Some (page_to_phys demo_osif 9)"
    by (auto dest: spec [of _ 1])
  with run show ?thesis by (auto simp: block_addr_def demo_osif_def)
qed

end
