(* ===== verification/Rdma_Xmit.thy ===== *)
theory Rdma_Xmit
  imports Ring_Queue Page_Math Iommu_Map
begin

text \<open>
  The sending half of \<open>rdma/rdma_daemon.c\<close>: \<open>space_left\<close>, \<open>rdma_xmit\<close> and
  \<open>ltcp_direct_copy\<close>, with the DMA callback and error handler of
  \<open>ltcp/local_tcp_protocol.c\<close>. The build's preprocessor switches are the record \<open>config\<close>;
  results of kernel and Dolphin calls are fields of the parameter \<open>xmit_env\<close>. \<open>rdma_xmit\<close>
  is the composition of its blocks: placing the data (mapped pages or the copy into the send
  aperture), filling the header under \<open>send_queue_lock\<close>, the DMA transfer, and publishing.
\<close>

subsection \<open>Configuration, sockets, state\<close>

record config =
  MAP_USER_PAGES_SEND :: bool
  MAP_USER_PAGES_RECV :: bool
  PIO :: bool
  LTCP_DEBUG :: bool

text \<open>
  The flags of \<open>TCP_DRIVER_MODULES/Makefile\<close>. \<open>LINK_IS_ETHERNET\<close> is never defined here:
  with it \<open>ethernet.c\<close> is compiled in, which uses an undeclared variable.
\<close>

definition default_config :: config where
  "default_config = \<lparr>MAP_USER_PAGES_SEND = True, MAP_USER_PAGES_RECV = True,
     PIO = False, LTCP_DEBUG = False\<rparr>"

definition REGULAR :: u32 where "REGULAR = 0"
definition CONNECT :: u32 where "CONNECT = 1"
definition CLOSE :: u32 where "CLOSE = 2"
definition CONNECT_SUCCESS :: u32 where "CONNECT_SUCCESS = 3"

lemmas local_tcp_type_defs = REGULAR_def CONNECT_def CLOSE_def CONNECT_SUCCESS_def

record inet_sock =
  inet_saddr :: u32
  inet_daddr :: u32
  inet_sport :: u16
  inet_dport :: u16
  inet_num :: u16

text \<open>
  The daemon's globals. \<open>send_queue\<close> is the mapped ring of the other machine, \<open>interrupts\<close> counts
  the interrupts triggered there, \<open>send_aperture\<close> is the memory at \<open>physical_send_aperture\<close>.
\<close>

record rdma =
  send_queue :: ltcp_ring_queue
  recv_queue :: ltcp_ring_queue
  send_queue_lock :: bool
  recv_queue_lock :: bool
  client_semaphore :: nat
  interrupts :: nat
  iommu :: iommu_state
  send_aperture :: "nat \<Rightarrow> u8"

record xmit_env =
  env_osif :: osif
  ESCI_OK :: u32
  aperture_range :: bool
  get_user_pages_locked :: "u64 \<Rightarrow> u64 \<Rightarrow> int \<times> nat list"
  vmalloc_ok :: bool
  osif_iommu_handle_address :: "u64 \<Rightarrow> u64"
  osif_iommu_subrange_start :: u64
  dma_handle_aperture :: u64
  phys_end_seen :: "u32 list"
  user_mem :: "u64 \<Rightarrow> u8"
  dis_start_dma_transfer :: "u64 \<Rightarrow> u64 \<Rightarrow> u64 \<Rightarrow> u32"
  dma_callback_status :: "u64 \<Rightarrow> u64 \<Rightarrow> u64 \<Rightarrow> u32 option"
  callback_error_init :: int
  sci_trigger_interrupt :: "nat \<Rightarrow> u32"

subsection \<open>Callback and error handler\<close>

text \<open>Returns the caller's error variable and the semaphore after the callback.\<close>

definition client_dma_callback :: "u32 \<Rightarrow> int \<Rightarrow> nat \<Rightarrow> int \<times> nat" where
  "client_dma_callback status err sem = ((if status \<noteq> 0 then 1 else err), sem_up sem)"

definition sci_error_handler :: "u32 \<Rightarrow> u32 \<Rightarrow> int" where
  "sci_error_handler esci_ok scierr = (if scierr \<noteq> esci_ok then 0 else 1)"

text \<open>
  \<open>down_timeout\<close> after a transfer was started: the callback, when it comes within the time,
  runs first. The result is the return value, the error variable and the semaphore.
\<close>

definition await_callback :: "u32 option \<Rightarrow> int \<Rightarrow> nat \<Rightarrow> int \<times> int \<times> nat" where
  "await_callback cb err sem =
     (let (err1, sem1) = (case cb of None \<Rightarrow> (err, sem) | Some status \<Rightarrow> client_dma_callback status err sem);
          (rc, sem2) = sem_down_timeout sem1
      in (rc, err1, sem2))"

subsection \<open>The send aperture\<close>

definition APERTURE_SIZE_QUEUE :: u64 where
  "APERTURE_SIZE_QUEUE = 128 * MB"

lemma APERTURE_SIZE_QUEUE: "APERTURE_SIZE_QUEUE = 134217728"
  by (simp add: APERTURE_SIZE_QUEUE_def MB_def)

definition space_left :: "ltcp_ring_queue \<Rightarrow> u32" where
  "space_left q =
     (if phys_start q < phys_end q then phys_end q - phys_start q
      else ucast ((APERTURE_SIZE_QUEUE - ucast (phys_start q)) + ucast (phys_end q)))"

text \<open>
  \<open>while(space_left(...) < sz) msleep(1)\<close>: while it sleeps the other machine may store
  \<open>phys_end\<close>; the list holds the values it stores, and a wait nobody ends is \<open>Blocked\<close>.
\<close>

fun wait_space :: "ltcp_ring_queue \<Rightarrow> u64 \<Rightarrow> u32 list \<Rightarrow> ltcp_ring_queue res" where
  "wait_space q sz [] = (if ucast (space_left q) < sz then Inl Blocked else Inr q)"
| "wait_space q sz (e # es) =
     (if ucast (space_left q) < sz then wait_space (q\<lparr>phys_end := e\<rparr>) sz es else Inr q)"

definition copy_from_user ::
    "(nat \<Rightarrow> u8) \<Rightarrow> nat \<Rightarrow> (u64 \<Rightarrow> u8) \<Rightarrow> u64 \<Rightarrow> nat \<Rightarrow> (nat \<Rightarrow> u8) res" where
  "copy_from_user mem dst user src n =
     (if dst + n \<le> unat APERTURE_SIZE_QUEUE then
        Inr (\<lambda>k. if dst \<le> k \<and> k < dst + n then user (src + of_nat (k - dst)) else mem k)
      else Inl OutOfBounds)"

subsection \<open>The blocks of rdma_xmit\<close>

text \<open>Left is an early return, Right the offset of the data from the aperture.\<close>

definition xmit_map_pages ::
    "xmit_env \<Rightarrow> u64 \<Rightarrow> u64 \<Rightarrow> u16 \<Rightarrow> rdma \<Rightarrow> ((int + u64) \<times> rdma) res" where
  "xmit_map_pages env start nr_pages offset_first_page st =
     (case get_user_pages_locked env (start - ucast offset_first_page) nr_pages of (err, page_list) \<Rightarrow>
      if of_int err \<noteq> nr_pages then Inr (Inl (- 1), st)
      else if vmalloc_ok env then
        rbind (osif_iommu_map_user_pages (env_osif env) (aperture_range env) page_list
                 (sint (ucast nr_pages :: u32)) None (iommu st)) (\<lambda>(rc, dma_handle, io).
        let st1 = st\<lparr>iommu := io\<rparr>
        in if rc \<noteq> OSIF_ERR_OK (env_osif env) then Inr (Inl (- 1), st1)
           else case dma_handle of
             None \<Rightarrow> Inl Dangling
           | Some h \<Rightarrow> Inr (Inr (osif_iommu_handle_address env h - osif_iommu_subrange_start env
                                 + ucast offset_first_page), st1))
      else Inr (Inl (- 1), st))"

definition xmit_copy :: "xmit_env \<Rightarrow> u64 \<Rightarrow> u64 \<Rightarrow> rdma \<Rightarrow> ((int + u64) \<times> rdma) res" where
  "xmit_copy env start sz st =
     rbind (wait_space (send_queue st) sz (phys_end_seen env)) (\<lambda>q.
     let offset = ucast (phys_start q) :: u64
     in if APERTURE_SIZE_QUEUE \<le> offset + sz then
          let q1 = q\<lparr>phys_start := ucast (offset + sz - APERTURE_SIZE_QUEUE)\<rparr>;
              n = APERTURE_SIZE_QUEUE - offset
          in rbind (copy_from_user (send_aperture st) (unat offset) (user_mem env) start (unat n)) (\<lambda>m1.
             rbind (copy_from_user m1 0 (user_mem env) (start + n) (unat (sz - n))) (\<lambda>m2.
             Inr (Inr offset, st\<lparr>send_queue := q1, send_aperture := m2\<rparr>)))
        else
          let q1 = q\<lparr>phys_start := ucast (offset + sz)\<rparr>
          in rbind (copy_from_user (send_aperture st) (unat offset) (user_mem env) start (unat sz)) (\<lambda>m1.
             Inr (Inr offset, st\<lparr>send_queue := q1, send_aperture := m1\<rparr>)))"

definition xmit_message :: "inet_sock \<Rightarrow> u32 \<Rightarrow> u64 \<Rightarrow> u64 \<Rightarrow> ltcp_queue_msg" where
  "xmit_message sk type offset sz =
     \<lparr>src_ip = inet_saddr sk, dest_ip = inet_daddr sk, src_port = ucast (inet_sport sk),
      dest_port = ucast (inet_dport sk), msg_type = type, offset_from_aperture = offset, msg_size = sz\<rparr>"

text \<open>Lock, take a slot, fill it; without a slot the lock is released and the code goes on.\<close>

definition xmit_header :: "inet_sock \<Rightarrow> u32 \<Rightarrow> u64 \<Rightarrow> u64 \<Rightarrow> rdma \<Rightarrow> rdma res" where
  "xmit_header sk type offset sz st =
     rbind (spin_lock (send_queue_lock st)) (\<lambda>l.
     let st1 = st\<lparr>send_queue_lock := l\<rparr>
     in case get_free_metamessage (send_queue st1) of
          (None, q) \<Rightarrow> Inr (st1\<lparr>send_queue := q, send_queue_lock := False\<rparr>)
        | (Some i, q) \<Rightarrow> rbind (fill_metamessage q i (xmit_message sk type offset sz)) (\<lambda>q1.
                          Inr (st1\<lparr>send_queue := q1\<rparr>)))"

text \<open>None: the transfer is done or not needed; Some: an early return.\<close>

definition xmit_dma ::
    "config \<Rightarrow> xmit_env \<Rightarrow> u32 \<Rightarrow> u64 \<Rightarrow> u64 \<Rightarrow> rdma \<Rightarrow> (int option \<times> rdma) res" where
  "xmit_dma cfg env type offset sz st =
     (if \<not> PIO cfg \<and> \<not> MAP_USER_PAGES_RECV cfg \<and> type = REGULAR then
        rbind (sem_down (client_semaphore st)) (\<lambda>sem.
        let bus = osif_iommu_handle_address env (dma_handle_aperture env) + offset;
            scierr = dis_start_dma_transfer env bus sz offset
        in if sci_error_handler (ESCI_OK env) scierr = 0 then
             Inr (Some (- 1), st\<lparr>client_semaphore := sem, send_queue_lock := False\<rparr>)
           else
             case await_callback (dma_callback_status env bus sz offset) (callback_error_init env) sem of
               (rc, callback_error, sem1) \<Rightarrow>
                 if rc \<noteq> 0 then Inr (Some (- 1), st\<lparr>client_semaphore := sem1, send_queue_lock := False\<rparr>)
                 else if callback_error \<noteq> 0 then
                   Inr (Some (- 1), st\<lparr>client_semaphore := sem1, send_queue_lock := False\<rparr>)
                 else Inr (None, st\<lparr>client_semaphore := sem_up sem1\<rparr>))
      else Inr (None, st))"

definition xmit_publish :: "xmit_env \<Rightarrow> rdma \<Rightarrow> int \<times> rdma" where
  "xmit_publish env st =
     (let st1 = st\<lparr>send_queue := publish_metamessage (send_queue st)\<rparr>;
          scierr = sci_trigger_interrupt env (interrupts st);
          st2 = st1\<lparr>interrupts := interrupts st + 1\<rparr>
      in if sci_error_handler (ESCI_OK env) scierr = 0 then (- 1, st2\<lparr>send_queue_lock := False\<rparr>)
         else (0, st2\<lparr>send_queue_lock := False\<rparr>))"

definition rdma_xmit ::
    "config \<Rightarrow> xmit_env \<Rightarrow> inet_sock \<Rightarrow> u32 \<Rightarrow> u64 \<Rightarrow> u64 \<Rightarrow> u16 \<Rightarrow> u64 \<Rightarrow> rdma \<Rightarrow> (int \<times> rdma) res" where
  "rdma_xmit cfg env sk type start nr_pages offset_first_page sz st =
     rbind (if type = REGULAR then
              (if MAP_USER_PAGES_SEND cfg then xmit_map_pages env start nr_pages offset_first_page st
               else xmit_copy env start sz st)
            else Inr (Inr 0, st)) (\<lambda>(placed, st1).
     case placed of
       Inl rc \<Rightarrow> Inr (rc, st1)
     | Inr offset \<Rightarrow>
         rbind (xmit_header sk type offset sz st1) (\<lambda>st2.
         rbind (xmit_dma cfg env type offset sz st2) (\<lambda>(early, st3).
         case early of Some rc \<Rightarrow> Inr (rc, st3) | None \<Rightarrow> Inr (xmit_publish env st3))))"

text \<open>
  \<open>ltcp_direct_copy\<close>: a regular message is split into pages from the user's buffer (\<open>msg\<close> is the
  base address of its \<open>iov\<close>, NULL is None), every other type is one empty message.
\<close>

definition ltcp_direct_copy ::
    "config \<Rightarrow> xmit_env \<Rightarrow> inet_sock \<Rightarrow> u64 option \<Rightarrow> u64 \<Rightarrow> u32 \<Rightarrow> rdma \<Rightarrow> (int \<times> rdma) res" where
  "ltcp_direct_copy cfg env sk msg len type st =
     (if type = REGULAR then
        case msg of
          None \<Rightarrow> Inl NullDeref
        | Some start \<Rightarrow>
            if LTCP_DEBUG cfg \<and> len div PAGE_SIZE64 + 2 < through_int (calc_nr_pages start len)
            then Inr (- 1, st)
            else split_send (rdma_xmit cfg env sk type) start len st
      else rdma_xmit cfg env sk type 0 0 0 0 st)"

end
