(* ===== verification/Fd_Table.thy ===== *)
theory Fd_Table
  imports Ltcp_Prelude
begin

text \<open>
  The file descriptor surgery of \<open>ltcp/local_tcp_protocol.c\<close>: \<open>check_file_is_sock\<close>,
  \<open>get_fd_for_sock\<close> and \<open>replace_socket_filedescriptor\<close>, by which \<open>connect\<close> puts the
  new socket behind the descriptor of the TCP socket. The kernel's \<open>iterate_fd\<close>,
  \<open>sock_from_file\<close> and \<open>sock_alloc_file\<close> are the fields of \<open>fd_env\<close>.
\<close>

subsection \<open>State and environment\<close>

record files_struct =
  file_lock :: bool
  max_fds :: nat
  fd_entry :: "nat \<Rightarrow> addr option"
  closed_files :: "addr list"

record fd_env =
  sock_from_file :: "addr \<Rightarrow> addr option"
  iterate_fd :: "files_struct \<Rightarrow> nat \<Rightarrow> (addr \<Rightarrow> nat \<Rightarrow> int) \<Rightarrow> int"
  sock_alloc_file :: "addr \<Rightarrow> addr option"

text \<open>
  \<open>iterate_fd\<close> as documented: the callback runs on the open files in the order of their
  descriptors, the first result other than 0 ends the search and is returned, else 0.
\<close>

definition iterate_fd_contract :: "fd_env \<Rightarrow> bool" where
  "iterate_fd_contract env \<longleftrightarrow> (\<forall>fs f.
     (iterate_fd env fs 0 f = 0 \<longrightarrow> (\<forall>i file. i < max_fds fs \<longrightarrow> fd_entry fs i = Some file \<longrightarrow> f file i = 0)) \<and>
     (iterate_fd env fs 0 f \<noteq> 0 \<longrightarrow> (\<exists>i file. i < max_fds fs \<and> fd_entry fs i = Some file \<and>
        f file i = iterate_fd env fs 0 f \<and>
        (\<forall>j file'. j < i \<longrightarrow> fd_entry fs j = Some file' \<longrightarrow> f file' j = 0))))"

subsection \<open>The routines\<close>

definition check_file_is_sock :: "fd_env \<Rightarrow> addr option \<Rightarrow> addr \<Rightarrow> nat \<Rightarrow> int" where
  "check_file_is_sock env s f fd = (if sock_from_file env f = s then int fd + 1 else 0)"

definition get_fd_for_sock :: "fd_env \<Rightarrow> addr option \<Rightarrow> files_struct \<Rightarrow> int" where
  "get_fd_for_sock env s files =
     (let search_res = iterate_fd env files 0 (check_file_is_sock env s)
      in if search_res \<noteq> 0 then search_res - 1 else - 1)"

definition replace_socket_filedescriptor ::
    "fd_env \<Rightarrow> addr \<Rightarrow> addr option \<Rightarrow> files_struct \<Rightarrow> (int \<times> files_struct) res" where
  "replace_socket_filedescriptor env sock old_sock files =
     (let old_fd = get_fd_for_sock env old_sock files
      in if old_fd < 0 then Inr (old_fd, files)
         else case sock_alloc_file env sock of
           None \<Rightarrow> Inr (- 1, files)
         | Some newfile \<Rightarrow>
             rbind (spin_lock (file_lock files)) (\<lambda>l.
             let files1 = files\<lparr>file_lock := l\<rparr>
             in if int (max_fds files1) \<le> old_fd then Inr (- 1, files1\<lparr>file_lock := False\<rparr>)
                else case fd_entry files1 (nat old_fd) of
                  None \<Rightarrow> Inr (- 1, files1\<lparr>file_lock := False\<rparr>)
                | Some file \<Rightarrow>
                    Inr (0, files1\<lparr>fd_entry := (fd_entry files1)(nat old_fd := Some newfile),
                                   file_lock := False,
                                   closed_files := closed_files files1 @ [file]\<rparr>)))"

subsection \<open>Properties\<close>

lemma iterate_fd_zero:
  assumes "iterate_fd_contract env" and "iterate_fd env fs 0 f = 0"
    and "i < max_fds fs" and "fd_entry fs i = Some g"
  shows "f g i = 0"
  using assms unfolding iterate_fd_contract_def by blast

lemma iterate_fd_nonzero:
  assumes "iterate_fd_contract env" and "iterate_fd env fs 0 f \<noteq> 0"
  shows "\<exists>i g. i < max_fds fs \<and> fd_entry fs i = Some g \<and> f g i = iterate_fd env fs 0 f \<and>
    (\<forall>j g'. j < i \<longrightarrow> fd_entry fs j = Some g' \<longrightarrow> f g' j = 0)"
  using assms unfolding iterate_fd_contract_def by blast

lemma get_fd_found:
  assumes "iterate_fd_contract env"
    and "i < max_fds files" and "fd_entry files i = Some file" and "sock_from_file env file = s"
    and "\<forall>j < i. \<forall>file'. fd_entry files j = Some file' \<longrightarrow> sock_from_file env file' \<noteq> s"
  shows "get_fd_for_sock env s files = int i"
proof -
  let ?r = "iterate_fd env files 0 (check_file_is_sock env s)"
  have "?r \<noteq> 0"
    using iterate_fd_zero [OF assms(1) _ assms(2,3)] assms(4) by (fastforce simp: check_file_is_sock_def)
  with iterate_fd_nonzero [OF assms(1)] obtain k g where k: "k < max_fds files" "fd_entry files k = Some g"
    "check_file_is_sock env s g k = ?r"
    "\<forall>j file'. j < k \<longrightarrow> fd_entry files j = Some file' \<longrightarrow> check_file_is_sock env s file' j = 0"
    by metis
  from k(3) \<open>?r \<noteq> 0\<close> have sk: "sock_from_file env g = s" "?r = int k + 1"
    by (auto simp: check_file_is_sock_def split: if_splits)
  have "\<not> i < k" using k(4) assms(3,4) by (fastforce simp: check_file_is_sock_def)
  moreover have "\<not> k < i" using assms(5) k(2) sk(1) by blast
  ultimately have "k = i" by simp
  with sk(2) show ?thesis by (simp add: get_fd_for_sock_def)
qed

lemma get_fd_range:
  assumes "iterate_fd_contract env"
  shows "get_fd_for_sock env s files = - 1 \<or>
    (\<exists>i file. get_fd_for_sock env s files = int i \<and> i < max_fds files \<and>
       fd_entry files i = Some file \<and> sock_from_file env file = s)"
proof (cases "iterate_fd env files 0 (check_file_is_sock env s) = 0")
  case True
  then show ?thesis by (simp add: get_fd_for_sock_def)
next
  case False
  with iterate_fd_nonzero [OF assms] obtain i g where i: "i < max_fds files" "fd_entry files i = Some g"
    "check_file_is_sock env s g i = iterate_fd env files 0 (check_file_is_sock env s)"
    by metis
  with False have "sock_from_file env g = s" "get_fd_for_sock env s files = int i"
    by (auto simp: get_fd_for_sock_def check_file_is_sock_def split: if_splits)
  with i(1,2) show ?thesis by blast
qed


text \<open>A process with three open descriptors, the socket 50 behind descriptor 4.\<close>

definition demo_iterate :: "files_struct \<Rightarrow> nat \<Rightarrow> (addr \<Rightarrow> nat \<Rightarrow> int) \<Rightarrow> int" where
  "demo_iterate fs n f =
     (case find (\<lambda>i. case fd_entry fs i of None \<Rightarrow> False | Some file \<Rightarrow> f file i \<noteq> 0) [n..<max_fds fs] of
        None \<Rightarrow> 0 | Some i \<Rightarrow> f (the (fd_entry fs i)) i)"

definition demo_fd_env :: fd_env where
  "demo_fd_env = \<lparr>sock_from_file = [90 \<mapsto> 50, 91 \<mapsto> 51, 92 \<mapsto> 52], iterate_fd = demo_iterate,
     sock_alloc_file = (\<lambda>s. Some (s + 40))\<rparr>"

definition demo_files :: files_struct where
  "demo_files = \<lparr>file_lock = False, max_fds = 64, fd_entry = [0 \<mapsto> 80, 3 \<mapsto> 91, 4 \<mapsto> 90], closed_files = []\<rparr>"

lemma demo_iterate_contract: "iterate_fd_contract demo_fd_env"
proof -
  have "(demo_iterate fs 0 f = 0 \<longrightarrow> (\<forall>i file. i < max_fds fs \<longrightarrow> fd_entry fs i = Some file \<longrightarrow> f file i = 0)) \<and>
     (demo_iterate fs 0 f \<noteq> 0 \<longrightarrow> (\<exists>i file. i < max_fds fs \<and> fd_entry fs i = Some file \<and>
        f file i = demo_iterate fs 0 f \<and>
        (\<forall>j file'. j < i \<longrightarrow> fd_entry fs j = Some file' \<longrightarrow> f file' j = 0)))" for fs f
  proof -
    let ?P = "\<lambda>i. case fd_entry fs i of None \<Rightarrow> False | Some file \<Rightarrow> f file i \<noteq> 0"
    show ?thesis
    proof (cases "find ?P [0..<max_fds fs]")
      case None
      then have "\<forall>i < max_fds fs. \<not> ?P i" by (auto simp: find_None_iff)
      with None show ?thesis by (auto simp: demo_iterate_def split: option.splits)
    next
      case (Some i)
      then have i: "i < max_fds fs" "?P i" "\<forall>j < i. \<not> ?P j"
        by (auto simp: find_Some_iff) (metis less_trans nth_upt plus_nat.add_0 zero_less_diff diff_zero)
      then obtain g where "fd_entry fs i = Some g" "f g i \<noteq> 0"
        by (auto split: option.splits)
      with Some i show ?thesis by (auto simp: demo_iterate_def split: option.splits)
    qed
  qed
  then show ?thesis by (simp add: iterate_fd_contract_def demo_fd_env_def)
qed

lemma demo_fd: "get_fd_for_sock demo_fd_env (Some 50) demo_files = 4"
  using get_fd_found [OF demo_iterate_contract, of 4 demo_files 90 "Some 50"]
  by (auto simp: demo_files_def demo_fd_env_def split: if_splits)


end
