(* ===== verification/Ltcp_Sockets.thy ===== *)
theory Ltcp_Sockets
  imports Port_Functions Rdma_Xmit Fd_Table
begin

text \<open>
  The socket half of \<open>ltcp/local_tcp_protocol.c\<close>: the state of a node (its sockets, the node
  heap with the tables \<open>incoming_conns\<close> and \<open>conns\<close>, the file descriptors, the RDMA
  daemon), the send helper, the receive handler \<open>local_tcp_rcv\<close> with a definition per message
  type, connect, accept with its wait loop, close and keep-alive. \<open>struct ltcp_sock\<close> begins
  with its \<open>inet_sock\<close>, which begins with its \<open>struct sock\<close>: the three pointers are one
  address. What the kernel's own functions return is in the parameter \<open>kenv\<close>.
\<close>

subsection \<open>Sockets and socket buffers\<close>

datatype tcp_state = TCP_SYN_RECV | TCP_CLOSE | TCP_LISTEN | OTHER_STATE nat

datatype proto = Ltcp_Proto | Other_Proto nat

text \<open>\<open>skb_msg\<close> is the pointer stored at the transport header: a slot of the receive ring.\<close>

record sk_buff =
  skb_msg :: nat
  iph_saddr :: u32
  iph_daddr :: u32
  skb_sk :: "addr option"

record ltcp_sock =
  sk_inet :: inet_sock
  sk_state :: tcp_state
  sk_protocol :: nat
  sk_prot :: proto
  sk_prot_creator :: proto
  sk_socket :: "addr option"
  sk_receive_queue :: "sk_buff list"
  sk_data_ready :: nat
  icsk_accept_queue :: "addr list"
  icsk_bind_hash :: "addr option"
  icsk_retransmits :: nat
  icsk_backoff :: nat
  icsk_probes_out :: nat
  mc_list :: "addr option"
  SOCK_RCU_FREE :: bool
  defer_connect :: bool
  last_update :: int

definition IPPROTO_LOCAL_TCP :: nat where "IPPROTO_LOCAL_TCP = 5"
definition KEEP_ALIVE_TIME :: int where "KEEP_ALIVE_TIME = 10"

text \<open>
  The globals of the module on one node. \<open>woken\<close> is the sequence of sockets whose wait queue
  was woken, \<open>connecting\<close> the \<open>struct socket\<close>s set to \<open>SS_CONNECTING\<close>.
\<close>

record ltcp =
  socks :: "addr \<Rightarrow> ltcp_sock option"
  psks :: psk_heap
  incoming_conns :: port_table
  conns :: port_table
  files :: files_struct
  connecting :: "addr set"
  woken :: "addr list"
  src_IP :: u64
  dest_IP :: u64
  daemon :: rdma

text \<open>
  What one call of a kernel function returns: a cloned socket, a \<open>kmalloc\<close>ed node with whatever
  it holds, a created socket (a negative error or the \<open>struct socket\<close>, its \<open>sk\<close> and
  the initialised \<open>sk\<close>), and the effect of the kernel's own TCP functions.
\<close>

record kenv =
  xenv :: xmit_env
  fdenv :: fd_env
  sk_clone_lock :: "ltcp \<Rightarrow> ltcp_sock \<Rightarrow> (addr \<times> ltcp_sock) option"
  kmalloc_port_sk :: "psk_heap \<Rightarrow> (addr \<times> port_sk) option"
  sock_create :: "ltcp \<Rightarrow> int + addr \<times> addr \<times> ltcp_sock"
  tcp_close :: "addr \<Rightarrow> ltcp \<Rightarrow> ltcp"
  tcp_v4_connect :: "addr \<Rightarrow> u16 \<times> u32 \<Rightarrow> ltcp \<Rightarrow> int \<times> ltcp"
  inet_csk_accept :: "addr \<Rightarrow> ltcp \<Rightarrow> addr option \<times> int \<times> ltcp"
  sock_rcvtimeo :: "ltcp_sock \<Rightarrow> bool \<Rightarrow> int"
  sock_intr_errno :: "int \<Rightarrow> int"
  alloc_skb :: "nat \<Rightarrow> bool"

definition sock_load :: "ltcp \<Rightarrow> addr option \<Rightarrow> ltcp_sock res" where
  "sock_load st p = (case p of None \<Rightarrow> Inl NullDeref
     | Some s \<Rightarrow> (case socks st s of None \<Rightarrow> Inl Dangling | Some k \<Rightarrow> Inr k))"

definition sock_store :: "ltcp \<Rightarrow> addr option \<Rightarrow> (ltcp_sock \<Rightarrow> ltcp_sock) \<Rightarrow> ltcp res" where
  "sock_store st p f = rbind (sock_load st p) (\<lambda>k. Inr (st\<lparr>socks := (socks st)(the p \<mapsto> f k)\<rparr>))"

subsection \<open>Sending\<close>

definition local_tcp_sendmsg_helper ::
    "config \<Rightarrow> kenv \<Rightarrow> addr option \<Rightarrow> u64 option \<Rightarrow> u64 \<Rightarrow> u32 \<Rightarrow> ltcp \<Rightarrow> (int \<times> ltcp) res" where
  "local_tcp_sendmsg_helper cfg env sk msg len type st =
     rbind (sock_load st sk) (\<lambda>k.
     rbind (ltcp_direct_copy cfg (xenv env) (sk_inet k) msg len type (daemon st)) (\<lambda>(rc, d).
     Inr (rc, st\<lparr>daemon := d\<rparr>)))"

definition local_tcp_sendmsg ::
    "config \<Rightarrow> kenv \<Rightarrow> addr \<Rightarrow> u64 option \<Rightarrow> u64 \<Rightarrow> ltcp \<Rightarrow> (int \<times> ltcp) res" where
  "local_tcp_sendmsg cfg env sk msg len st =
     local_tcp_sendmsg_helper cfg env (Some sk) msg len REGULAR st"

subsection \<open>The receive handler\<close>

definition local_tcp_do_rcv :: "addr option \<Rightarrow> sk_buff \<Rightarrow> ltcp \<Rightarrow> (int \<times> ltcp) res" where
  "local_tcp_do_rcv sk skb st =
     rbind (sock_store st sk (\<lambda>k. k\<lparr>sk_receive_queue := sk_receive_queue k @ [skb]\<rparr>)) (\<lambda>st1.
     rbind (sock_store st1 sk (\<lambda>k. k\<lparr>sk_data_ready := sk_data_ready k + 1\<rparr>)) (\<lambda>st2.
     Inr (0, st2)))"

definition rcv_regular :: "u16 \<Rightarrow> u16 \<Rightarrow> u32 \<Rightarrow> sk_buff \<Rightarrow> ltcp \<Rightarrow> (int \<times> ltcp) res" where
  "rcv_regular lport rport rip skb st =
     rbind (get_port_sk (psks st) (conns st) lport rport rip) (\<lambda>(psk, arr).
     let st1 = st\<lparr>conns := arr\<rparr>
     in if psk = None then Inr (- 1, st1)
        else rbind (psk_load (psks st1) psk) (\<lambda>n.
          if psk_sk n = None then Inr (- 1, st1)
          else rbind (local_tcp_do_rcv (psk_sk n) (skb\<lparr>skb_sk := psk_sk n\<rparr>) st1) (\<lambda>(_, st2).
               Inr (0, st2))))"

text \<open>The stores into a cloned socket before it is unlocked.\<close>

definition setup_clone :: "u16 \<Rightarrow> u16 \<Rightarrow> u32 \<Rightarrow> u32 \<Rightarrow> ltcp_sock \<Rightarrow> ltcp_sock" where
  "setup_clone lport rport rip lip k =
     k\<lparr>sk_state := TCP_SYN_RECV, icsk_bind_hash := None,
       sk_inet := \<lparr>inet_saddr = lip, inet_daddr = rip, inet_sport = lport, inet_dport = rport,
                   inet_num = ntohs lport\<rparr>,
       SOCK_RCU_FREE := False, mc_list := None, icsk_retransmits := 0, icsk_backoff := 0,
       icsk_probes_out := 0, icsk_accept_queue := [], sk_protocol := IPPROTO_LOCAL_TCP,
       sk_socket := None, sk_prot := Ltcp_Proto, sk_prot_creator := Ltcp_Proto\<rparr>"

text \<open>\<open>clone_sk < 0\<close> is false for every pointer; a NULL clone is dereferenced long before it.\<close>

definition rcv_connect :: "kenv \<Rightarrow> u16 \<Rightarrow> u16 \<Rightarrow> u32 \<Rightarrow> u32 \<Rightarrow> ltcp \<Rightarrow> (int \<times> ltcp) res" where
  "rcv_connect env lport rport rip lip st =
     rbind (get_listening_sk_port_sk_arr (incoming_conns st) lport) (\<lambda>listening_sk.
     if listening_sk = None then Inr (0, st)
     else rbind (get_port_sk (psks st) (conns st) lport rport rip) (\<lambda>(found, arr).
       let st1 = st\<lparr>conns := arr\<rparr>
       in if found \<noteq> None then Inr (0, st1)
          else rbind (sock_load st1 listening_sk) (\<lambda>parent.
            case sk_clone_lock env st1 parent of
              None \<Rightarrow> Inl NullDeref
            | Some (clone_sk, k) \<Rightarrow>
                let st2 = st1\<lparr>socks := (socks st1)(clone_sk \<mapsto> setup_clone lport rport rip lip k)\<rparr>
                in case kmalloc_port_sk env (psks st2) of
                     None \<Rightarrow> Inr (- 1, st2)
                   | Some (psk, n) \<Rightarrow>
                       let h = (psks st2)(psk \<mapsto> n\<lparr>psk_sk := Some clone_sk, psk_rport := rport, psk_rip := rip\<rparr>)
                       in rbind (add_port_sk h (incoming_conns st2) lport (Some psk)) (\<lambda>(h1, arr1).
                          rbind (wake_up_listening_sock arr1 lport) (\<lambda>(w, arr2).
                          Inr (0, st2\<lparr>psks := h1, incoming_conns := arr2,
                                     woken := woken st2 @ (case w of None \<Rightarrow> [] | Some s \<Rightarrow> [s])\<rparr>))))))"

definition rcv_close :: "u16 \<Rightarrow> u16 \<Rightarrow> u32 \<Rightarrow> ltcp \<Rightarrow> (int \<times> ltcp) res" where
  "rcv_close lport rport rip st =
     rbind (remove_port_sk (psks st) (conns st) lport rport rip) (\<lambda>(psk, h, arr).
     let st1 = st\<lparr>psks := h, conns := arr\<rparr>
     in rbind (psk_load h psk) (\<lambda>n.
        rbind (sock_store st1 (psk_sk n) (\<lambda>k. k\<lparr>sk_state := TCP_CLOSE\<rparr>)) (\<lambda>st2.
        rbind (psk_kfree (psks st2) psk) (\<lambda>h2. Inr (0, st2\<lparr>psks := h2\<rparr>)))))"

definition rcv_connect_success :: "u16 \<Rightarrow> u16 \<Rightarrow> u32 \<Rightarrow> ltcp \<Rightarrow> (int \<times> ltcp) res" where
  "rcv_connect_success lport rport rip st =
     rbind (remove_port_sk (psks st) (incoming_conns st) lport rport rip) (\<lambda>(psk, h, arr).
     rbind (add_port_sk h (conns st) lport psk) (\<lambda>(h1, arr1).
     Inr (0, st\<lparr>psks := h1, incoming_conns := arr, conns := arr1\<rparr>)))"

text \<open>The ports are read into the 16-bit variables \<open>rport\<close> and \<open>lport\<close>, exchanged.\<close>

definition local_tcp_rcv :: "kenv \<Rightarrow> sk_buff \<Rightarrow> ltcp \<Rightarrow> (int \<times> ltcp) res" where
  "local_tcp_rcv env skb st =
     (let ltcp_msg = rq_queue (recv_queue (daemon st)) (skb_msg skb);
          rport = ucast (dest_port ltcp_msg) :: u16;
          lport = ucast (src_port ltcp_msg) :: u16;
          rip = iph_saddr skb;
          lip = iph_daddr skb;
          type = msg_type ltcp_msg
      in if type = REGULAR then rcv_regular lport rport rip skb st
         else if type = CONNECT then rcv_connect env lport rport rip lip st
         else if type = CLOSE then rcv_close lport rport rip st
         else if type = CONNECT_SUCCESS then rcv_connect_success lport rport rip st
         else Inr (- 1, st))"

subsection \<open>Close and keep-alive\<close>

definition ltcp_tcp_close :: "config \<Rightarrow> kenv \<Rightarrow> addr \<Rightarrow> ltcp \<Rightarrow> ltcp res" where
  "ltcp_tcp_close cfg env sk st =
     rbind (sock_load st (Some sk)) (\<lambda>k.
     if inet_daddr (sk_inet k) = ucast (dest_IP st) then
       if sk_state k = TCP_CLOSE then Inr st
       else rbind (remove_port_sk (psks st) (conns st) (inet_sport (sk_inet k)) (inet_dport (sk_inet k))
                     (inet_daddr (sk_inet k))) (\<lambda>(psk, h, arr).
         let st1 = st\<lparr>psks := h, conns := arr\<rparr>
         in if psk \<noteq> None then
              rbind (psk_load h psk) (\<lambda>n.
              if psk_sk n \<noteq> None then
                rbind (local_tcp_sendmsg_helper cfg env (psk_sk n) None 0 CLOSE st1) (\<lambda>(err, st2). Inr st2)
              else Inr st1)
            else Inr st1)
     else Inr (tcp_close env sk st))"

text \<open>
  One turn of the loop of \<open>loop_and_close_sockets\<close> for the node \<open>c\<close>: the next node and the
  state, or the error code to return.
\<close>

definition close_step ::
    "config \<Rightarrow> kenv \<Rightarrow> int \<Rightarrow> addr \<Rightarrow> ltcp \<Rightarrow> ((int + addr option) \<times> ltcp) res" where
  "close_step cfg env now c st =
     rbind (psk_load (psks st) (Some c)) (\<lambda>n.
     rbind (sock_load st (psk_sk n)) (\<lambda>k.
     if last_update k + KEEP_ALIVE_TIME < now then
       rbind (local_tcp_sendmsg_helper cfg env (psk_sk n) None 0 CLOSE st) (\<lambda>(err, st1).
       if err \<noteq> 0 then Inr (Inl err, st1)
       else rbind (remove_port_sk (psks st1) (conns st1) (inet_sport (sk_inet k)) (inet_dport (sk_inet k))
                     (inet_daddr (sk_inet k))) (\<lambda>(psk, h, arr).
         rbind (psk_load h (Some c)) (\<lambda>n1.
         rbind (psk_kfree h psk) (\<lambda>h1.
         Inr (Inr (psk_next n1), st1\<lparr>psks := h1, conns := arr\<rparr>)))))
     else Inr (Inr (psk_next n), st)))"

partial_function (option) close_loop ::
    "config \<Rightarrow> kenv \<Rightarrow> int \<Rightarrow> addr option \<Rightarrow> ltcp \<Rightarrow> (int \<times> ltcp) res option" where
  "close_loop cfg env now current_psk st =
     (case current_psk of None \<Rightarrow> Some (Inr (0, st))
      | Some c \<Rightarrow> (case close_step cfg env now c st of
           Inl e \<Rightarrow> Some (Inl e)
         | Inr (Inl err, st1) \<Rightarrow> Some (Inr (err, st1))
         | Inr (Inr next, st1) \<Rightarrow> close_loop cfg env now next st1))"

text \<open>The table argument is a pointer to one of the two tables; the port is used as an index as it is.\<close>

definition loop_and_close_sockets ::
    "config \<Rightarrow> kenv \<Rightarrow> (ltcp \<Rightarrow> port_table) \<Rightarrow> int \<Rightarrow> int \<Rightarrow> ltcp \<Rightarrow> (int \<times> ltcp) res" where
  "loop_and_close_sockets cfg env arr lport now st =
     (if lport < 0 then Inl OutOfBounds
      else rbind (get_slot (arr st) (nat lport)) (\<lambda>slot.
           of_loop (close_loop cfg env now (psa_head slot) st)))"

subsection \<open>Connect\<close>

text \<open>
  The socket address is its port and address. The result is the return value and what was stored
  through the \<open>sock\<close> argument.
\<close>

definition ltcp_tcp_v4_connect ::
    "config \<Rightarrow> kenv \<Rightarrow> addr \<Rightarrow> u16 \<times> u32 \<Rightarrow> ltcp \<Rightarrow> (int \<times> addr option \<times> ltcp) res" where
  "ltcp_tcp_v4_connect cfg env sk uaddr st =
     (case sock_create env st of
        Inl ret \<Rightarrow> Inr (ret, None, st)
      | Inr (sock, conn_sk, k0) \<Rightarrow>
          let st1 = st\<lparr>socks := (socks st)(conn_sk \<mapsto> k0)\<rparr>
          in rbind (sock_load st1 (Some sk)) (\<lambda>k.
             rbind (replace_socket_filedescriptor (fdenv env) sock (sk_socket k) (files st1)) (\<lambda>(rc, fs).
             let st2 = st1\<lparr>files := fs\<rparr>
             in if rc \<noteq> 0 then Inr (- 1, Some sock, st2)
                else
                  let lport = fst uaddr;
                      inet = (sk_inet k0)\<lparr>inet_sport := lport, inet_dport := fst uaddr,
                                inet_daddr := snd uaddr, inet_saddr := ucast (src_IP st2)\<rparr>;
                      st3 = st2\<lparr>socks := (socks st2)(conn_sk \<mapsto> k0\<lparr>sk_inet := inet\<rparr>)\<rparr>
                  in if inet_saddr inet = 0 then Inr (- 1, Some sock, st3)
                     else if inet_daddr inet = 0 then Inr (- 1, Some sock, st3)
                     else case kmalloc_port_sk env (psks st3) of
                       None \<Rightarrow> Inr (- 1, Some sock, st3)
                     | Some (psk, n) \<Rightarrow>
                         let st4 = st3\<lparr>psks := (psks st3)(psk \<mapsto> n\<lparr>psk_sk := Some conn_sk,
                                     psk_rport := fst uaddr, psk_rip := inet_daddr inet\<rparr>)\<rparr>
                         in rbind (local_tcp_sendmsg_helper cfg env (Some conn_sk) (Some 0) 0 CONNECT st4)
                              (\<lambda>(ret, st5).
                            if ret \<noteq> 0 then Inr (ret, Some sock, st5)
                            else rbind (add_port_sk (psks st5) (incoming_conns st5) lport (Some psk))
                              (\<lambda>(h, arr). Inr (ret, Some sock, st5\<lparr>psks := h, incoming_conns := arr\<rparr>))))))"

definition ltcp_tcp_v4_connect_wrapper ::
    "config \<Rightarrow> kenv \<Rightarrow> addr \<Rightarrow> u16 \<times> u32 \<Rightarrow> ltcp \<Rightarrow> (int \<times> ltcp) res" where
  "ltcp_tcp_v4_connect_wrapper cfg env sk uaddr st =
     (if snd uaddr = ucast (dest_IP st) then
        rbind (ltcp_tcp_v4_connect cfg env sk uaddr st) (\<lambda>(ret, sock, st1).
        if 0 \<le> ret then
          rbind (sock_store st1 (Some sk) (\<lambda>k. k\<lparr>defer_connect := True\<rparr>)) (\<lambda>st2.
          case sock of None \<Rightarrow> Inl NullDeref
          | Some s \<Rightarrow> Inr (0, st2\<lparr>connecting := insert s (connecting st2)\<rparr>))
        else Inr (ret, st1))
      else Inr (tcp_v4_connect env sk uaddr st))"

subsection \<open>Accept\<close>

text \<open>
  One sleep in \<open>schedule_timeout\<close>: what other contexts did to the node meanwhile, the time left
  and whether a signal is pending. \<open>lock_sock\<close> and \<open>release_sock\<close> around it are not modelled.
\<close>

record nap =
  nap_others :: "ltcp \<Rightarrow> ltcp"
  nap_timeo :: int
  nap_signal :: bool

text \<open>\<open>reqsk_queue_empty(queue) && portsk_queue_empty(incoming_conns, lport)\<close>.\<close>

definition queues_empty :: "addr \<Rightarrow> u16 \<Rightarrow> ltcp \<Rightarrow> bool res" where
  "queues_empty sk lport st =
     rbind (sock_load st (Some sk)) (\<lambda>k.
     if icsk_accept_queue k \<noteq> [] then Inr False else portsk_queue_empty (incoming_conns st) lport)"

fun wait_loop :: "kenv \<Rightarrow> addr \<Rightarrow> u16 \<Rightarrow> nap list \<Rightarrow> ltcp \<Rightarrow> (int \<times> ltcp) res" where
  "wait_loop env sk lport naps st =
     rbind (queues_empty sk lport st) (\<lambda>none.
     if \<not> none then Inr (0, st)
     else case naps of
       [] \<Rightarrow> Inl Blocked
     | nap # naps' \<Rightarrow>
         let st1 = nap_others nap st; timeo = nap_timeo nap
         in rbind (queues_empty sk lport st1) (\<lambda>none1.
            if \<not> none1 then Inr (0, st1)
            else rbind (sock_load st1 (Some sk)) (\<lambda>k.
              if sk_state k \<noteq> TCP_LISTEN then Inr (- EINVAL, st1)
              else if nap_signal nap then Inr (sock_intr_errno env timeo, st1)
              else if timeo = 0 then Inr (- EAGAIN, st1)
              else wait_loop env sk lport naps' st1)))"

definition wait_on_connection :: "kenv \<Rightarrow> addr \<Rightarrow> bool \<Rightarrow> nap list \<Rightarrow> ltcp \<Rightarrow> (int \<times> ltcp) res" where
  "wait_on_connection env sk nonblock naps st =
     rbind (sock_load st (Some sk)) (\<lambda>k.
     let lport = inet_sport (sk_inet k)
     in rbind (queues_empty sk lport st) (\<lambda>none.
        if none then
          let timeo = sock_rcvtimeo env k nonblock
          in if timeo = 0 then Inr (- EAGAIN, st)
             else rbind (add_listening_sk_port_sk_arr (incoming_conns st) lport (Some sk)) (\<lambda>arr.
                  wait_loop env sk lport naps (st\<lparr>incoming_conns := arr\<rparr>))
        else Inr (0, st)))"

definition ltcp_inet_csk_accept ::
    "config \<Rightarrow> kenv \<Rightarrow> addr \<Rightarrow> bool \<Rightarrow> nap list \<Rightarrow> ltcp \<Rightarrow> (addr option \<times> int \<times> ltcp) res" where
  "ltcp_inet_csk_accept cfg env sk nonblock naps st =
     rbind (sock_load st (Some sk)) (\<lambda>k.
     let lport = inet_sport (sk_inet k)
     in rbind (wait_on_connection env sk nonblock naps st) (\<lambda>(err, st1).
     if err \<noteq> 0 then Inr (None, err, st1)
     else rbind (sock_load st1 (Some sk)) (\<lambda>k1.
       if icsk_accept_queue k1 = [] then
         rbind (put_port_sk (psks st1) (incoming_conns st1) lport) (\<lambda>(psk, h, arr).
         let st2 = st1\<lparr>psks := h, incoming_conns := arr\<rparr>
         in if psk \<noteq> None then
              rbind (psk_load h psk) (\<lambda>n.
              if psk_sk n = None then Inr (None, err, st2)
              else rbind (add_port_sk (psks st2) (conns st2) lport psk) (\<lambda>(h1, arr1).
                let st3 = st2\<lparr>psks := h1, conns := arr1\<rparr>
                in rbind (local_tcp_sendmsg_helper cfg env (psk_sk n) None 0 CONNECT_SUCCESS st3)
                   (\<lambda>(err1, st4).
                   if err1 \<noteq> 0 then Inr (None, err1, st4) else Inr (psk_sk n, 0, st4))))
            else Inr (None, - EAGAIN, st2))
       else Inr (inet_csk_accept env sk st1))))"

subsection \<open>The interrupt\<close>

text \<open>
  The loop of \<open>rdma_recv\<close>, one turn per pending slot: advance \<open>start\<close>, build a socket buffer
  that points into the ring, hand it to \<open>local_tcp_rcv\<close>.
\<close>

partial_function (option) recv_loop :: "kenv \<Rightarrow> ltcp \<Rightarrow> (int \<times> ltcp) res option" where
  "recv_loop env st =
     (case rdma_recv_next (recv_queue (daemon st)) of
        Inl e \<Rightarrow> Some (Inl e)
      | Inr (slot, rq) \<Rightarrow>
          let st1 = st\<lparr>daemon := (daemon st)\<lparr>recv_queue := rq\<rparr>\<rparr>
          in case slot of
               None \<Rightarrow> Some (Inr (0, st1))
             | Some i \<Rightarrow>
                 if \<not> alloc_skb env i then Some (Inl NullDeref)
                 else let skb = \<lparr>skb_msg = i, iph_saddr = src_ip (rq_queue rq i),
                                 iph_daddr = dest_ip (rq_queue rq i), skb_sk = None\<rparr>
                      in case local_tcp_rcv env skb st1 of
                           Inl e \<Rightarrow> Some (Inl e)
                         | Inr (rc, st2) \<Rightarrow> if rc \<noteq> 0 then Some (Inr (- 1, st2)) else recv_loop env st2)"

definition rdma_recv :: "kenv \<Rightarrow> ltcp \<Rightarrow> (int \<times> ltcp) res" where
  "rdma_recv env st =
     rbind (spin_lock (recv_queue_lock (daemon st))) (\<lambda>l.
     rbind (of_loop (recv_loop env (st\<lparr>daemon := (daemon st)\<lparr>recv_queue_lock := l\<rparr>\<rparr>))) (\<lambda>(rc, st1).
     Inr (rc, st1\<lparr>daemon := (daemon st1)\<lparr>recv_queue_lock := False\<rparr>\<rparr>)))"

definition interrupt_callback :: "kenv \<Rightarrow> ltcp \<Rightarrow> (int \<times> ltcp) res" where
  "interrupt_callback env st = rdma_recv env st"

end
