(* ===== verification/Conn_Tables.thy ===== *)
theory Conn_Tables
  imports Port_Functions
begin

text \<open>
  The two connection tables as the handlers of the protocol use them, abstracted to one list of
  connections per port and table. \<open>conn_lists\<close> relates the pointer structures to those lists;
  the set \<open>F\<close> holds nodes known to be in no list, which are on their way from one table to
  another, freshly allocated or about to be freed.
\<close>

type_synonym conn = "addr option \<times> u16 \<times> u32"

definition conn_lists ::
    "psk_heap \<Rightarrow> port_table \<Rightarrow> port_table \<Rightarrow> addr set \<Rightarrow> (nat \<Rightarrow> conn list) \<Rightarrow> (nat \<Rightarrow> conn list) \<Rightarrow> bool" where
  "conn_lists h inc con F Ai Ac \<longleftrightarrow>
     (\<exists>Li Lc. tables_inv h inc con Li Lc \<and>
        (\<forall>i < MAX_NUMBER_OF_PORTS. map (psk_payload h) (Li i) = map Some (Ai i)) \<and>
        (\<forall>i < MAX_NUMBER_OF_PORTS. map (psk_payload h) (Lc i) = map Some (Ac i)) \<and>
        F \<inter> (slot_nodes Li \<union> slot_nodes Lc) = {})"

definition same_listeners :: "port_table \<Rightarrow> port_table \<Rightarrow> bool" where
  "same_listeners arr arr' \<longleftrightarrow> (\<forall>i. psa_listening_sock (arr' i) = psa_listening_sock (arr i))"

lemma slot_frame_listeners: "slot_frame i X h arr h' arr' \<Longrightarrow> same_listeners arr arr'"
  unfolding slot_frame_def same_listeners_def by metis

lemma same_listeners_refl [simp]: "same_listeners arr arr"
  by (simp add: same_listeners_def)

lemma conn_listsI:
  assumes "tables_inv h inc con Li Lc"
    and "\<And>i. i < MAX_NUMBER_OF_PORTS \<Longrightarrow> map (psk_payload h) (Li i) = map Some (Ai i)"
    and "\<And>i. i < MAX_NUMBER_OF_PORTS \<Longrightarrow> map (psk_payload h) (Lc i) = map Some (Ac i)"
    and "F \<inter> (slot_nodes Li \<union> slot_nodes Lc) = {}"
  shows "conn_lists h inc con F Ai Ac"
  using assms unfolding conn_lists_def by blast

lemma conn_listsE:
  assumes "conn_lists h inc con F Ai Ac"
  obtains Li Lc where "tables_inv h inc con Li Lc"
    "\<And>i. i < MAX_NUMBER_OF_PORTS \<Longrightarrow> map (psk_payload h) (Li i) = map Some (Ai i)"
    "\<And>i. i < MAX_NUMBER_OF_PORTS \<Longrightarrow> map (psk_payload h) (Lc i) = map Some (Ac i)"
    "F \<inter> (slot_nodes Li \<union> slot_nodes Lc) = {}"
  using assms unfolding conn_lists_def by blast

lemma conn_lists_swap:
  assumes "conn_lists h inc con F Ai Ac"
  shows "conn_lists h con inc F Ac Ai"
proof -
  from assms obtain Li Lc where "tables_inv h inc con Li Lc"
    "\<And>i. i < MAX_NUMBER_OF_PORTS \<Longrightarrow> map (psk_payload h) (Li i) = map Some (Ai i)"
    "\<And>i. i < MAX_NUMBER_OF_PORTS \<Longrightarrow> map (psk_payload h) (Lc i) = map Some (Ac i)"
    "F \<inter> (slot_nodes Li \<union> slot_nodes Lc) = {}"
    by (rule conn_listsE) blast
  then show ?thesis
    by (intro conn_listsI [of _ _ _ Lc Li]) (auto simp: tables_inv_swap [of h con])
qed

lemma conn_lists_weaken: "conn_lists h inc con F Ai Ac \<Longrightarrow> F' \<subseteq> F \<Longrightarrow> conn_lists h inc con F' Ai Ac"
  unfolding conn_lists_def by blast

lemma tables_inv_alloc: "tables_inv h inc con Li Lc \<Longrightarrow> a \<in> slot_nodes Li \<union> slot_nodes Lc \<Longrightarrow> h a \<noteq> None"
  by (auto simp: tables_inv_def table_inv_def slot_nodes_def dll_def dest!: dseg_alloc)

lemma map_payload_upd:
  "a \<notin> set xs \<Longrightarrow> map (psk_payload (h(a := v))) xs = map (psk_payload h) xs"
  by (auto simp: psk_payload_def)

lemma conn_lists_upd:
  assumes "conn_lists h inc con F Ai Ac" and "a \<in> F \<or> h a = None"
  shows "conn_lists (h(a := v)) inc con (insert a F) Ai Ac"
proof -
  from assms(1) obtain Li Lc where L: "tables_inv h inc con Li Lc"
    "\<And>i. i < MAX_NUMBER_OF_PORTS \<Longrightarrow> map (psk_payload h) (Li i) = map Some (Ai i)"
    "\<And>i. i < MAX_NUMBER_OF_PORTS \<Longrightarrow> map (psk_payload h) (Lc i) = map Some (Ac i)"
    "F \<inter> (slot_nodes Li \<union> slot_nodes Lc) = {}"
    by (rule conn_listsE) blast
  have a: "a \<notin> slot_nodes Li" "a \<notin> slot_nodes Lc"
    using assms(2) L(4) tables_inv_alloc [OF L(1), of a] by auto
  have "a \<notin> set (Li i)" "a \<notin> set (Lc i)" if "i < MAX_NUMBER_OF_PORTS" for i
    using that a slot_nodes_mem [of i a] by auto
  then have "map (psk_payload (h(a := v))) (Li i) = map Some (Ai i)"
    "map (psk_payload (h(a := v))) (Lc i) = map Some (Ac i)" if "i < MAX_NUMBER_OF_PORTS" for i
    using that L(2,3) by (simp_all add: map_payload_upd del: fun_upd_apply map_eq_conv)
  moreover have "table_inv (h(a := v)) inc Li" "table_inv (h(a := v)) con Lc"
    using L(1) a by (auto simp: tables_inv_def intro: table_inv_cong)
  then have "tables_inv (h(a := v)) inc con Li Lc"
    using L(1) by (simp add: tables_inv_def)
  ultimately show ?thesis
    using a L(4) by (intro conn_listsI) auto
qed

lemma payload_Some: "psk_payload h a = Some e \<Longrightarrow>
   \<exists>n. h a = Some n \<and> psk_sk n = fst e \<and> psk_rport n = fst (snd e) \<and> psk_rip n = snd (snd e)"
  by (auto simp: psk_payload_def)

lemma psk_matches_payload_Some:
  "psk_payload h a = Some e \<Longrightarrow> psk_matches h rport rip a \<longleftrightarrow> snd e = (rport, rip)"
  by (auto simp: psk_payload_def psk_matches_def split: option.splits)

lemma find_payload:
  "map (psk_payload h) xs = map Some es \<Longrightarrow>
   (case find (psk_matches h rport rip) xs of
      None \<Rightarrow> find (\<lambda>e. snd e = (rport, rip)) es = None
    | Some a \<Rightarrow> find (\<lambda>e. snd e = (rport, rip)) es = psk_payload h a \<and> psk_payload h a \<noteq> None)"
proof (induction xs arbitrary: es)
  case Nil
  then show ?case by simp
next
  case (Cons a xs)
  then obtain e es' where es: "es = e # es'" "psk_payload h a = Some e"
    "map (psk_payload h) xs = map Some es'"
    by (cases es) auto
  with Cons.IH [OF es(3)] psk_matches_payload_Some [OF es(2), of rport rip] es(2) show ?case
    unfolding es(1) by (cases "snd e = (rport, rip)") (simp_all split: option.splits)
qed

subsection \<open>The operations on the abstract lists\<close>

lemma conn_get:
  assumes "conn_lists h inc con F Ai Ac" and i: "i = port_index lport" "i < MAX_NUMBER_OF_PORTS"
  shows "\<exists>r. get_port_sk h inc lport rport rip = Inr (r, inc) \<and>
    (case find (\<lambda>e. snd e = (rport, rip)) (Ai i) of
       None \<Rightarrow> r = None
     | Some e \<Rightarrow> \<exists>a n. r = Some a \<and> h a = Some n \<and> psk_sk n = fst e \<and> psk_payload h a = Some e)"
proof -
  from assms(1) obtain Li Lc where L: "tables_inv h inc con Li Lc"
    "map (psk_payload h) (Li i) = map Some (Ai i)"
    using i unfolding conn_lists_def by blast
  then have "dll h (inc i) (Li i)" "\<not> psa_lock (inc i)"
    using i by (auto simp: tables_inv_def table_inv_def)
  from get_port_sk_dll [of h inc i, OF this(1) i this(2)]
  have "get_port_sk h inc lport rport rip = Inr (find (psk_matches h rport rip) (Li i), inc)" .
  moreover note find_payload [OF L(2), of rport rip]
  ultimately show ?thesis
    by (auto split: option.splits dest: payload_Some)
qed

lemma conn_add:
  assumes rel: "conn_lists h inc con F Ai Ac" and i: "i = port_index lport" "i < MAX_NUMBER_OF_PORTS"
    and a: "a \<in> F" "psk_payload h a = Some e"
  shows "\<exists>h' inc'. add_port_sk h inc lport (Some a) = Inr (h', inc') \<and>
    conn_lists h' inc' con (F - {a}) (Ai(i := Ai i @ [e])) Ac \<and> same_listeners inc inc' \<and>
    psk_payload h' = psk_payload h"
proof -
  from rel obtain Li Lc where L: "tables_inv h inc con Li Lc"
    "\<And>i. i < MAX_NUMBER_OF_PORTS \<Longrightarrow> map (psk_payload h) (Li i) = map Some (Ai i)"
    "\<And>i. i < MAX_NUMBER_OF_PORTS \<Longrightarrow> map (psk_payload h) (Lc i) = map Some (Ac i)"
    "F \<inter> (slot_nodes Li \<union> slot_nodes Lc) = {}"
    by (rule conn_listsE) blast
  from payload_Some [OF a(2)] obtain n where n: "h a = Some n" by blast
  from L(4) a(1) have "a \<notin> slot_nodes Li" "a \<notin> slot_nodes Lc" by auto
  from tables_add_fst [OF L(1) i n this] obtain h' inc' where
    st: "add_port_sk h inc lport (Some a) = Inr (h', inc')"
    "tables_inv h' inc' con (Li(i := Li i @ [a])) Lc"
    "slot_frame i (insert a (set (Li i))) h inc h' inc'" by blast
  from st(3) have p: "psk_payload h' = psk_payload h" by (simp add: slot_frame_def)
  have "slot_nodes (Li(i := Li i @ [a])) \<subseteq> insert a (slot_nodes Li)"
    using slot_nodes_upd [OF i(2), of Li "Li i @ [a]"] slot_nodes_mem [OF i(2), of _ Li] by auto
  then have "(F - {a}) \<inter> (slot_nodes (Li(i := Li i @ [a])) \<union> slot_nodes Lc) = {}"
    using L(4) by blast
  then have "conn_lists h' inc' con (F - {a}) (Ai(i := Ai i @ [e])) Ac"
    using st(2) L(2,3) a(2) i(2) p by (intro conn_listsI) auto
  with st(1) p slot_frame_listeners [OF st(3)] show ?thesis by blast
qed

lemma conn_put:
  assumes rel: "conn_lists h inc con F Ai Ac" and i: "i = port_index lport" "i < MAX_NUMBER_OF_PORTS"
    and A: "Ai i = e # es"
  shows "\<exists>a h' inc'. put_port_sk h inc lport = Inr (Some a, h', inc') \<and>
    conn_lists h' inc' con (insert a F) (Ai(i := es)) Ac \<and> same_listeners inc inc' \<and>
    psk_payload h' = psk_payload h \<and> psk_payload h a = Some e \<and> a \<notin> F"
proof -
  from rel obtain Li Lc where L: "tables_inv h inc con Li Lc"
    "\<And>i. i < MAX_NUMBER_OF_PORTS \<Longrightarrow> map (psk_payload h) (Li i) = map Some (Ai i)"
    "\<And>i. i < MAX_NUMBER_OF_PORTS \<Longrightarrow> map (psk_payload h) (Lc i) = map Some (Ac i)"
    "F \<inter> (slot_nodes Li \<union> slot_nodes Lc) = {}"
    by (rule conn_listsE) blast
  from L(2) [OF i(2)] A obtain a as where a: "Li i = a # as" "psk_payload h a = Some e"
    "map (psk_payload h) as = map Some es"
    by (cases "Li i") auto
  from tables_put_fst [OF L(1) i] a(1) obtain h' inc' where
    st: "put_port_sk h inc lport = Inr (Some a, h', inc')"
    "tables_inv h' inc' con (Li(i := as)) Lc" "slot_frame i (set (Li i)) h inc h' inc'" by auto
  from st(3) have p: "psk_payload h' = psk_payload h" by (simp add: slot_frame_def)
  have in_i: "a \<in> slot_nodes Li" using slot_nodes_mem [OF i(2), of a Li] a(1) by simp
  have "a \<notin> slot_nodes (Li(i := as))"
  proof
    assume "a \<in> slot_nodes (Li(i := as))"
    then obtain j where j: "j < MAX_NUMBER_OF_PORTS" "a \<in> set ((Li(i := as)) j)"
      by (auto simp: slot_nodes_def)
    from L(1) i(2) a(1) have d: "distinct (a # as)"
      by (metis tables_inv_def table_inv_def dll_def)
    from L(1) have sep: "set (Li i) \<inter> set (Li j) = {}" if "j \<noteq> i"
      using that i(2) j(1) by (auto simp: tables_inv_def table_inv_def)
    from j(2) d sep a(1) show False by (cases "j = i") auto
  qed
  moreover have "slot_nodes (Li(i := as)) \<subseteq> slot_nodes Li"
    using slot_nodes_upd [OF i(2), of Li as] slot_nodes_mem [OF i(2), of _ Li] a(1) by auto
  moreover have "a \<notin> slot_nodes Lc" using L(1) in_i by (auto simp: tables_inv_def)
  ultimately have "insert a F \<inter> (slot_nodes (Li(i := as)) \<union> slot_nodes Lc) = {}"
    using L(4) by blast
  then have "conn_lists h' inc' con (insert a F) (Ai(i := es)) Ac"
    using st(2) L(2,3) a(3) p by (intro conn_listsI) auto
  moreover have "a \<notin> F" using in_i L(4) by auto
  ultimately show ?thesis using st(1) p a(2) slot_frame_listeners [OF st(3)] by blast
qed

lemma conn_put_empty:
  assumes "conn_lists h inc con F Ai Ac" and i: "i = port_index lport" "i < MAX_NUMBER_OF_PORTS"
    and "Ai i = []"
  shows "put_port_sk h inc lport = Inr (None, h, inc)"
proof -
  from assms(1) obtain Li Lc where L: "tables_inv h inc con Li Lc"
    "map (psk_payload h) (Li i) = map Some (Ai i)"
    using i unfolding conn_lists_def by blast
  then have "dll h (inc i) []" "\<not> psa_lock (inc i)"
    using i(2) assms(4) by (auto simp: tables_inv_def table_inv_def)
  then show ?thesis
    using i by (simp add: put_port_sk_def pf_ops dll_Nil)
qed

lemma conn_queue_empty:
  assumes "conn_lists h inc con F Ai Ac" and i: "i = port_index lport" "i < MAX_NUMBER_OF_PORTS"
  shows "portsk_queue_empty inc lport = Inr (Ai i = [])"
proof -
  from assms(1) obtain Li Lc where L: "tables_inv h inc con Li Lc"
    "map (psk_payload h) (Li i) = map Some (Ai i)"
    using i unfolding conn_lists_def by blast
  then have "dll h (inc i) (Li i)" using i by (auto simp: tables_inv_def table_inv_def)
  then have "psa_head (inc i) = None \<longleftrightarrow> Li i = []" by (rule dll_head)
  also have "\<dots> \<longleftrightarrow> Ai i = []" using L(2) by auto
  finally show ?thesis using i by (auto simp: portsk_queue_empty_def get_slot_def)
qed

lemma conn_absent:
  assumes "conn_lists h inc con F Ai Ac" and i: "i = port_index lport" "i < MAX_NUMBER_OF_PORTS"
    and "find (\<lambda>e. snd e = (rport, rip)) (Ai i) = None"
  shows "remove_port_sk h inc lport rport rip = Inr (None, h, inc)"
proof -
  from assms(1) obtain Li Lc where L: "tables_inv h inc con Li Lc"
    "map (psk_payload h) (Li i) = map Some (Ai i)"
    using i unfolding conn_lists_def by blast
  then have "dll h (inc i) (Li i)" "\<not> psa_lock (inc i)"
    using i by (auto simp: tables_inv_def table_inv_def)
  moreover have "find (psk_matches h rport rip) (Li i) = None"
    using find_payload [OF L(2), of rport rip] assms(4) by (auto split: option.splits)
  ultimately show ?thesis using i by (intro remove_port_sk_absent)
qed

text \<open>
  Removing the first connection with the key, when it is the first of the list or not the last.
\<close>

lemma conn_remove:
  assumes rel: "conn_lists h inc con F Ai Ac" and i: "i = port_index lport" "i < MAX_NUMBER_OF_PORTS"
    and A: "Ai i = us @ e # vs" "us = [] \<or> vs \<noteq> []" "snd e = (rport, rip)"
    and first: "\<And>u. u \<in> set us \<Longrightarrow> snd u \<noteq> (rport, rip)"
  shows "\<exists>a h' inc'. remove_port_sk h inc lport rport rip = Inr (Some a, h', inc') \<and>
    conn_lists h' inc' con (insert a F) (Ai(i := us @ vs)) Ac \<and> same_listeners inc inc' \<and>
    psk_payload h' = psk_payload h \<and> psk_payload h a = Some e \<and> a \<notin> F"
proof -
  from rel obtain Li Lc where L: "tables_inv h inc con Li Lc"
    "\<And>i. i < MAX_NUMBER_OF_PORTS \<Longrightarrow> map (psk_payload h) (Li i) = map Some (Ai i)"
    "\<And>i. i < MAX_NUMBER_OF_PORTS \<Longrightarrow> map (psk_payload h) (Lc i) = map Some (Ac i)"
    "F \<inter> (slot_nodes Li \<union> slot_nodes Lc) = {}"
    by (rule conn_listsE) blast
  from L(2) [OF i(2)] A(1) obtain ys a zs where a: "Li i = ys @ a # zs" "psk_payload h a = Some e"
    "map (psk_payload h) ys = map Some us" "map (psk_payload h) zs = map Some vs"
    by (auto simp: map_eq_append_conv map_eq_Cons_conv)
  have m: "psk_matches h rport rip a" using psk_matches_payload_Some [OF a(2)] A(3) by simp
  have nm: "\<not> psk_matches h rport rip b" if "b \<in> set ys" for b
  proof -
    from that a(3) have "psk_payload h b \<in> set (map Some us)" by (metis image_eqI list.set_map)
    then obtain u where "u \<in> set us" "psk_payload h b = Some u" by auto
    with first psk_matches_payload_Some show ?thesis by blast
  qed
  have "ys = [] \<or> zs \<noteq> []" using A(2) a(3,4) by auto
  from tables_remove_fst [OF L(1) i a(1) this m nm] obtain h' inc' where
    st: "remove_port_sk h inc lport rport rip = Inr (Some a, h', inc')"
    "tables_inv h' inc' con (Li(i := ys @ zs)) Lc" "slot_frame i (set (ys @ zs)) h inc h' inc'"
    by blast
  from st(3) have p: "psk_payload h' = psk_payload h" by (simp add: slot_frame_def)
  have in_i: "a \<in> slot_nodes Li" using slot_nodes_mem [OF i(2), of a Li] a(1) by simp
  have "a \<notin> slot_nodes (Li(i := ys @ zs))"
  proof
    assume "a \<in> slot_nodes (Li(i := ys @ zs))"
    then obtain j where j: "j < MAX_NUMBER_OF_PORTS" "a \<in> set ((Li(i := ys @ zs)) j)"
      by (auto simp: slot_nodes_def)
    from L(1) i(2) a(1) have d: "distinct (ys @ a # zs)"
      by (metis tables_inv_def table_inv_def dll_def)
    from L(1) have sep: "set (Li i) \<inter> set (Li j) = {}" if "j \<noteq> i"
      using that i(2) j(1) by (auto simp: tables_inv_def table_inv_def)
    from j(2) d sep a(1) show False by (cases "j = i") auto
  qed
  moreover have "slot_nodes (Li(i := ys @ zs)) \<subseteq> slot_nodes Li"
    using slot_nodes_upd [OF i(2), of Li "ys @ zs"] slot_nodes_mem [OF i(2), of _ Li] a(1) by auto
  moreover have "a \<notin> slot_nodes Lc" using L(1) in_i by (auto simp: tables_inv_def)
  ultimately have "insert a F \<inter> (slot_nodes (Li(i := ys @ zs)) \<union> slot_nodes Lc) = {}"
    using L(4) by blast
  then have "conn_lists h' inc' con (insert a F) (Ai(i := us @ vs)) Ac"
    using st(2) L(2,3) a(3,4) p by (intro conn_listsI) auto
  moreover have "a \<notin> F" using in_i L(4) by auto
  ultimately show ?thesis using st(1) p a(2) slot_frame_listeners [OF st(3)] by blast
qed

text \<open>Two empty tables.\<close>

lemma conn_lists_empty: "conn_lists h empty_table empty_table F (\<lambda>_. []) (\<lambda>_. [])"
  by (rule conn_listsI [of _ _ _ "\<lambda>_. []" "\<lambda>_. []"])
    (auto simp: tables_inv_def table_inv_def slot_nodes_def dll_def empty_table_def empty_slot_def)

end
