(* ===== verification/Rdma_Xmit_Props.thy ===== *)
theory Rdma_Xmit_Props
  imports Rdma_Xmit
begin

text \<open>
  What the sending half guarantees in its configurations: which message reaches the ring, that
  the data is where the message says, that the lock is released, and where sends are lost.
\<close>

subsection \<open>Header and publication are one send on the ring\<close>

lemma xmit_header_publish:
  assumes "\<not> send_queue_lock st"
    and "send_metamessage (xmit_message sk type offset sz) (send_queue st) = Inr q"
  shows "\<exists>l q1. xmit_header sk type offset sz st = Inr (st\<lparr>send_queue_lock := l, send_queue := q1\<rparr>) \<and>
    publish_metamessage q1 = q"
proof (cases "get_free_metamessage (send_queue st)")
  case (Pair slot q0)
  show ?thesis
  proof (cases slot)
    case None
    then have "xmit_header sk type offset sz st = Inr (st\<lparr>send_queue_lock := False, send_queue := q0\<rparr>)"
      using Pair assms(1) by (simp add: xmit_header_def)
    moreover have "publish_metamessage q0 = q"
      using None Pair assms(2) by (simp add: send_metamessage_def)
    ultimately show ?thesis by blast
  next
    case (Some i)
    with Pair assms(2) obtain q1 where
      "fill_metamessage q0 i (xmit_message sk type offset sz) = Inr q1" "publish_metamessage q1 = q"
      by (auto simp: send_metamessage_def rbind_eq_Inr)
    with Some Pair assms(1) show ?thesis by (auto simp: xmit_header_def)
  qed
qed

definition trigger_result :: "xmit_env \<Rightarrow> nat \<Rightarrow> int" where
  "trigger_result env n = (if sci_trigger_interrupt env n = ESCI_OK env then 0 else - 1)"

lemma xmit_publish_eq:
  "xmit_publish env (st\<lparr>send_queue_lock := l, send_queue := q\<rparr>) =
     (trigger_result env (interrupts st),
      st\<lparr>send_queue := publish_metamessage q, send_queue_lock := False, interrupts := interrupts st + 1\<rparr>)"
  by (simp add: xmit_publish_def trigger_result_def sci_error_handler_def Let_def)

definition needs_dma :: "config \<Rightarrow> u32 \<Rightarrow> bool" where
  "needs_dma cfg type \<longleftrightarrow> \<not> PIO cfg \<and> \<not> MAP_USER_PAGES_RECV cfg \<and> type = REGULAR"

lemma unlocked_eq [simp]: "\<not> send_queue_lock st \<Longrightarrow> st\<lparr>send_queue_lock := False\<rparr> = st"
  by (cases st) simp

text \<open>Once the data is placed and no DMA is needed, \<open>rdma_xmit\<close> is a send and a trigger.\<close>

lemma rdma_xmit_placed:
  assumes "(if type = REGULAR then
              (if MAP_USER_PAGES_SEND cfg then xmit_map_pages env start nr_pages off st
               else xmit_copy env start sz st)
            else Inr (Inr 0, st)) = Inr (Inr offset, st1)"
    and "\<not> send_queue_lock st1" and "\<not> needs_dma cfg type"
    and "send_metamessage (xmit_message sk type offset sz) (send_queue st1) = Inr q"
  shows "rdma_xmit cfg env sk type start nr_pages off sz st =
    Inr (trigger_result env (interrupts st1),
         st1\<lparr>send_queue := q, send_queue_lock := False, interrupts := interrupts st1 + 1\<rparr>)"
proof -
  from xmit_header_publish [OF assms(2,4)] obtain l q1 where
    h: "xmit_header sk type offset sz st1 = Inr (st1\<lparr>send_queue_lock := l, send_queue := q1\<rparr>)"
    "publish_metamessage q1 = q" by blast
  have d: "xmit_dma cfg env type offset sz s = Inr (None, s)" for s
    using assms(3) by (auto simp: xmit_dma_def needs_dma_def)
  show ?thesis
    unfolding rdma_xmit_def assms(1)
    by (simp add: h d xmit_publish_eq)
qed

lemma send_queue_upd [simp]:
  "st\<lparr>send_queue := q, send_queue_lock := False, interrupts := n\<rparr> = st\<lparr>send_queue := q, interrupts := n\<rparr>"
  if "\<not> send_queue_lock st"
  using that by (cases st) simp

subsection \<open>Properties\<close>

definition demo_env :: xmit_env where
  "demo_env = \<lparr>env_osif = demo_osif, ESCI_OK = 0, aperture_range = True,
     get_user_pages_locked = (\<lambda>a n. (int (unat n), map (\<lambda>k. unat (a div 4096) + k) [0..<unat n])),
     vmalloc_ok = True, osif_iommu_handle_address = (\<lambda>h. h), osif_iommu_subrange_start = 0x10000,
     dma_handle_aperture = 0, phys_end_seen = [], user_mem = (\<lambda>a. ucast a),
     dis_start_dma_transfer = (\<lambda>a b c. 0), dma_callback_status = (\<lambda>a b c. Some 0),
     callback_error_init = 0, sci_trigger_interrupt = (\<lambda>n. 0)\<rparr>"

definition demo_sk :: inet_sock where
  "demo_sk = \<lparr>inet_saddr = 1, inet_daddr = 2, inet_sport = 0x931F, inet_dport = 0x931F, inet_num = 0\<rparr>"

definition demo_rdma :: "nat \<Rightarrow> nat \<Rightarrow> nat \<Rightarrow> rdma" where
  "demo_rdma s e sem = \<lparr>send_queue = demo_ring s e, recv_queue = demo_ring 0 0, send_queue_lock = False,
     recv_queue_lock = False, client_semaphore = sem, interrupts = 0, iommu = demo_iommu,
     send_aperture = (\<lambda>_. 0)\<rparr>"

text \<open>
  C10. A control message (CONNECT, CLOSE, CONNECT_SUCCESS) on a ring with room, in every build
  configuration: \<open>rdma_xmit\<close> appends exactly one message, carrying the socket's addresses and
  ports and the type, to what the other machine will read, triggers one interrupt, changes
  nothing else, and returns 0, or -1 when only the trigger failed although the message is
  already published.
\<close>

theorem control_message_sent:
  assumes "type \<noteq> REGULAR" and "\<not> send_queue_lock st"
    and "ring_ok (send_queue st)" and "\<not> ring_full (send_queue st)"
  shows "\<exists>q. rdma_xmit cfg env sk type start nr_pages off sz st =
      Inr (if sci_trigger_interrupt env (interrupts st) = ESCI_OK env then 0 else - 1,
           st\<lparr>send_queue := q, interrupts := interrupts st + 1\<rparr>) \<and> ring_ok q \<and>
    map (rq_queue q) (pending q) = map (rq_queue (send_queue st)) (pending (send_queue st)) @
      [\<lparr>src_ip = inet_saddr sk, dest_ip = inet_daddr sk, src_port = ucast (inet_sport sk),
        dest_port = ucast (inet_dport sk), msg_type = type, offset_from_aperture = 0, msg_size = sz\<rparr>]"
proof -
  from send_not_full [OF assms(3,4)] obtain q where
    q: "send_metamessage (xmit_message sk type 0 sz) (send_queue st) = Inr q" "ring_ok q"
    "map (rq_queue q) (pending q) =
       map (rq_queue (send_queue st)) (pending (send_queue st)) @ [xmit_message sk type 0 sz]"
    by blast
  have "rdma_xmit cfg env sk type start nr_pages off sz st =
      Inr (trigger_result env (interrupts st), st\<lparr>send_queue := q, interrupts := interrupts st + 1\<rparr>)"
    using rdma_xmit_placed [of type cfg env start nr_pages off st sz 0 st sk q] assms(1,2) q(1)
    by (simp add: needs_dma_def)
  with q show ?thesis by (auto simp: trigger_result_def xmit_message_def)
qed

theorem control_message_sent_witness:
  "\<exists>q. rdma_xmit default_config demo_env demo_sk CONNECT 0 0 0 0 (demo_rdma 3 5 1) =
     Inr (0, (demo_rdma 3 5 1)\<lparr>send_queue := q, interrupts := 1\<rparr>) \<and> length (pending q) = 3"
proof -
  have "ring_ok (demo_ring 3 5)" "pending (demo_ring 3 5) = slots_between 3 5" "\<not> ring_full (demo_ring 3 5)"
    using demo_ring_pending [of 3 5] by (simp_all add: LTCP_MSG_QUEUE_SIZE ring_full_def demo_ring_def)
  then show ?thesis
    using control_message_sent [of CONNECT "demo_rdma 3 5 1" default_config demo_env demo_sk 0 0 0 0]
    by (auto simp: demo_rdma_def demo_env_def local_tcp_type_defs slots_between_def
        dest!: arg_cong [where f = length])
qed

text \<open>
  C11. A regular message in the shipped configuration: when the user pages are pinned and mapped,
  \<open>rdma_xmit\<close> publishes one message whose offset points into the mapped block, at the first
  byte of the buffer, and every page of the buffer is mapped in the block in order.
\<close>

theorem regular_message_sent:
  assumes "osif_contract (env_osif env)" and "OSIF_ERR_OK (env_osif env) \<noteq> - 1"
    and "OSIF_PAGE_SIZE (env_osif env) \<noteq> 0"
    and "unat (OSIF_PAGE_SIZE (env_osif env)) * nat (sint (ucast nr_pages :: u32)) \<le> 2 ^ 64"
    and "get_user_pages_locked env (start - ucast off) nr_pages = (err, page_list)"
    and "of_int err = nr_pages" and "vmalloc_ok env"
    and "osif_iommu_map_user_pages (env_osif env) (aperture_range env) page_list
           (sint (ucast nr_pages :: u32)) None (iommu st) = Inr (OSIF_ERR_OK (env_osif env), h, io)"
    and "\<not> send_queue_lock st" and "ring_ok (send_queue st)" and "\<not> ring_full (send_queue st)"
  shows "\<exists>block q rc. rdma_xmit default_config env sk REGULAR start nr_pages off sz st =
      Inr (rc, st\<lparr>iommu := io, send_queue := q, interrupts := interrupts st + 1\<rparr>) \<and>
    map (rq_queue q) (pending q) = map (rq_queue (send_queue st)) (pending (send_queue st)) @
      [xmit_message sk REGULAR (osif_iommu_handle_address env block - osif_iommu_subrange_start env
         + ucast off) sz] \<and>
    (\<forall>j < nat (sint (ucast nr_pages :: u32)). io_dom io (block_addr (env_osif env) block j) =
       Some (page_to_phys (env_osif env) (page_list ! j)))"
proof -
  from map_user_pages_maps [OF assms(1-4,8)] obtain block where
    b: "h = Some block" "\<forall>j < nat (sint (ucast nr_pages :: u32)). io_dom io (block_addr (env_osif env) block j) =
       Some (page_to_phys (env_osif env) (page_list ! j))" by blast
  let ?off = "osif_iommu_handle_address env block - osif_iommu_subrange_start env + ucast off"
  from send_not_full [OF assms(10,11)] obtain q where
    q: "send_metamessage (xmit_message sk REGULAR ?off sz) (send_queue st) = Inr q"
    "map (rq_queue q) (pending q) =
       map (rq_queue (send_queue st)) (pending (send_queue st)) @ [xmit_message sk REGULAR ?off sz]"
    by blast
  have "xmit_map_pages env start nr_pages off st = Inr (Inr ?off, st\<lparr>iommu := io\<rparr>)"
    using assms(5-8) b(1) by (simp add: xmit_map_pages_def)
  then have "rdma_xmit default_config env sk REGULAR start nr_pages off sz st =
      Inr (trigger_result env (interrupts st),
           st\<lparr>iommu := io, send_queue := q, interrupts := interrupts st + 1\<rparr>)"
    using rdma_xmit_placed [of REGULAR default_config env start nr_pages off st sz ?off "st\<lparr>iommu := io\<rparr>" sk q]
      assms(9) q(1) by (simp add: needs_dma_def default_config_def)
  with b(2) q(2) show ?thesis by blast
qed

theorem regular_message_sent_witness:
  "\<exists>q rc. rdma_xmit default_config demo_env demo_sk REGULAR 0x5010 2 0x10 0x1000 (demo_rdma 0 0 1) =
     Inr (rc, (demo_rdma 0 0 1)\<lparr>iommu := \<lparr>io_dom = [0x10000 \<mapsto> 0x5000, 0x11000 \<mapsto> 0x6000], io_blocks = [0x10000]\<rparr>,
       send_queue := q, interrupts := 1\<rparr>) \<and> length (pending q) = 1"
proof -
  let ?io = "\<lparr>io_dom = [0x10000 \<mapsto> 0x5000, 0x11000 \<mapsto> 0x6000], io_blocks = [0x10000 :: u64]\<rparr> :: iommu_state"
  have run: "osif_iommu_map_user_pages demo_osif True [5, 6] 2 None demo_iommu =
      Inr (OSIF_ERR_OK demo_osif, Some 0x10000, ?io)"
    by (simp add: osif_iommu_map_user_pages_def demo_osif_def demo_iommu_def map_loop.simps)
  have ring: "ring_ok (demo_ring 0 0)" "pending (demo_ring 0 0) = []" "\<not> ring_full (demo_ring 0 0)"
    using demo_ring_pending [of 0 0]
    by (simp_all add: LTCP_MSG_QUEUE_SIZE ring_full_def demo_ring_def slots_between_def)
  have e: "env_osif demo_env = demo_osif" "OSIF_ERR_OK demo_osif = 0" "OSIF_PAGE_SIZE demo_osif = 4096"
    "vmalloc_ok demo_env" "aperture_range demo_env" "send_queue (demo_rdma 0 0 1) = demo_ring 0 0"
    "\<not> send_queue_lock (demo_rdma 0 0 1)" "iommu (demo_rdma 0 0 1) = demo_iommu" "interrupts (demo_rdma 0 0 1) = 0"
    "get_user_pages_locked demo_env (0x5010 - 0x10) 2 = (2, [5, 6])"
    by (simp_all add: demo_env_def demo_osif_def demo_rdma_def upt_rec)
  from regular_message_sent [of demo_env 2 "0x5010" "0x10" 2 "[5, 6]" "demo_rdma 0 0 1" "Some 0x10000" ?io
      demo_sk "0x1000"] demo_osif_contract run ring e
  obtain block q rc where q: "rdma_xmit default_config demo_env demo_sk REGULAR 0x5010 2 0x10 0x1000 (demo_rdma 0 0 1) =
      Inr (rc, (demo_rdma 0 0 1)\<lparr>iommu := ?io, send_queue := q, interrupts := 1\<rparr>)"
    "map (rq_queue q) (pending q) = [xmit_message demo_sk REGULAR
       (osif_iommu_handle_address demo_env block - osif_iommu_subrange_start demo_env + 0x10) 0x1000]"
    by auto
  have "length (pending q) = 1" using q(2) by (metis length_map length_Cons list.size(3) One_nat_def)
  with q(1) show ?thesis by blast
qed

text \<open>
  C9. Lock discipline of the send path: in every configuration, whatever the kernel and the
  Dolphin library return, when \<open>rdma_xmit\<close> returns the send queue lock is free again.
\<close>

theorem rdma_xmit_releases_lock:
  assumes "\<not> send_queue_lock st" and "rdma_xmit cfg env sk type start nr_pages off sz st = Inr (rc, st')"
  shows "\<not> send_queue_lock st'"
proof -
  have m: "send_queue_lock s' = send_queue_lock s" if "xmit_map_pages env start nr_pages off s = Inr (r, s')" for s r s'
    using that by (auto simp: xmit_map_pages_def rbind_eq_Inr Let_def split: prod.splits if_splits option.splits)
  have c: "send_queue_lock s' = send_queue_lock s" if "xmit_copy env start sz s = Inr (r, s')" for s r s'
    using that by (auto simp: xmit_copy_def rbind_eq_Inr Let_def split: if_splits)
  have d: "\<not> send_queue_lock s'" if "xmit_dma cfg env type o' sz s = Inr (Some r, s')" for o' s r s'
    using that by (auto simp: xmit_dma_def rbind_eq_Inr Let_def split: if_splits prod.splits)
  obtain placed st1 where st1: "\<not> send_queue_lock st1" and
    rest: "(case placed of Inl rc \<Rightarrow> Inr (rc, st1)
     | Inr offset \<Rightarrow>
         rbind (xmit_header sk type offset sz st1) (\<lambda>st2.
         rbind (xmit_dma cfg env type offset sz st2) (\<lambda>(early, st3).
         case early of Some rc \<Rightarrow> Inr (rc, st3) | None \<Rightarrow> Inr (xmit_publish env st3)))) = Inr (rc, st')"
  proof (cases "if type = REGULAR then
      (if MAP_USER_PAGES_SEND cfg then xmit_map_pages env start nr_pages off st
       else xmit_copy env start sz st) else Inr (Inr 0, st)")
    case (Inl e)
    with assms(2) show ?thesis by (simp add: rdma_xmit_def)
  next
    case (Inr ps)
    obtain placed st1 where ps: "ps = (placed, st1)" by (cases ps)
    have "\<not> send_queue_lock st1"
      using Inr ps assms(1) by (auto split: if_splits dest: m c)
    with that [of st1 placed] Inr ps assms(2) show ?thesis by (simp add: rdma_xmit_def)
  qed
  show ?thesis
  proof (cases placed)
    case (Inl r)
    with rest st1 show ?thesis by simp
  next
    case (Inr offset)
    show ?thesis
    proof (cases "xmit_header sk type offset sz st1")
      case h: (Inl e)
      with rest Inr show ?thesis by simp
    next
      case h: (Inr st2)
      show ?thesis
      proof (cases "xmit_dma cfg env type offset sz st2")
        case (Inl e)
        with rest Inr h show ?thesis by simp
      next
        case x: (Inr es)
        obtain early st3 where es: "es = (early, st3)" by (cases es)
        show ?thesis
        proof (cases early)
          case None
          with rest Inr h x es show ?thesis by (auto simp: xmit_publish_def Let_def split: if_splits)
        next
          case (Some r)
          with x es have "\<not> send_queue_lock st3" by (auto dest: d)
          with rest Inr h x es Some show ?thesis by simp
        qed
      qed
    qed
  qed
qed

theorem rdma_xmit_releases_lock_witness:
  "\<exists>rc st'. rdma_xmit default_config (demo_env\<lparr>vmalloc_ok := False\<rparr>) demo_sk REGULAR 0x5010 2 0x10 0x1000
      (demo_rdma 0 0 1) = Inr (rc, st') \<and> \<not> send_queue_lock st'"
proof -
  have "rdma_xmit default_config (demo_env\<lparr>vmalloc_ok := False\<rparr>) demo_sk REGULAR 0x5010 2 0x10 0x1000
      (demo_rdma 0 0 1) = Inr (- 1, demo_rdma 0 0 1)"
    by (simp add: rdma_xmit_def default_config_def xmit_map_pages_def demo_env_def)
  from rdma_xmit_releases_lock [OF _ this] this show ?thesis by (auto simp: demo_rdma_def)
qed

text \<open>
  A control message sent on a full ring is reported as sent: in every configuration
  \<open>rdma_xmit\<close> returns 0 when the trigger succeeds, yet at most that one message is left of the
  at least 1557 that were pending.
\<close>

theorem full_ring_reports_success:
  assumes "type \<noteq> REGULAR" and "\<not> send_queue_lock st"
    and "ring_ok (send_queue st)" and "ring_full (send_queue st)"
    and "sci_trigger_interrupt env (interrupts st) = ESCI_OK env"
  shows "1557 \<le> length (pending (send_queue st)) \<and>
    (\<exists>st'. rdma_xmit cfg env sk type start nr_pages off sz st = Inr (0, st') \<and>
       length (pending (send_queue st')) \<le> 1)"
proof -
  from send_full [OF assms(3,4), of "xmit_message sk type 0 sz"] obtain q where
    q: "ring_capacity \<le> length (pending (send_queue st))"
    "send_metamessage (xmit_message sk type 0 sz) (send_queue st) = Inr q"
    "map (rq_queue q) (pending q) = [] \<or> map (rq_queue q) (pending q) = [xmit_message sk type 0 sz]"
    by (elim conjE exE) (rule that)
  from q(3) have one: "length (pending q) \<le> 1" by (rule map_at_most_one)
  have "rdma_xmit cfg env sk type start nr_pages off sz st =
      Inr (0, st\<lparr>send_queue := q, interrupts := interrupts st + 1\<rparr>)"
    using rdma_xmit_placed [of type cfg env start nr_pages off st sz 0 st sk q] assms(1,2,5) q(2)
    by (simp add: needs_dma_def trigger_result_def)
  moreover have "1557 \<le> length (pending (send_queue st))"
    using q(1) unfolding ring_capacity_def LTCP_MSG_QUEUE_SIZE by simp
  moreover have "length (pending (send_queue (st\<lparr>send_queue := q, interrupts := interrupts st + 1\<rparr>))) \<le> 1"
    using one by simp
  ultimately show ?thesis by (intro conjI exI)
qed

theorem full_ring_reports_success_witness:
  "length (pending (demo_ring 5 4)) = 1557 \<and>
   (\<exists>st'. rdma_xmit default_config demo_env demo_sk CLOSE 0 0 0 0 (demo_rdma 5 4 1) = Inr (0, st') \<and>
      length (pending (send_queue st')) \<le> 1)"
proof -
  have d: "ring_ok (demo_ring 5 4)" "pending (demo_ring 5 4) = slots_between 5 4"
    using demo_ring_pending [of 5 4] by (simp_all add: LTCP_MSG_QUEUE_SIZE)
  moreover have "ring_full (demo_ring 5 4)"
    by (simp add: ring_full_def demo_ring_def)
  ultimately show ?thesis
    using full_ring_reports_success [of CLOSE "demo_rdma 5 4 1" demo_env default_config demo_sk 0 0 0 0]
    by (simp add: demo_rdma_def demo_env_def local_tcp_type_defs slots_between_def LTCP_MSG_QUEUE_SIZE)
qed

subsection \<open>The copying configuration\<close>

definition CAP :: nat where "CAP = unat APERTURE_SIZE_QUEUE"

lemma CAP: "CAP = 134217728"
  by (simp add: CAP_def APERTURE_SIZE_QUEUE)

lemma space_left_unat:
  assumes "unat (phys_start q) < CAP" and "unat (phys_end q) < CAP"
  shows "unat (space_left q) =
    (if unat (phys_start q) < unat (phys_end q) then unat (phys_end q) - unat (phys_start q)
     else CAP - unat (phys_start q) + unat (phys_end q))"
proof -
  define s e where "s = unat (phys_start q)" and "e = unat (phys_end q)"
  have se: "phys_start q = of_nat s" "phys_end q = of_nat e" by (simp_all add: s_def e_def)
  have b: "s < 134217728" "e < 134217728" using assms by (simp_all add: s_def e_def CAP)
  show ?thesis
  proof (cases "s < e")
    case True
    then have "phys_start q < phys_end q" by (simp add: s_def e_def word_less_nat_alt)
    with True show ?thesis
      by (simp add: space_left_def s_def e_def unat_sub word_less_nat_alt word_le_nat_alt)
  next
    case False
    then have n: "\<not> phys_start q < phys_end q" by (simp add: s_def e_def word_less_nat_alt)
    have u: "ucast (phys_start q) = (of_nat s :: u64)" "ucast (phys_end q) = (of_nat e :: u64)"
      by (simp_all add: s_def e_def)
    define t where "t = 134217728 - s + e"
    have t: "t < 2 ^ 32" using b False by (simp add: t_def)
    have "(APERTURE_SIZE_QUEUE - ucast (phys_start q)) + ucast (phys_end q) = (of_nat t :: u64)"
      using b by (simp add: u APERTURE_SIZE_QUEUE of_nat_diff t_def)
    then have "space_left q = ucast (of_nat t :: u64)"
      using n by (simp add: space_left_def)
    then have "unat (space_left q) = t"
      using t by (simp add: unsigned_ucast_eq unsigned_of_nat take_bit_nat_eq_self)
    with False show ?thesis by (simp add: CAP t_def s_def [symmetric] e_def [symmetric])
  qed
qed

lemma wait_space_post:
  "wait_space q sz es = Inr q' \<Longrightarrow>
     unat sz \<le> unat (space_left q') \<and> (\<exists>e. q' = q\<lparr>phys_end := e\<rparr> \<and> (e = phys_end q \<or> e \<in> set es))"
proof (induction q sz es rule: wait_space.induct)
  case (1 q sz)
  then show ?case
    by (auto simp: word_less_nat_alt unat_ucast_u32 split: if_splits intro!: exI [of _ "phys_end q"])
next
  case (2 q sz e es)
  show ?case
  proof (cases "ucast (space_left q) < sz")
    case True
    with "2.IH" "2.prems" show ?thesis by (auto; metis)
  next
    case False
    with "2.prems" show ?thesis
      by (auto simp: word_less_nat_alt unat_ucast_u32 intro!: exI [of _ "phys_end q"])
  qed
qed

lemma copy_from_user_ok:
  "dst + n \<le> CAP \<Longrightarrow> copy_from_user mem dst user src n =
     Inr (\<lambda>k. if dst \<le> k \<and> k < dst + n then user (src + of_nat (k - dst)) else mem k)"
  by (simp add: copy_from_user_def CAP_def)

lemma cyclic_offset:
  "o' < CAP \<Longrightarrow> k < CAP \<Longrightarrow> (o' + k) mod CAP = (if o' + k < CAP then o' + k else o' + k - CAP)"
  by (simp add: mod_if CAP)

lemma xmit_copy_places:
  assumes q: "wait_space (send_queue st) sz (phys_end_seen env) = Inr q"
    and b: "unat (phys_start q) < CAP" "unat (phys_end q) < CAP"
  defines "off \<equiv> unat (phys_start q)"
  shows "\<exists>ps mem. xmit_copy env start sz st =
      Inr (Inr (ucast (phys_start q)), st\<lparr>send_queue := q\<lparr>phys_start := ps\<rparr>, send_aperture := mem\<rparr>) \<and>
    unat ps = (off + unat sz) mod CAP \<and>
    (\<forall>k < unat sz. mem ((off + k) mod CAP) = user_mem env (start + of_nat k)) \<and>
    (\<forall>a. (\<forall>k < unat sz. a \<noteq> (off + k) mod CAP) \<longrightarrow> mem a = send_aperture st a)"
proof -
  define s where "s = unat sz"
  have s: "sz = of_nat s" by (simp add: s_def)
  have sl: "s \<le> CAP"
    using wait_space_post [OF q] space_left_unat [OF b] b by (auto simp: s_def CAP split: if_splits)
  have o: "off < CAP" using b by (simp add: off_def)
  have uo: "unat (ucast (phys_start q) :: u64) = off" by (simp add: off_def unat_ucast_u32)
  have po: "ucast (phys_start q) = (of_nat off :: u64)" using uo by (metis word_nat_eq)
  have usum: "unat (ucast (phys_start q) + sz) = off + s"
    using unat_add_of_nat [of "ucast (phys_start q)" s] uo o sl s by (simp add: CAP)
  show ?thesis
  proof (cases "CAP \<le> off + s")
    case True
    then have c: "APERTURE_SIZE_QUEUE \<le> ucast (phys_start q) + sz"
      by (simp add: word_le_nat_alt usum CAP_def)
    have n: "unat (APERTURE_SIZE_QUEUE - ucast (phys_start q)) = CAP - off"
      using o by (simp add: po CAP_def unat_sub_of_nat)
    have r: "unat (sz - (APERTURE_SIZE_QUEUE - ucast (phys_start q))) = s - (CAP - off)"
      using n True by (simp add: unat_sub word_le_nat_alt s_def)
    let ?m1 = "\<lambda>k. if off \<le> k \<and> k < CAP then user_mem env (start + of_nat (k - off)) else send_aperture st k"
    let ?m2 = "\<lambda>k. if k < s - (CAP - off)
      then user_mem env (start + (APERTURE_SIZE_QUEUE - ucast (phys_start q)) + of_nat k) else ?m1 k"
    let ?ps = "ucast (ucast (phys_start q) + sz - APERTURE_SIZE_QUEUE) :: u32"
    have run: "xmit_copy env start sz st =
      Inr (Inr (ucast (phys_start q)), st\<lparr>send_queue := q\<lparr>phys_start := ?ps\<rparr>, send_aperture := ?m2\<rparr>)"
      using c q o sl by (simp add: xmit_copy_def Let_def n r uo copy_from_user_ok cong: if_cong)
    have "unat (ucast (phys_start q) + sz - APERTURE_SIZE_QUEUE) = off + s - CAP"
      using c usum by (simp add: unat_sub CAP_def)
    then have ps: "unat ?ps = (off + s) mod CAP"
      using o sl True by (simp add: unsigned_ucast_eq take_bit_nat_eq_self CAP mod_if)
    have nn: "APERTURE_SIZE_QUEUE - ucast (phys_start q) = of_nat (CAP - off)"
      using n by (metis word_nat_eq)
    have data: "?m2 ((off + k) mod CAP) = user_mem env (start + of_nat k)" if "k < s" for k
      using that o sl by (cases "off + k < CAP") (auto simp: cyclic_offset nn of_nat_diff algebra_simps)
    have frame: "?m2 a = send_aperture st a" if "\<forall>k < s. a \<noteq> (off + k) mod CAP" for a
    proof -
      have "\<not> a < s - (CAP - off)"
      proof
        assume a: "a < s - (CAP - off)"
        with o sl have "a + CAP - off < s" "off + (a + CAP - off) = a + CAP" "a < CAP" by linarith+
        moreover from this have "a = (off + (a + CAP - off)) mod CAP" by simp
        ultimately show False using that by blast
      qed
      moreover have "\<not> (off \<le> a \<and> a < CAP)"
      proof
        assume a: "off \<le> a \<and> a < CAP"
        with True have "a - off < s" by linarith
        moreover from a have "a = (off + (a - off)) mod CAP" by simp
        ultimately show False using that by blast
      qed
      ultimately show ?thesis by auto
    qed
    from run ps data frame show ?thesis unfolding s_def by blast
  next
    case False
    then have c: "\<not> APERTURE_SIZE_QUEUE \<le> ucast (phys_start q) + sz"
      by (simp add: word_le_nat_alt usum CAP_def)
    let ?ps = "ucast (ucast (phys_start q) + sz) :: u32"
    let ?m1 = "\<lambda>k. if off \<le> k \<and> k < off + s then user_mem env (start + of_nat (k - off)) else send_aperture st k"
    have run: "xmit_copy env start sz st =
      Inr (Inr (ucast (phys_start q)), st\<lparr>send_queue := q\<lparr>phys_start := ?ps\<rparr>, send_aperture := ?m1\<rparr>)"
      using c q o sl False by (simp add: xmit_copy_def Let_def uo s_def [symmetric] copy_from_user_ok)
    have ps: "unat ?ps = (off + s) mod CAP"
      using usum False by (simp add: unsigned_ucast_eq take_bit_nat_eq_self CAP)
    have "?m1 ((off + k) mod CAP) = user_mem env (start + of_nat k)" if "k < s" for k
      using that False by simp
    moreover have "?m1 a = send_aperture st a" if "\<forall>k < s. a \<noteq> (off + k) mod CAP" for a
    proof -
      have "\<not> (off \<le> a \<and> a < off + s)"
      proof
        assume a: "off \<le> a \<and> a < off + s"
        then have "a - off < s" by linarith
        moreover from a False have "a = (off + (a - off)) mod CAP" by simp
        ultimately show False using that by blast
      qed
      then show ?thesis by auto
    qed
    ultimately show ?thesis using run ps unfolding s_def by blast
  qed
qed

text \<open>
  The copying build: when the wait for space ends, \<open>rdma_xmit\<close> places the user's bytes in the
  send aperture cyclically from \<open>phys_start\<close>, split at the end of the 128 MiB when necessary,
  never outside it, overwrites nothing else, advances \<open>phys_start\<close> modulo the aperture and
  publishes exactly one message that names the old \<open>phys_start\<close> and the size.
\<close>

theorem copied_message_sent:
  assumes "\<not> MAP_USER_PAGES_SEND cfg" and "MAP_USER_PAGES_RECV cfg \<or> PIO cfg"
    and "wait_space (send_queue st) sz (phys_end_seen env) = Inr q"
    and "unat (phys_start q) < 134217728" and "unat (phys_end q) < 134217728"
    and "\<not> send_queue_lock st" and "ring_ok q" and "\<not> ring_full q"
  shows "\<exists>rc st'. rdma_xmit cfg env sk REGULAR start nr_pages off sz st = Inr (rc, st') \<and>
    map (rq_queue (send_queue st')) (pending (send_queue st')) = map (rq_queue q) (pending q) @
      [xmit_message sk REGULAR (ucast (phys_start q)) sz] \<and>
    (\<forall>k < unat sz. send_aperture st' ((unat (phys_start q) + k) mod 134217728) = user_mem env (start + of_nat k)) \<and>
    (\<forall>a. (\<forall>k < unat sz. a \<noteq> (unat (phys_start q) + k) mod 134217728) \<longrightarrow>
       send_aperture st' a = send_aperture st a)"
proof -
  from xmit_copy_places [OF assms(3), of start] assms(4,5) obtain ps mem where
    p: "xmit_copy env start sz st =
      Inr (Inr (ucast (phys_start q)), st\<lparr>send_queue := q\<lparr>phys_start := ps\<rparr>, send_aperture := mem\<rparr>)"
    "\<forall>k < unat sz. mem ((unat (phys_start q) + k) mod CAP) = user_mem env (start + of_nat k)"
    "\<forall>a. (\<forall>k < unat sz. a \<noteq> (unat (phys_start q) + k) mod CAP) \<longrightarrow> mem a = send_aperture st a"
    by (auto simp: CAP)
  let ?st1 = "st\<lparr>send_queue := q\<lparr>phys_start := ps\<rparr>, send_aperture := mem\<rparr>"
  let ?msg = "xmit_message sk REGULAR (ucast (phys_start q)) sz"
  have ring: "ring_ok (q\<lparr>phys_start := ps\<rparr>)" "\<not> ring_full (q\<lparr>phys_start := ps\<rparr>)"
    "pending (q\<lparr>phys_start := ps\<rparr>) = pending q"
    using assms(7,8) by (simp_all add: ring_ok_def ring_full_def pending_def)
  from send_not_full [OF ring(1,2), of ?msg] obtain q' where
    q': "send_metamessage ?msg (q\<lparr>phys_start := ps\<rparr>) = Inr q'"
    "map (rq_queue q') (pending q') = map (rq_queue q) (pending q) @ [?msg]"
    using ring(3) by auto
  have "rdma_xmit cfg env sk REGULAR start nr_pages off sz st =
      Inr (trigger_result env (interrupts ?st1),
           ?st1\<lparr>send_queue := q', send_queue_lock := False, interrupts := interrupts ?st1 + 1\<rparr>)"
    using assms(1,2,6) p(1) q'(1)
    by (intro rdma_xmit_placed) (auto simp: needs_dma_def)
  with q'(2) p(2,3) show ?thesis by (simp add: CAP)
qed

definition copy_config :: config where
  "copy_config = default_config\<lparr>MAP_USER_PAGES_SEND := False\<rparr>"

theorem copied_message_sent_witness:
  "\<exists>rc st'. rdma_xmit copy_config demo_env demo_sk REGULAR 0x5010 2 0x10 3 (demo_rdma 0 0 1) = Inr (rc, st') \<and>
     send_aperture st' 2 = 0x12 \<and> send_aperture st' 3 = 0"
proof -
  have ring: "ring_ok (demo_ring 0 0)" "\<not> ring_full (demo_ring 0 0)"
    using demo_ring_pending [of 0 0]
    by (simp_all add: LTCP_MSG_QUEUE_SIZE ring_full_def demo_ring_def)
  have w: "wait_space (send_queue (demo_rdma 0 0 1)) 3 (phys_end_seen demo_env) = Inr (demo_ring 0 0)"
    by (simp add: demo_rdma_def demo_env_def demo_ring_def space_left_def APERTURE_SIZE_QUEUE)
  have c: "\<not> MAP_USER_PAGES_SEND copy_config" "MAP_USER_PAGES_RECV copy_config"
    "\<not> send_queue_lock (demo_rdma 0 0 1)" "unat (phys_start (demo_ring 0 0)) = 0" "unat (phys_end (demo_ring 0 0)) = 0"
    by (simp_all add: copy_config_def default_config_def demo_rdma_def demo_ring_def)
  from copied_message_sent [of copy_config "demo_rdma 0 0 1" 3 demo_env "demo_ring 0 0" demo_sk "0x5010" 2 "0x10"]
    w c ring
  obtain rc st' where st': "rdma_xmit copy_config demo_env demo_sk REGULAR 0x5010 2 0x10 3 (demo_rdma 0 0 1) = Inr (rc, st')"
    "\<forall>k < 3. send_aperture st' (k mod 134217728) = user_mem demo_env (0x5010 + of_nat k)"
    "\<forall>a. (\<forall>k < 3. a \<noteq> k mod 134217728) \<longrightarrow> send_aperture st' a = send_aperture (demo_rdma 0 0 1) a"
    by auto
  have "send_aperture st' 2 = 0x12"
    using spec [OF st'(2), of 2] by (simp add: demo_env_def)
  moreover have "send_aperture st' 3 = 0"
    using spec [OF st'(3), of 3] by (simp add: demo_rdma_def)
  ultimately show ?thesis using st'(1) by blast
qed

text \<open>
  Filling the send aperture makes it look empty: after a copy of exactly the bytes
  \<open>space_left\<close> reports, \<open>phys_start\<close> has met \<open>phys_end\<close> and \<open>space_left\<close> reports the whole
  128 MiB, so a following send of any size up to that passes the wait and overwrites unread data.
\<close>

theorem exact_fill_looks_empty:
  assumes "sz = ucast (space_left q)" and "send_queue st = q"
    and "unat (phys_start q) < 134217728" and "unat (phys_end q) < 134217728"
  shows "\<exists>offset st'. xmit_copy env start sz st = Inr (Inr offset, st') \<and>
    phys_start (send_queue st') = phys_end (send_queue st') \<and>
    unat (space_left (send_queue st')) = 134217728 \<and>
    (\<forall>sz'. unat sz' \<le> 134217728 \<longrightarrow> wait_space (send_queue st') sz' [] = Inr (send_queue st'))"
proof -
  have u: "unat sz = unat (space_left q)" using assms(1) by (simp add: unat_ucast_u32)
  have w: "wait_space (send_queue st) sz (phys_end_seen env) = Inr q"
    using assms(1,2) by (cases "phys_end_seen env") simp_all
  from xmit_copy_places [OF w, of start] assms(3,4) obtain ps mem where
    p: "xmit_copy env start sz st =
      Inr (Inr (ucast (phys_start q)), st\<lparr>send_queue := q\<lparr>phys_start := ps\<rparr>, send_aperture := mem\<rparr>)"
    "unat ps = (unat (phys_start q) + unat sz) mod CAP"
    by (auto simp: CAP)
  have "(unat (phys_start q) + unat sz) mod CAP = unat (phys_end q)"
    using assms(3,4) u space_left_unat [of q]
    by (cases "unat (phys_start q) < unat (phys_end q)") (simp_all add: CAP mod_if)
  with p(2) have ps: "ps = phys_end q" by (simp add: word_unat_eq_iff)
  let ?q = "q\<lparr>phys_start := ps\<rparr>"
  have sl: "unat (space_left ?q) = 134217728"
    using space_left_unat [of ?q] ps assms(4) by (simp add: CAP)
  have "wait_space ?q sz' [] = Inr ?q" if "unat sz' \<le> 134217728" for sz'
    using that sl by (simp add: word_less_nat_alt unat_ucast_u32)
  with p(1) ps sl show ?thesis by (simp del: wait_space.simps)
qed

theorem exact_fill_looks_empty_witness:
  "\<exists>offset st'. xmit_copy demo_env 0 134217728 (demo_rdma 0 0 1) = Inr (Inr offset, st') \<and>
     wait_space (send_queue st') 134217728 [] = Inr (send_queue st')"
proof -
  have q: "send_queue (demo_rdma 0 0 1) = demo_ring 0 0" by (simp add: demo_rdma_def)
  have s: "ucast (space_left (demo_ring 0 0)) = (134217728 :: u64)" "unat (phys_start (demo_ring 0 0)) = 0"
    "unat (phys_end (demo_ring 0 0)) = 0"
    by (simp_all add: space_left_def demo_ring_def APERTURE_SIZE_QUEUE)
  from exact_fill_looks_empty [of 134217728 "demo_ring 0 0" "demo_rdma 0 0 1" demo_env 0] q s
  show ?thesis by fastforce
qed

lemma xmit_header_semaphore:
  "xmit_header sk type offset sz st = Inr st' \<Longrightarrow> client_semaphore st' = client_semaphore st"
  by (cases "get_free_metamessage (send_queue st)", cases "fst (get_free_metamessage (send_queue st))")
    (auto simp: xmit_header_def Let_def rbind_eq_Inr)

lemma xmit_copy_result:
  "xmit_copy env start sz st = Inr (r, st') \<Longrightarrow>
     (\<exists>offset. r = Inr offset) \<and> client_semaphore st' = client_semaphore st \<and>
     send_queue_lock st' = send_queue_lock st"
  by (auto simp: xmit_copy_def rbind_eq_Inr Let_def split: if_splits)

lemma no_semaphore_no_send:
  assumes "\<not> MAP_USER_PAGES_SEND cfg" and "needs_dma cfg REGULAR" and "client_semaphore st = 0"
  shows "\<exists>e. rdma_xmit cfg env sk REGULAR start nr_pages off sz st = Inl e"
proof (cases "xmit_copy env start sz st")
  case (Inl e)
  with assms(1) show ?thesis by (simp add: rdma_xmit_def)
next
  case (Inr ps)
  obtain placed st1 where ps: "ps = (placed, st1)" by (cases ps)
  with Inr xmit_copy_result obtain offset where o: "placed = Inr offset" "client_semaphore st1 = 0"
    using assms(3) by fastforce
  show ?thesis
  proof (cases "xmit_header sk REGULAR offset sz st1")
    case h: (Inl e)
    with Inr ps o assms(1) show ?thesis by (simp add: rdma_xmit_def)
  next
    case h: (Inr st2)
    then have "client_semaphore st2 = 0" using xmit_header_semaphore o by metis
    then have "xmit_dma cfg env REGULAR offset sz st2 = Inl Blocked"
      using assms(2) by (simp add: xmit_dma_def needs_dma_def)
    with h Inr ps o assms(1) show ?thesis by (simp add: rdma_xmit_def)
  qed
qed

text \<open>
  C32. A transfer that fails loses the client semaphore for good: in the build that copies on
  both sides, when \<open>dis_start_dma_transfer\<close> reports an error, \<open>rdma_xmit\<close> returns -1 with the
  semaphore taken, and from then on no regular send returns, whatever the hardware answers.
\<close>

theorem failed_dma_wedges_sender:
  assumes "\<not> MAP_USER_PAGES_SEND cfg" and "needs_dma cfg REGULAR"
    and "client_semaphore st = 1" and "\<not> send_queue_lock st"
    and "wait_space (send_queue st) sz (phys_end_seen env) = Inr q"
    and "unat (phys_start q) < 134217728" and "unat (phys_end q) < 134217728"
    and "ring_ok q"
    and "\<forall>a o'. dis_start_dma_transfer env a sz o' \<noteq> ESCI_OK env"
  shows "\<exists>st'. rdma_xmit cfg env sk REGULAR start nr_pages off sz st = Inr (- 1, st') \<and>
    client_semaphore st' = 0 \<and>
    (\<forall>env' sk' start' n' off' sz'. \<exists>e. rdma_xmit cfg env' sk' REGULAR start' n' off' sz' st' = Inl e)"
proof -
  from xmit_copy_places [OF assms(5), of start] assms(6,7) obtain ps mem where
    p: "xmit_copy env start sz st =
      Inr (Inr (ucast (phys_start q)), st\<lparr>send_queue := q\<lparr>phys_start := ps\<rparr>, send_aperture := mem\<rparr>)"
    by (auto simp: CAP)
  let ?st1 = "st\<lparr>send_queue := q\<lparr>phys_start := ps\<rparr>, send_aperture := mem\<rparr>"
  have ring: "ring_ok (q\<lparr>phys_start := ps\<rparr>)" using assms(8) by (simp add: ring_ok_def)
  have "\<exists>q'. send_metamessage (xmit_message sk REGULAR (ucast (phys_start q)) sz) (q\<lparr>phys_start := ps\<rparr>) = Inr q'"
  proof (cases "ring_full (q\<lparr>phys_start := ps\<rparr>)")
    case True
    from send_full [OF ring this] show ?thesis by blast
  next
    case False
    from send_not_full [OF ring this] show ?thesis by blast
  qed
  then obtain q' where "send_metamessage (xmit_message sk REGULAR (ucast (phys_start q)) sz)
      (send_queue ?st1) = Inr q'" by auto
  from xmit_header_publish [OF _ this] assms(4) obtain l q1 where
    h: "xmit_header sk REGULAR (ucast (phys_start q)) sz ?st1 = Inr (?st1\<lparr>send_queue_lock := l, send_queue := q1\<rparr>)"
    by auto
  let ?st3 = "?st1\<lparr>send_queue := q1, client_semaphore := 0, send_queue_lock := False\<rparr>"
  have "rdma_xmit cfg env sk REGULAR start nr_pages off sz st = Inr (- 1, ?st3)"
    using assms(1-3,9) p h by (simp add: rdma_xmit_def xmit_dma_def needs_dma_def sci_error_handler_def)
  moreover have "client_semaphore ?st3 = 0" by simp
  ultimately show ?thesis using no_semaphore_no_send [OF assms(1,2)] by blast
qed

theorem failed_dma_wedges_sender_witness:
  "\<exists>st'. rdma_xmit (copy_config\<lparr>MAP_USER_PAGES_RECV := False\<rparr>) (demo_env\<lparr>dis_start_dma_transfer := \<lambda>_ _ _. 7\<rparr>)
     demo_sk REGULAR 0x5010 2 0x10 3 (demo_rdma 0 0 1) = Inr (- 1, st') \<and> client_semaphore st' = 0"
proof -
  let ?cfg = "copy_config\<lparr>MAP_USER_PAGES_RECV := False\<rparr>" and ?env = "demo_env\<lparr>dis_start_dma_transfer := \<lambda>_ _ _. 7\<rparr>"
  have ring: "ring_ok (demo_ring 0 0)"
    using demo_ring_pending [of 0 0] by (simp_all add: LTCP_MSG_QUEUE_SIZE)
  have w: "wait_space (send_queue (demo_rdma 0 0 1)) 3 (phys_end_seen ?env) = Inr (demo_ring 0 0)"
    by (simp add: demo_rdma_def demo_env_def demo_ring_def space_left_def APERTURE_SIZE_QUEUE)
  have c: "\<not> MAP_USER_PAGES_SEND ?cfg" "needs_dma ?cfg REGULAR" "client_semaphore (demo_rdma 0 0 1) = 1"
    "\<not> send_queue_lock (demo_rdma 0 0 1)" "unat (phys_start (demo_ring 0 0)) < 134217728"
    "unat (phys_end (demo_ring 0 0)) < 134217728"
    by (simp_all add: copy_config_def default_config_def demo_rdma_def demo_ring_def needs_dma_def)
  have d: "\<forall>a o'. dis_start_dma_transfer ?env a 3 o' \<noteq> ESCI_OK ?env" by (simp add: demo_env_def)
  from failed_dma_wedges_sender [OF c(1-4) w c(5,6) ring d, of demo_sk "0x5010" 2 "0x10"]
  show ?thesis by (elim exE conjE) (intro exI conjI)
qed

end
