(* ===== verification/Ltcp_Handlers.thy ===== *)
theory Ltcp_Handlers
  imports Ltcp_Sockets Conn_Tables Rdma_Xmit_Props
begin

text \<open>
  What the handlers of the protocol do to a node, against an abstract state: per port the
  connections waiting in \<open>incoming_conns\<close>, the established ones in \<open>conns\<close> and the
  listening socket. \<open>node_rel\<close> relates a node to that state; each handler lemma says which
  abstract step the handler makes and what it leaves alone, and the last section that the
  interrupt handler drives them over the receive ring.
\<close>

record conn_state =
  cs_incoming :: "nat \<Rightarrow> conn list"
  cs_conns :: "nat \<Rightarrow> conn list"
  cs_listening :: "nat \<Rightarrow> addr option"

definition node_rel :: "ltcp \<Rightarrow> conn_state \<Rightarrow> bool" where
  "node_rel st A \<longleftrightarrow>
     conn_lists (psks st) (incoming_conns st) (conns st) {} (cs_incoming A) (cs_conns A) \<and>
     (\<forall>i. psa_listening_sock (incoming_conns st i) = cs_listening A i)"

definition has_key :: "u16 \<Rightarrow> u32 \<Rightarrow> conn \<Rightarrow> bool" where
  "has_key rport rip e \<longleftrightarrow> snd e = (rport, rip)"

definition node_frame :: "ltcp \<Rightarrow> ltcp \<Rightarrow> bool" where
  "node_frame st st' \<longleftrightarrow> files st' = files st \<and> connecting st' = connecting st \<and>
     src_IP st' = src_IP st \<and> dest_IP st' = dest_IP st"

text \<open>The abstract steps.\<close>

definition add_incoming :: "nat \<Rightarrow> conn \<Rightarrow> conn_state \<Rightarrow> conn_state" where
  "add_incoming i e A = A\<lparr>cs_incoming := (cs_incoming A)(i := cs_incoming A i @ [e])\<rparr>"

definition establish :: "nat \<Rightarrow> conn list \<Rightarrow> conn \<Rightarrow> conn list \<Rightarrow> conn_state \<Rightarrow> conn_state" where
  "establish i us e vs A = A\<lparr>cs_incoming := (cs_incoming A)(i := us @ vs),
     cs_conns := (cs_conns A)(i := cs_conns A i @ [e])\<rparr>"

definition disconnect :: "nat \<Rightarrow> conn list \<Rightarrow> conn list \<Rightarrow> conn_state \<Rightarrow> conn_state" where
  "disconnect i us vs A = A\<lparr>cs_conns := (cs_conns A)(i := us @ vs)\<rparr>"

lemma ltcp_idem [simp]:
  "st\<lparr>conns := conns st\<rparr> = st" "st\<lparr>incoming_conns := incoming_conns st\<rparr> = st" "st\<lparr>psks := psks st\<rparr> = st"
  "st\<lparr>socks := socks st\<rparr> = st" "st\<lparr>psks := psks st, conns := conns st\<rparr> = st"
  "st\<lparr>psks := psks st, incoming_conns := incoming_conns st\<rparr> = st"
  by (cases st; simp)+

lemma sock_load_Some [simp]: "sock_load st (Some s) = (case socks st s of None \<Rightarrow> Inl Dangling | Some k \<Rightarrow> Inr k)"
  by (simp add: sock_load_def)

lemma sock_store_Some:
  "socks st s = Some k \<Longrightarrow> sock_store st (Some s) f = Inr (st\<lparr>socks := (socks st)(s \<mapsto> f k)\<rparr>)"
  by (simp add: sock_store_def)

lemma same_listeners_rel:
  "\<forall>i. psa_listening_sock (arr i) = L i \<Longrightarrow> same_listeners arr arr' \<Longrightarrow> \<forall>i. psa_listening_sock (arr' i) = L i"
  by (simp add: same_listeners_def)

lemma not_found_find: "(\<forall>e \<in> set xs. \<not> has_key rport rip e) \<Longrightarrow> find (\<lambda>e. snd e = (rport, rip)) xs = None"
  by (auto simp: has_key_def find_None_iff)

lemma node_get:
  assumes "node_rel st A" and "i = port_index lport" "i < MAX_NUMBER_OF_PORTS"
  shows "\<exists>r. get_port_sk (psks st) (conns st) lport rport rip = Inr (r, conns st) \<and>
    (case find (\<lambda>e. snd e = (rport, rip)) (cs_conns A i) of
       None \<Rightarrow> r = None
     | Some e \<Rightarrow> \<exists>a n. r = Some a \<and> psks st a = Some n \<and> psk_sk n = fst e \<and> psk_payload (psks st) a = Some e)"
  using assms conn_get [OF conn_lists_swap] unfolding node_rel_def by blast

subsection \<open>CONNECT\<close>

lemma rcv_connect_new:
  assumes rel: "node_rel st A" and i: "i = port_index lport" "i < MAX_NUMBER_OF_PORTS"
    and ls: "cs_listening A i = Some ls" "socks st ls = Some parent"
    and new: "\<forall>e \<in> set (cs_conns A i). \<not> has_key rport rip e"
    and env: "sk_clone_lock env st parent = Some (c, k)"
      "kmalloc_port_sk env (psks st) = Some (p, n)" "psks st p = None"
  shows "\<exists>st'. rcv_connect env lport rport rip lip st = Inr (0, st') \<and>
    node_rel st' (add_incoming i (Some c, rport, rip) A) \<and>
    socks st' = (socks st)(c \<mapsto> setup_clone lport rport rip lip k) \<and> woken st' = woken st @ [ls] \<and>
    daemon st' = daemon st \<and> node_frame st st'"
proof -
  have lk: "get_listening_sk_port_sk_arr (incoming_conns st) lport = Inr (Some ls)"
    using rel i ls by (simp add: get_listening_sk_port_sk_arr_def get_slot_def node_rel_def)
  have gp: "get_port_sk (psks st) (conns st) lport rport rip = Inr (None, conns st)"
    using node_get [OF rel i, of rport rip] not_found_find [OF new] by auto
  let ?n = "n\<lparr>psk_sk := Some c, psk_rport := rport, psk_rip := rip\<rparr>"
  let ?h = "(psks st)(p \<mapsto> ?n)"
  have "conn_lists ?h (incoming_conns st) (conns st) {p} (cs_incoming A) (cs_conns A)"
    using rel env(3) conn_lists_upd [of "psks st" _ _ "{}" _ _ p] by (simp add: node_rel_def)
  from conn_add [OF this i, of p "(Some c, rport, rip)"] obtain h inc where
    add: "add_port_sk ?h (incoming_conns st) lport (Some p) = Inr (h, inc)"
    "conn_lists h inc (conns st) {} ((cs_incoming A)(i := cs_incoming A i @ [(Some c, rport, rip)])) (cs_conns A)"
    "same_listeners (incoming_conns st) inc"
    by (auto simp: psk_payload_def)
  from add(2) have "\<not> psa_lock (inc i)"
    using i by (auto simp: conn_lists_def tables_inv_def table_inv_def)
  moreover have lis: "\<forall>j. psa_listening_sock (inc j) = cs_listening A j"
    using rel add(3) same_listeners_rel unfolding node_rel_def by blast
  ultimately have wk: "wake_up_listening_sock inc lport = Inr (Some ls, inc)"
    using i ls by (simp add: wake_up_listening_sock_def pf_ops)
  have "rcv_connect env lport rport rip lip st =
      Inr (0, st\<lparr>socks := (socks st)(c \<mapsto> setup_clone lport rport rip lip k), psks := h,
                 incoming_conns := inc, woken := woken st @ [ls]\<rparr>)"
    using lk gp ls env add(1) wk by (simp add: rcv_connect_def)
  with add(2) lis show ?thesis by (auto simp: node_rel_def add_incoming_def node_frame_def)
qed

lemma rcv_connect_no_listener:
  assumes rel: "node_rel st A" and i: "i = port_index lport" "i < MAX_NUMBER_OF_PORTS"
    and "cs_listening A i = None"
  shows "rcv_connect env lport rport rip lip st = Inr (0, st)"
  using assms by (simp add: rcv_connect_def get_listening_sk_port_sk_arr_def get_slot_def node_rel_def)

lemma rcv_connect_exists:
  assumes rel: "node_rel st A" and i: "i = port_index lport" "i < MAX_NUMBER_OF_PORTS"
    and "e \<in> set (cs_conns A i)" "has_key rport rip e"
  shows "rcv_connect env lport rport rip lip st = Inr (0, st)"
proof (cases "cs_listening A i")
  case None
  with rel i show ?thesis by (rule rcv_connect_no_listener)
next
  case (Some ls)
  then have "get_listening_sk_port_sk_arr (incoming_conns st) lport = Inr (Some ls)"
    using rel i by (simp add: get_listening_sk_port_sk_arr_def get_slot_def node_rel_def)
  moreover have "find (\<lambda>e. snd e = (rport, rip)) (cs_conns A i) \<noteq> None"
    using assms(4,5) unfolding find_None_iff has_key_def by blast
  then obtain a where "get_port_sk (psks st) (conns st) lport rport rip = Inr (Some a, conns st)"
    using node_get [OF rel i, of rport rip] by auto
  ultimately show ?thesis by (simp add: rcv_connect_def)
qed

subsection \<open>REGULAR\<close>

lemma rcv_regular_found:
  assumes rel: "node_rel st A" and i: "i = port_index lport" "i < MAX_NUMBER_OF_PORTS"
    and e: "cs_conns A i = us @ (Some s, rport, rip) # vs" "\<forall>e \<in> set us. \<not> has_key rport rip e"
    and k: "socks st s = Some k"
  shows "rcv_regular lport rport rip skb st =
    Inr (0, st\<lparr>socks := (socks st)(s \<mapsto> k\<lparr>sk_receive_queue := sk_receive_queue k @ [skb\<lparr>skb_sk := Some s\<rparr>],
                                          sk_data_ready := sk_data_ready k + 1\<rparr>)\<rparr>)"
proof -
  have "find (\<lambda>e. snd e = (rport, rip)) (cs_conns A i) = Some (Some s, rport, rip)"
    using not_found_find [OF e(2)] by (simp add: e(1) find_append)
  with node_get [OF rel i, of rport rip] obtain a n where
    "get_port_sk (psks st) (conns st) lport rport rip = Inr (Some a, conns st)"
    "psks st a = Some n" "psk_sk n = Some s" by auto
  with k show ?thesis
    by (simp add: rcv_regular_def psk_load_def local_tcp_do_rcv_def sock_store_Some)
qed

lemma rcv_regular_unknown:
  assumes rel: "node_rel st A" and i: "i = port_index lport" "i < MAX_NUMBER_OF_PORTS"
    and "\<forall>e \<in> set (cs_conns A i). \<not> has_key rport rip e"
  shows "rcv_regular lport rport rip skb st = Inr (- 1, st)"
  using node_get [OF rel i, of rport rip] not_found_find [OF assms(4)] by (auto simp: rcv_regular_def)

subsection \<open>CONNECT_SUCCESS\<close>

lemma find_first:
  "\<forall>e \<in> set us. \<not> has_key rport rip e \<Longrightarrow> u \<in> set us \<Longrightarrow> snd u \<noteq> (rport, rip)"
  by (simp add: has_key_def)

lemma rcv_connect_success_found:
  assumes rel: "node_rel st A" and i: "i = port_index lport" "i < MAX_NUMBER_OF_PORTS"
    and e: "cs_incoming A i = us @ (s, rport, rip) # vs" "\<forall>e \<in> set us. \<not> has_key rport rip e"
      "us = [] \<or> vs \<noteq> []"
  shows "\<exists>st'. rcv_connect_success lport rport rip st = Inr (0, st') \<and>
    node_rel st' (establish i us (s, rport, rip) vs A) \<and>
    socks st' = socks st \<and> woken st' = woken st \<and> daemon st' = daemon st \<and> node_frame st st'"
proof -
  from rel have cl: "conn_lists (psks st) (incoming_conns st) (conns st) {} (cs_incoming A) (cs_conns A)"
    by (simp add: node_rel_def)
  from conn_remove [OF cl i e(1,3) _ find_first [OF e(2)]] obtain a h inc where
    rm: "remove_port_sk (psks st) (incoming_conns st) lport rport rip = Inr (Some a, h, inc)"
    "conn_lists h inc (conns st) {a} ((cs_incoming A)(i := us @ vs)) (cs_conns A)"
    "same_listeners (incoming_conns st) inc" "psk_payload h = psk_payload (psks st)"
    "psk_payload (psks st) a = Some (s, rport, rip)"
    by auto
  from conn_add [OF conn_lists_swap [OF rm(2)] i, of a "(s, rport, rip)"] rm(4,5) obtain h1 con where
    add: "add_port_sk h (conns st) lport (Some a) = Inr (h1, con)"
    "conn_lists h1 con inc {} ((cs_conns A)(i := cs_conns A i @ [(s, rport, rip)])) ((cs_incoming A)(i := us @ vs))"
    by auto
  have "rcv_connect_success lport rport rip st = Inr (0, st\<lparr>psks := h1, incoming_conns := inc, conns := con\<rparr>)"
    using rm(1) add(1) by (simp add: rcv_connect_success_def)
  moreover have "node_rel (st\<lparr>psks := h1, incoming_conns := inc, conns := con\<rparr>) (establish i us (s, rport, rip) vs A)"
    using conn_lists_swap [OF add(2)] rm(3) rel by (simp add: node_rel_def establish_def same_listeners_def)
  ultimately show ?thesis by (simp add: node_frame_def)
qed

lemma rcv_connect_success_unknown:
  assumes rel: "node_rel st A" and i: "i = port_index lport" "i < MAX_NUMBER_OF_PORTS"
    and "\<forall>e \<in> set (cs_incoming A i). \<not> has_key rport rip e"
  shows "rcv_connect_success lport rport rip st = Inr (0, st)"
proof -
  from rel have cl: "conn_lists (psks st) (incoming_conns st) (conns st) {} (cs_incoming A) (cs_conns A)"
    by (simp add: node_rel_def)
  from conn_absent [OF cl i not_found_find [OF assms(4)]] show ?thesis
    by (simp add: rcv_connect_success_def add_port_sk_def)
qed

subsection \<open>CLOSE\<close>

lemma rcv_close_found:
  assumes rel: "node_rel st A" and i: "i = port_index lport" "i < MAX_NUMBER_OF_PORTS"
    and e: "cs_conns A i = us @ (Some s, rport, rip) # vs" "\<forall>e \<in> set us. \<not> has_key rport rip e"
      "us = [] \<or> vs \<noteq> []"
    and k: "socks st s = Some k"
  shows "\<exists>st'. rcv_close lport rport rip st = Inr (0, st') \<and> node_rel st' (disconnect i us vs A) \<and>
    socks st' = (socks st)(s \<mapsto> k\<lparr>sk_state := TCP_CLOSE\<rparr>) \<and> woken st' = woken st \<and>
    daemon st' = daemon st \<and> node_frame st st'"
proof -
  from rel have cl: "conn_lists (psks st) (incoming_conns st) (conns st) {} (cs_incoming A) (cs_conns A)"
    by (simp add: node_rel_def)
  from conn_remove [OF conn_lists_swap [OF cl] i e(1,3) _ find_first [OF e(2)]] obtain a h con where
    rm: "remove_port_sk (psks st) (conns st) lport rport rip = Inr (Some a, h, con)"
    "conn_lists h con (incoming_conns st) {a} ((cs_conns A)(i := us @ vs)) (cs_incoming A)"
    "psk_payload h = psk_payload (psks st)" "psk_payload (psks st) a = Some (Some s, rport, rip)"
    by auto
  then obtain n where n: "h a = Some n" "psk_sk n = Some s"
    using payload_Some [of h a] by auto
  have rest: "conn_lists (h(a := None)) (incoming_conns st) con {} (cs_incoming A) ((cs_conns A)(i := us @ vs))"
    using conn_lists_upd [OF conn_lists_swap [OF rm(2)], of a None] by (auto intro: conn_lists_weaken)
  let ?st' = "st\<lparr>psks := h(a := None), conns := con, socks := (socks st)(s \<mapsto> k\<lparr>sk_state := TCP_CLOSE\<rparr>)\<rparr>"
  have "rcv_close lport rport rip st = Inr (0, ?st')"
    using rm(1) n k by (simp add: rcv_close_def psk_load_def sock_store_def psk_kfree_def)
  moreover have "node_rel ?st' (disconnect i us vs A)"
    using rest rel by (simp add: node_rel_def disconnect_def)
  ultimately show ?thesis by (simp add: node_frame_def)
qed

lemma rcv_close_unknown:
  assumes rel: "node_rel st A" and i: "i = port_index lport" "i < MAX_NUMBER_OF_PORTS"
    and "\<forall>e \<in> set (cs_conns A i). \<not> has_key rport rip e"
  shows "rcv_close lport rport rip st = Inl NullDeref"
proof -
  from rel have cl: "conn_lists (psks st) (incoming_conns st) (conns st) {} (cs_incoming A) (cs_conns A)"
    by (simp add: node_rel_def)
  from conn_absent [OF conn_lists_swap [OF cl] i not_found_find [OF assms(4)]] show ?thesis
    by (simp add: rcv_close_def psk_load_def)
qed

subsection \<open>Accept\<close>

lemma queues_empty_node:
  assumes "node_rel st A" and "i = port_index lport" "i < MAX_NUMBER_OF_PORTS"
    and "socks st sk = Some k"
  shows "queues_empty sk lport st = Inr (icsk_accept_queue k = [] \<and> cs_incoming A i = [])"
  using assms conn_queue_empty [of "psks st" "incoming_conns st" "conns st" "{}" "cs_incoming A" "cs_conns A" i lport]
  by (auto simp: queues_empty_def node_rel_def)

text \<open>Sending a control message changes the daemon only.\<close>

lemma control_helper:
  assumes "socks st s = Some k" and "type \<noteq> REGULAR"
    and "\<not> send_queue_lock (daemon st)" and "ring_ok (send_queue (daemon st))" and "\<not> ring_full (send_queue (daemon st))"
  shows "\<exists>q. local_tcp_sendmsg_helper cfg env (Some s) msg len type st =
      Inr (trigger_result (xenv env) (interrupts (daemon st)),
           st\<lparr>daemon := (daemon st)\<lparr>send_queue := q, interrupts := interrupts (daemon st) + 1\<rparr>\<rparr>) \<and>
    ring_ok q \<and> map (rq_queue q) (pending q) =
      map (rq_queue (send_queue (daemon st))) (pending (send_queue (daemon st))) @
      [xmit_message (sk_inet k) type 0 0]"
proof -
  from send_not_full [OF assms(4,5)] obtain q where
    q: "send_metamessage (xmit_message (sk_inet k) type 0 0) (send_queue (daemon st)) = Inr q" "ring_ok q"
    "map (rq_queue q) (pending q) = map (rq_queue (send_queue (daemon st))) (pending (send_queue (daemon st))) @
       [xmit_message (sk_inet k) type 0 0]"
    by blast
  have "rdma_xmit cfg (xenv env) (sk_inet k) type 0 0 0 0 (daemon st) =
      Inr (trigger_result (xenv env) (interrupts (daemon st)),
        (daemon st)\<lparr>send_queue := q, interrupts := interrupts (daemon st) + 1\<rparr>)"
    using rdma_xmit_placed [of type cfg "xenv env" 0 0 0 "daemon st" 0 0 "daemon st" "sk_inet k" q] assms(2,3) q(1)
    by (simp add: needs_dma_def)
  with q(2,3) assms(1,2) show ?thesis
    by (intro exI [of _ q]) (simp add: local_tcp_sendmsg_helper_def ltcp_direct_copy_def)
qed

text \<open>
  The moving half of accept: the oldest incoming connection becomes established and the other
  machine is told.
\<close>

lemma accept_ready:
  assumes rel: "node_rel st A" and k: "socks st sk = Some k" "inet_sport (sk_inet k) = lport"
      "icsk_accept_queue k = []"
    and i: "i = port_index lport" "i < MAX_NUMBER_OF_PORTS"
    and e: "cs_incoming A i = (Some s, rport, rip) # vs" "socks st s = Some c"
    and ring: "\<not> send_queue_lock (daemon st)" "ring_ok (send_queue (daemon st))" "\<not> ring_full (send_queue (daemon st))"
    and trig: "sci_trigger_interrupt (xenv env) (interrupts (daemon st)) = ESCI_OK (xenv env)"
  shows "\<exists>st' q. ltcp_inet_csk_accept cfg env sk nonblock naps st = Inr (Some s, 0, st') \<and>
    node_rel st' (establish i [] (Some s, rport, rip) vs A) \<and>
    socks st' = socks st \<and> woken st' = woken st \<and> node_frame st st' \<and>
    daemon st' = (daemon st)\<lparr>send_queue := q, interrupts := interrupts (daemon st) + 1\<rparr> \<and>
    ring_ok q \<and> map (rq_queue q) (pending q) =
      map (rq_queue (send_queue (daemon st))) (pending (send_queue (daemon st))) @
      [xmit_message (sk_inet c) CONNECT_SUCCESS 0 0]"
proof -
  have wait: "wait_on_connection env sk nonblock naps st = Inr (0, st)"
    using queues_empty_node [OF rel i k(1)] k e by (simp add: wait_on_connection_def)
  from rel have cl: "conn_lists (psks st) (incoming_conns st) (conns st) {} (cs_incoming A) (cs_conns A)"
    by (simp add: node_rel_def)
  from conn_put [OF cl i e(1)] obtain a h inc where
    pt: "put_port_sk (psks st) (incoming_conns st) lport = Inr (Some a, h, inc)"
    "conn_lists h inc (conns st) {a} ((cs_incoming A)(i := vs)) (cs_conns A)"
    "same_listeners (incoming_conns st) inc" "psk_payload h = psk_payload (psks st)"
    "psk_payload (psks st) a = Some (Some s, rport, rip)"
    by auto
  then obtain n where n: "h a = Some n" "psk_sk n = Some s"
    using payload_Some [of h a] by auto
  from conn_add [OF conn_lists_swap [OF pt(2)] i, of a "(Some s, rport, rip)"] pt(4,5) obtain h1 con where
    add: "add_port_sk h (conns st) lport (Some a) = Inr (h1, con)"
    "conn_lists h1 con inc {} ((cs_conns A)(i := cs_conns A i @ [(Some s, rport, rip)])) ((cs_incoming A)(i := vs))"
    by auto
  let ?st3 = "st\<lparr>incoming_conns := inc, psks := h1, conns := con\<rparr>"
  from control_helper [of ?st3 s c CONNECT_SUCCESS cfg env None 0] e(2) ring trig obtain q where
    hp: "local_tcp_sendmsg_helper cfg env (Some s) None 0 CONNECT_SUCCESS ?st3 =
      Inr (0, ?st3\<lparr>daemon := (daemon st)\<lparr>send_queue := q, interrupts := interrupts (daemon st) + 1\<rparr>\<rparr>)"
    "ring_ok q" "map (rq_queue q) (pending q) =
      map (rq_queue (send_queue (daemon st))) (pending (send_queue (daemon st))) @
      [xmit_message (sk_inet c) CONNECT_SUCCESS 0 0]"
    by (auto simp: trigger_result_def local_tcp_type_defs)
  let ?st4 = "?st3\<lparr>daemon := (daemon st)\<lparr>send_queue := q, interrupts := interrupts (daemon st) + 1\<rparr>\<rparr>"
  have "ltcp_inet_csk_accept cfg env sk nonblock naps st = Inr (Some s, 0, ?st4)"
    using k wait pt(1) n add(1) hp(1) by (simp add: ltcp_inet_csk_accept_def psk_load_def)
  moreover have "node_rel ?st4 (establish i [] (Some s, rport, rip) vs A)"
    using conn_lists_swap [OF add(2)] pt(3) rel
    by (simp add: node_rel_def establish_def same_listeners_def)
  ultimately show ?thesis using hp(2,3)
    by (intro exI [of _ ?st4] exI [of _ q]) (simp add: node_frame_def)
qed

subsection \<open>Connect\<close>

text \<open>The new socket of a connection to \<open>(port, ip)\<close> from a node with address \<open>src\<close>.\<close>

definition client_inet :: "u16 \<Rightarrow> u32 \<Rightarrow> u32 \<Rightarrow> inet_sock \<Rightarrow> inet_sock" where
  "client_inet port ip src inet = inet\<lparr>inet_sport := port, inet_dport := port, inet_daddr := ip, inet_saddr := src\<rparr>"

lemma connect_sends:
  assumes rel: "node_rel st A" and i: "i = port_index port" "i < MAX_NUMBER_OF_PORTS"
    and create: "sock_create env st = Inr (sock, s, k0)" and k: "socks st sk = Some k" "s \<noteq> sk"
    and fd: "replace_socket_filedescriptor (fdenv env) sock (sk_socket k) (files st) = Inr (0, fs)"
    and addr: "ip = ucast (dest_IP st)" "ip \<noteq> 0" "ucast (src_IP st) \<noteq> (0 :: u32)"
    and mem: "kmalloc_port_sk env (psks st) = Some (p, n)" "psks st p = None"
    and ring: "\<not> send_queue_lock (daemon st)" "ring_ok (send_queue (daemon st))" "\<not> ring_full (send_queue (daemon st))"
    and trig: "sci_trigger_interrupt (xenv env) (interrupts (daemon st)) = ESCI_OK (xenv env)"
  shows "\<exists>st' q. ltcp_tcp_v4_connect_wrapper cfg env sk (port, ip) st = Inr (0, st') \<and>
    node_rel st' (add_incoming i (Some s, port, ip) A) \<and>
    socks st' = (socks st)(s \<mapsto> k0\<lparr>sk_inet := client_inet port ip (ucast (src_IP st)) (sk_inet k0)\<rparr>,
                           sk \<mapsto> k\<lparr>defer_connect := True\<rparr>) \<and>
    files st' = fs \<and> connecting st' = insert sock (connecting st) \<and> woken st' = woken st \<and>
    src_IP st' = src_IP st \<and> dest_IP st' = dest_IP st \<and>
    daemon st' = (daemon st)\<lparr>send_queue := q, interrupts := interrupts (daemon st) + 1\<rparr> \<and>
    ring_ok q \<and> map (rq_queue q) (pending q) =
      map (rq_queue (send_queue (daemon st))) (pending (send_queue (daemon st))) @
      [xmit_message (client_inet port ip (ucast (src_IP st)) (sk_inet k0)) CONNECT 0 0]"
proof -
  let ?inet = "client_inet port ip (ucast (src_IP st)) (sk_inet k0)"
  let ?n = "n\<lparr>psk_sk := Some s, psk_rport := port, psk_rip := ip\<rparr>"
  let ?h = "(psks st)(p \<mapsto> ?n)"
  let ?st4 = "st\<lparr>files := fs, socks := (socks st)(s \<mapsto> k0\<lparr>sk_inet := ?inet\<rparr>), psks := ?h\<rparr>"
  from control_helper [of ?st4 s "k0\<lparr>sk_inet := ?inet\<rparr>" CONNECT cfg env "Some 0" 0] ring trig obtain q where
    hp: "local_tcp_sendmsg_helper cfg env (Some s) (Some 0) 0 CONNECT ?st4 =
      Inr (0, ?st4\<lparr>daemon := (daemon st)\<lparr>send_queue := q, interrupts := interrupts (daemon st) + 1\<rparr>\<rparr>)"
    "ring_ok q" "map (rq_queue q) (pending q) =
      map (rq_queue (send_queue (daemon st))) (pending (send_queue (daemon st))) @
      [xmit_message ?inet CONNECT 0 0]"
    by (auto simp: trigger_result_def local_tcp_type_defs)
  have "conn_lists ?h (incoming_conns st) (conns st) {p} (cs_incoming A) (cs_conns A)"
    using rel mem(2) conn_lists_upd [of "psks st" _ _ "{}" _ _ p] by (simp add: node_rel_def)
  from conn_add [OF this i, of p "(Some s, port, ip)"] obtain h inc where
    add: "add_port_sk ?h (incoming_conns st) port (Some p) = Inr (h, inc)"
    "conn_lists h inc (conns st) {} ((cs_incoming A)(i := cs_incoming A i @ [(Some s, port, ip)])) (cs_conns A)"
    "same_listeners (incoming_conns st) inc"
    by (auto simp: psk_payload_def)
  let ?d = "(daemon st)\<lparr>send_queue := q, interrupts := interrupts (daemon st) + 1\<rparr>"
  let ?st5 = "?st4\<lparr>daemon := ?d, psks := h, incoming_conns := inc\<rparr>"
  have call: "ltcp_tcp_v4_connect cfg env sk (port, ip) st = Inr (0, Some sock, ?st5)"
    using create k fd addr mem(1) hp(1) add(1)
    by (simp add: ltcp_tcp_v4_connect_def client_inet_def)
  let ?st' = "?st5\<lparr>socks := (socks ?st5)(sk \<mapsto> k\<lparr>defer_connect := True\<rparr>), connecting := insert sock (connecting st)\<rparr>"
  have "ltcp_tcp_v4_connect_wrapper cfg env sk (port, ip) st = Inr (0, ?st')"
    using call k addr(1) by (simp add: ltcp_tcp_v4_connect_wrapper_def sock_store_def)
  moreover have "node_rel ?st' (add_incoming i (Some s, port, ip) A)"
    using add(2,3) rel by (simp add: node_rel_def add_incoming_def same_listeners_def)
  ultimately show ?thesis using hp(2,3)
    by (intro exI [of _ ?st'] exI [of _ q]) simp
qed

subsection \<open>The interrupt handler\<close>

text \<open>No handler of the receive path touches the daemon's state.\<close>

definition keeps_daemon :: "rdma \<Rightarrow> ('a \<times> ltcp) res \<Rightarrow> bool" where
  "keeps_daemon d m \<longleftrightarrow> (case m of Inl _ \<Rightarrow> True | Inr (_, st') \<Rightarrow> daemon st' = d)"

lemma keeps_daemon_simps [simp]:
  "keeps_daemon d (Inl e)" "keeps_daemon d (Inr (a, st)) \<longleftrightarrow> daemon st = d"
  by (simp_all add: keeps_daemon_def)

lemma keeps_daemonD: "keeps_daemon d m \<Longrightarrow> m = Inr (a, st) \<Longrightarrow> daemon st = d"
  by (simp add: keeps_daemon_def)

lemma keeps_daemon_bind: "(\<And>a. m = Inr a \<Longrightarrow> keeps_daemon d (f a)) \<Longrightarrow> keeps_daemon d (rbind m f)"
  by (cases m) simp_all

lemma keeps_daemon_store:
  "(\<And>st'. daemon st' = daemon st \<Longrightarrow> keeps_daemon d (f st')) \<Longrightarrow> keeps_daemon d (rbind (sock_store st p g) f)"
  by (rule keeps_daemon_bind) (auto simp: sock_store_def rbind_eq_Inr)

lemma local_tcp_do_rcv_daemon: "keeps_daemon (daemon st) (local_tcp_do_rcv p skb st)"
  by (auto simp: local_tcp_do_rcv_def intro!: keeps_daemon_store)

lemma do_rcv_daemonD: "local_tcp_do_rcv p skb st = Inr (a, st') \<Longrightarrow> daemon st' = daemon st"
  by (rule keeps_daemonD [OF local_tcp_do_rcv_daemon])

lemma rcv_daemon:
  "keeps_daemon (daemon st) (rcv_regular lport rport rip skb st)"
  "keeps_daemon (daemon st) (rcv_connect env lport rport rip lip st)"
  "keeps_daemon (daemon st) (rcv_close lport rport rip st)"
  "keeps_daemon (daemon st) (rcv_connect_success lport rport rip st)"
     apply (auto simp: rcv_regular_def Let_def 
      intro!: keeps_daemon_bind dest!: do_rcv_daemonD
      split: prod.split)[1]
    apply (auto simp: rcv_connect_def Let_def intro!: keeps_daemon_bind split: prod.split option.split)[1]
   apply (auto simp: rcv_close_def Let_def intro!: keeps_daemon_bind keeps_daemon_store split: prod.split)[1]
  apply (auto simp: rcv_connect_success_def intro!: keeps_daemon_bind split: prod.split)[1]
  done

lemma local_tcp_rcv_daemon: "keeps_daemon (daemon st) (local_tcp_rcv env skb st)"
  using rcv_daemon by (simp add: local_tcp_rcv_def Let_def)

definition with_recv_queue :: "ltcp_ring_queue \<Rightarrow> ltcp \<Rightarrow> ltcp" where
  "with_recv_queue rq st = st\<lparr>daemon := (daemon st)\<lparr>recv_queue := rq\<rparr>\<rparr>"

definition slot_skb :: "ltcp \<Rightarrow> nat \<Rightarrow> sk_buff" where
  "slot_skb st i = (let m = rq_queue (recv_queue (daemon st)) i
     in \<lparr>skb_msg = i, iph_saddr = src_ip m, iph_daddr = dest_ip m, skb_sk = None\<rparr>)"

lemma recv_loop_Nil:
  assumes "ring_ok (recv_queue (daemon st))" and "pending (recv_queue (daemon st)) = []"
  shows "\<exists>rq. recv_loop env st = Some (Inr (0, with_recv_queue rq st)) \<and> ring_ok rq \<and> pending rq = [] \<and>
    rq_queue rq = rq_queue (recv_queue (daemon st))"
proof -
  from recv_next_pending [OF assms(1)] assms(2) obtain rq where
    "rdma_recv_next (recv_queue (daemon st)) = Inr (None, rq)" "ring_ok rq" "pending rq = []"
    "rq_queue rq = rq_queue (recv_queue (daemon st))"
    by auto
  then show ?thesis by (subst recv_loop.simps) (auto simp: with_recv_queue_def)
qed

lemma recv_loop_Cons:
  assumes "ring_ok (recv_queue (daemon st))" and "pending (recv_queue (daemon st)) = i # is"
  shows "\<exists>rq. recv_loop env st =
      (if \<not> alloc_skb env i then Some (Inl NullDeref)
       else case local_tcp_rcv env (slot_skb st i) (with_recv_queue rq st) of
              Inl e \<Rightarrow> Some (Inl e)
            | Inr (rc, st2) \<Rightarrow> if rc \<noteq> 0 then Some (Inr (- 1, st2)) else recv_loop env st2) \<and>
    ring_ok rq \<and> pending rq = is \<and> rq_queue rq = rq_queue (recv_queue (daemon st))"
proof -
  from recv_next_pending [OF assms(1)] assms(2) obtain rq where
    "rdma_recv_next (recv_queue (daemon st)) = Inr (Some i, rq)" "ring_ok rq" "pending rq = is"
    "rq_queue rq = rq_queue (recv_queue (daemon st))"
    by auto
  then show ?thesis
    by (intro exI [of _ rq], subst recv_loop.simps) (simp add: with_recv_queue_def slot_skb_def Let_def)
qed

definition handler_fault :: "kenv \<Rightarrow> ltcp \<Rightarrow> nat list \<Rightarrow> fault \<Rightarrow> bool" where
  "handler_fault env st is e \<longleftrightarrow> (\<exists>i \<in> set is. (\<not> alloc_skb env i \<and> e = NullDeref) \<or>
     (\<exists>st1. local_tcp_rcv env (slot_skb st i) st1 = Inl e))"

lemma slot_skb_cong:
  "rq_queue (recv_queue (daemon st')) = rq_queue (recv_queue (daemon st)) \<Longrightarrow> slot_skb st' = slot_skb st"
  by (simp add: slot_skb_def fun_eq_iff)

text \<open>One turn of the loop: what it calls, and which of its four ends it takes.\<close>

lemma recv_loop_turn:
  assumes "ring_ok (recv_queue (daemon st))" and "pending (recv_queue (daemon st)) = i # is"
  obtains (no_skb) "\<not> alloc_skb env i" "recv_loop env st = Some (Inl NullDeref)"
  | (fault) rq e where "alloc_skb env i" "rq_queue rq = rq_queue (recv_queue (daemon st))"
      "local_tcp_rcv env (slot_skb st i) (with_recv_queue rq st) = Inl e" "recv_loop env st = Some (Inl e)"
  | (refused) rq rc st2 where "alloc_skb env i" "ring_ok rq" "pending rq = is"
      "rq_queue rq = rq_queue (recv_queue (daemon st))"
      "local_tcp_rcv env (slot_skb st i) (with_recv_queue rq st) = Inr (rc, st2)" "rc \<noteq> 0"
      "daemon st2 = (daemon st)\<lparr>recv_queue := rq\<rparr>" "recv_loop env st = Some (Inr (- 1, st2))"
  | (handled) rq st2 where "alloc_skb env i" "ring_ok rq" "pending rq = is"
      "rq_queue rq = rq_queue (recv_queue (daemon st))"
      "local_tcp_rcv env (slot_skb st i) (with_recv_queue rq st) = Inr (0, st2)"
      "daemon st2 = (daemon st)\<lparr>recv_queue := rq\<rparr>" "recv_loop env st = recv_loop env st2"
proof -
  from recv_loop_Cons [OF assms, of env] obtain rq where
    step: "recv_loop env st =
      (if \<not> alloc_skb env i then Some (Inl NullDeref)
       else case local_tcp_rcv env (slot_skb st i) (with_recv_queue rq st) of
              Inl e \<Rightarrow> Some (Inl e)
            | Inr (rc, st2) \<Rightarrow> if rc \<noteq> 0 then Some (Inr (- 1, st2)) else recv_loop env st2)"
    and rq: "ring_ok rq" "pending rq = is" "rq_queue rq = rq_queue (recv_queue (daemon st))"
    by blast
  have d: "daemon st2 = (daemon st)\<lparr>recv_queue := rq\<rparr>"
    if "local_tcp_rcv env (slot_skb st i) (with_recv_queue rq st) = Inr (rc, st2)" for rc st2
    using keeps_daemonD [OF local_tcp_rcv_daemon] that by (fastforce simp: with_recv_queue_def)
  show thesis
  proof (cases "alloc_skb env i")
    case False
    with step show thesis by (intro no_skb) simp_all
  next
    case a: True
    show thesis
    proof (cases "local_tcp_rcv env (slot_skb st i) (with_recv_queue rq st)")
      case (Inl e)
      with a step rq(3) show thesis by (intro fault [of rq e]) simp_all
    next
      case (Inr res)
      obtain rc st2 where res: "local_tcp_rcv env (slot_skb st i) (with_recv_queue rq st) = Inr (rc, st2)"
        using Inr by (cases res) simp
      show thesis
      proof (cases "rc = 0")
        case True
        with a step res rq d [OF res] show thesis by (intro handled [of rq st2]) simp_all
      next
        case False
        with a step res rq d [OF res] show thesis by (intro refused [of rq rc st2]) simp_all
      qed
    qed
  qed
qed

lemma recv_loop_consumes:
  assumes "ring_ok (recv_queue (daemon st))" and "pending (recv_queue (daemon st)) = is"
  shows "\<exists>r. recv_loop env st = Some r \<and> (\<forall>e. r = Inl e \<longrightarrow> handler_fault env st is e) \<and>
    (\<forall>rc st'. r = Inr (rc, st') \<longrightarrow> ring_ok (recv_queue (daemon st')) \<and>
       daemon st' = (daemon st)\<lparr>recv_queue := recv_queue (daemon st')\<rparr> \<and>
       (rc = 0 \<and> pending (recv_queue (daemon st')) = [] \<or>
        rc = - 1 \<and> (\<exists>us i. is = us @ i # pending (recv_queue (daemon st')))))"
  using assms
proof (induction "is" arbitrary: st)
  case Nil
  from recv_loop_Nil [OF Nil, of env] show ?case
    by (auto simp: with_recv_queue_def)
next
  case (Cons i "is")
  from Cons.prems show ?case
  proof (cases rule: recv_loop_turn [of st i "is" env, case_names no_skb fault refused handled])
    case no_skb
    then show ?thesis by (simp add: handler_fault_def)
  next
    case (fault rq e)
    then show ?thesis by (auto simp: handler_fault_def)
  next
    case (refused rq rc st2)
    then show ?thesis by auto
  next
    case (handled rq st2)
    from Cons.IH [of st2] handled obtain r where r: "recv_loop env st2 = Some r"
      "\<And>e. r = Inl e \<Longrightarrow> handler_fault env st2 is e"
      "\<And>rc st'. r = Inr (rc, st') \<Longrightarrow> ring_ok (recv_queue (daemon st')) \<and>
         daemon st' = (daemon st2)\<lparr>recv_queue := recv_queue (daemon st')\<rparr> \<and>
         (rc = 0 \<and> pending (recv_queue (daemon st')) = [] \<or>
          rc = - 1 \<and> (\<exists>us i. is = us @ i # pending (recv_queue (daemon st'))))"
      by auto
    have "handler_fault env st (i # is) e" if "r = Inl e" for e
      using r(2) [OF that] handled(4,6) slot_skb_cong [of st2 st] by (auto simp: handler_fault_def)
    moreover have "\<exists>us j. i # is = us @ j # xs" if "\<exists>us j. is = us @ j # xs" for xs
      using that by (metis append_Cons)
    ultimately show ?thesis using r(1,3) handled(6,7) by (intro exI [of _ r]) fastforce
  qed
qed


definition demo_listener :: ltcp_sock where
  "demo_listener = \<lparr>sk_inet = \<lparr>inet_saddr = 0, inet_daddr = 0, inet_sport = 0x931F, inet_dport = 0, inet_num = 8083\<rparr>,
     sk_state = TCP_LISTEN, sk_protocol = 6, sk_prot = Other_Proto 0, sk_prot_creator = Other_Proto 0,
     sk_socket = Some 50, sk_receive_queue = [], sk_data_ready = 0, icsk_accept_queue = [],
     icsk_bind_hash = Some 7, icsk_retransmits = 0, icsk_backoff = 0, icsk_probes_out = 0,
     mc_list = None, SOCK_RCU_FREE = True, defer_connect = False, last_update = 0\<rparr>"

text \<open>
  A node with the address \<open>src\<close> that talks to \<open>dest\<close>, a socket 500 that listens at port 8083,
  and no connections.
\<close>

definition demo_node :: "u64 \<Rightarrow> u64 \<Rightarrow> ltcp" where
  "demo_node src dest = \<lparr>socks = [500 \<mapsto> demo_listener], psks = (\<lambda>_. None),
     incoming_conns = empty_table(8083 := empty_slot\<lparr>psa_listening_sock := Some 500\<rparr>),
     conns = empty_table, files = demo_files, connecting = {}, woken = [],
     src_IP = src, dest_IP = dest, daemon = demo_rdma 0 0 1\<rparr>"

definition no_conns :: conn_state where
  "no_conns = \<lparr>cs_incoming = (\<lambda>_. []), cs_conns = (\<lambda>_. []),
     cs_listening = (\<lambda>i. if i = 8083 then Some 500 else None)\<rparr>"

lemma demo_port: "port_index 0x931F = 8083" "(8083 :: nat) < MAX_NUMBER_OF_PORTS"
  by (simp_all add: port_index_def ntohs_def MAX_NUMBER_OF_PORTS_def)

lemma demo_node_rel: "node_rel (demo_node src dest) no_conns"
proof -
  have "conn_lists h (empty_table(8083 := empty_slot\<lparr>psa_listening_sock := Some 500\<rparr>)) empty_table {}
      (\<lambda>_. []) (\<lambda>_. [])" for h
    by (rule conn_listsI [of _ _ _ "\<lambda>_. []" "\<lambda>_. []"])
      (auto simp: tables_inv_def table_inv_def slot_nodes_def dll_def empty_table_def empty_slot_def)
  then show ?thesis
    by (simp add: node_rel_def demo_node_def no_conns_def empty_table_def empty_slot_def)
qed

lemma demo_ring_empty: "ring_ok (demo_ring 0 0)" "pending (demo_ring 0 0) = []" "\<not> ring_full (demo_ring 0 0)"
  using demo_ring_pending [of 0 0]
  by (simp_all add: LTCP_MSG_QUEUE_SIZE ring_full_def demo_ring_def slots_between_def)

lemma demo_node_daemon:
  "daemon (demo_node src dest) = demo_rdma 0 0 1" "send_queue (demo_rdma 0 0 n) = demo_ring 0 0"
  "recv_queue (demo_rdma 0 0 n) = demo_ring 0 0" "\<not> send_queue_lock (demo_rdma 0 0 n)"
  "\<not> recv_queue_lock (demo_rdma 0 0 n)" "interrupts (demo_rdma 0 0 n) = 0"
  by (simp_all add: demo_node_def demo_rdma_def)


end
