(* ===== verification/Ltcp_Protocol.thy ===== *)
theory Ltcp_Protocol
  imports Ltcp_Handlers
begin

text \<open>
  What the protocol promises on one node: the properties of \<open>local_tcp_rcv\<close> per message type,
  of connect, accept and close, stated on the node's abstract connection lists.
\<close>

subsection \<open>Reading a message\<close>

text \<open>The message a socket buffer points to, with its fields as \<open>local_tcp_rcv\<close> reads them.\<close>

definition skb_carries :: "ltcp \<Rightarrow> sk_buff \<Rightarrow> u32 \<Rightarrow> u16 \<Rightarrow> u16 \<Rightarrow> bool" where
  "skb_carries st skb type lport rport \<longleftrightarrow>
     (let m = rq_queue (recv_queue (daemon st)) (skb_msg skb)
      in msg_type m = type \<and> ucast (src_port m) = lport \<and> ucast (dest_port m) = rport)"

lemma rcv_cases:
  assumes "skb_carries st skb type lport rport"
  shows "local_tcp_rcv env skb st =
    (if type = REGULAR then rcv_regular lport rport (iph_saddr skb) skb st
     else if type = CONNECT then rcv_connect env lport rport (iph_saddr skb) (iph_daddr skb) st
     else if type = CLOSE then rcv_close lport rport (iph_saddr skb) st
     else if type = CONNECT_SUCCESS then rcv_connect_success lport rport (iph_saddr skb) st
     else Inr (- 1, st))"
  using assms by (simp add: skb_carries_def local_tcp_rcv_def Let_def)

lemma rcv_dispatch:
  "skb_carries st skb REGULAR lport rport \<Longrightarrow> local_tcp_rcv env skb st = rcv_regular lport rport (iph_saddr skb) skb st"
  "skb_carries st skb CONNECT lport rport \<Longrightarrow>
     local_tcp_rcv env skb st = rcv_connect env lport rport (iph_saddr skb) (iph_daddr skb) st"
  "skb_carries st skb CLOSE lport rport \<Longrightarrow> local_tcp_rcv env skb st = rcv_close lport rport (iph_saddr skb) st"
  "skb_carries st skb CONNECT_SUCCESS lport rport \<Longrightarrow>
     local_tcp_rcv env skb st = rcv_connect_success lport rport (iph_saddr skb) st"
  by (simp_all add: rcv_cases local_tcp_type_defs)

subsection \<open>A concrete environment\<close>

text \<open>
  The lowest free addresses from 1000 for sockets and from 2000 for nodes; a created socket is a
  cleared one of the protocol.
\<close>

definition demo_new_sock :: ltcp_sock where
  "demo_new_sock = demo_listener\<lparr>sk_inet := \<lparr>inet_saddr = 0, inet_daddr = 0, inet_sport = 0, inet_dport = 0,
     inet_num = 5\<rparr>, sk_state := TCP_CLOSE, sk_prot := Ltcp_Proto, sk_protocol := 5\<rparr>"

definition demo_garbage :: port_sk where
  "demo_garbage = \<lparr>psk_sk = None, psk_rport = 0xDEAD, psk_rip = 0xDEADBEEF, psk_next = Some 13, psk_previous = Some 13\<rparr>"

definition demo_kenv :: kenv where
  "demo_kenv = \<lparr>xenv = demo_env, fdenv = demo_fd_env,
     sk_clone_lock = (\<lambda>st k. case find (\<lambda>a. socks st a = None) [1000..<1100] of None \<Rightarrow> None
        | Some a \<Rightarrow> Some (a, k\<lparr>sk_receive_queue := []\<rparr>)),
     kmalloc_port_sk = (\<lambda>h. case find (\<lambda>a. h a = None) [2000..<2100] of None \<Rightarrow> None | Some a \<Rightarrow> Some (a, demo_garbage)),
     sock_create = (\<lambda>st. Inr (52, 1500, demo_new_sock)),
     tcp_close = (\<lambda>s st. st), tcp_v4_connect = (\<lambda>s a st. (- 101, st)),
     inet_csk_accept = (\<lambda>s st. (None, - 11, st)), sock_rcvtimeo = (\<lambda>k nb. if nb then 0 else 1000),
     sock_intr_errno = (\<lambda>t. - 4), alloc_skb = (\<lambda>_. True)\<rparr>"

definition demo_wire :: "u32 \<Rightarrow> u32 \<Rightarrow> u32 \<Rightarrow> ltcp_queue_msg" where
  "demo_wire type src dst = \<lparr>src_ip = src, dest_ip = dst, src_port = 0x931F, dest_port = 0x931F, msg_type = type,
     offset_from_aperture = 0, msg_size = 0\<rparr>"

text \<open>The node with one message in slot 0 of its receive ring, and the buffer for it.\<close>

definition demo_inbox :: "u32 \<Rightarrow> ltcp \<Rightarrow> ltcp" where
  "demo_inbox type st = st\<lparr>daemon := (daemon st)\<lparr>recv_queue := (recv_queue (daemon st))
     \<lparr>rq_queue := (\<lambda>_. demo_wire type 2 1)\<rparr>\<rparr>\<rparr>"

definition demo_skb :: sk_buff where
  "demo_skb = \<lparr>skb_msg = 0, iph_saddr = 2, iph_daddr = 1, skb_sk = None\<rparr>"

lemma demo_inbox:
  "skb_carries (demo_inbox type st) demo_skb type 0x931F 0x931F"
  "node_rel (demo_inbox type st) A = node_rel st A" "socks (demo_inbox type st) = socks st"
  "psks (demo_inbox type st) = psks st" "woken (demo_inbox type st) = woken st"
  by (simp_all add: demo_inbox_def skb_carries_def demo_skb_def demo_wire_def node_rel_def)

text \<open>
  A node with one connection to the peer 2 on port 8083, node 2000 and socket 600, either pending
  or established.
\<close>

definition demo_conn :: port_sk where
  "demo_conn = \<lparr>psk_sk = Some 600, psk_rport = 0x931F, psk_rip = 2, psk_next = None, psk_previous = None\<rparr>"

definition one_conn :: "port_table \<Rightarrow> port_table" where
  "one_conn arr = arr(8083 := (arr 8083)\<lparr>psa_head := Some 2000, psa_tail := Some 2000\<rparr>)"

definition demo_pending :: ltcp where
  "demo_pending = (let st = demo_node 1 2 in st\<lparr>psks := [2000 \<mapsto> demo_conn],
     incoming_conns := one_conn (incoming_conns st), socks := (socks st)(600 \<mapsto> demo_new_sock)\<rparr>)"

definition demo_established :: ltcp where
  "demo_established = (let st = demo_node 1 2 in st\<lparr>psks := [2000 \<mapsto> demo_conn],
     conns := one_conn (conns st), socks := (socks st)(600 \<mapsto> demo_new_sock)\<rparr>)"

definition at_8083 :: "conn list \<Rightarrow> nat \<Rightarrow> conn list" where
  "at_8083 es = (\<lambda>_. [])(8083 := es)"

lemma demo_conn_lists:
  "conn_lists [2000 \<mapsto> demo_conn] (one_conn (incoming_conns (demo_node 1 2))) (conns (demo_node 1 2)) {}
     (at_8083 [(Some 600, 0x931F, 2)]) (\<lambda>_. [])"
  by (rule conn_listsI [of _ _ _ "(\<lambda>_. [])(8083 := [2000])" "\<lambda>_. []"])
    (auto simp: tables_inv_def table_inv_def slot_nodes_def dll_def empty_table_def empty_slot_def
      at_8083_def one_conn_def demo_node_def demo_conn_def psk_payload_def)

lemma demo_conn_lists':
  "conn_lists [2000 \<mapsto> demo_conn] (incoming_conns (demo_node 1 2)) (one_conn (conns (demo_node 1 2))) {}
     (\<lambda>_. []) (at_8083 [(Some 600, 0x931F, 2)])"
  by (rule conn_listsI [of _ _ _ "\<lambda>_. []" "(\<lambda>_. [])(8083 := [2000])"])
    (auto simp: tables_inv_def table_inv_def slot_nodes_def dll_def empty_table_def empty_slot_def
      at_8083_def one_conn_def demo_node_def demo_conn_def psk_payload_def)

lemma demo_pending_rel:
  "node_rel demo_pending (no_conns\<lparr>cs_incoming := at_8083 [(Some 600, 0x931F, 2)]\<rparr>)"
  using demo_conn_lists demo_node_rel [of 1 2]
  by (simp add: node_rel_def demo_pending_def Let_def no_conns_def one_conn_def)

lemma demo_established_rel:
  "node_rel demo_established (no_conns\<lparr>cs_conns := at_8083 [(Some 600, 0x931F, 2)]\<rparr>)"
  using demo_conn_lists' demo_node_rel [of 1 2]
  by (simp add: node_rel_def demo_established_def Let_def no_conns_def)

lemma demo_socks:
  "socks demo_pending 600 = Some demo_new_sock" "socks demo_established 600 = Some demo_new_sock"
  "has_key 0x931F 2 (Some 600, 0x931F, 2)" "iph_saddr demo_skb = 2"
  "at_8083 es 8083 = es" "(at_8083 es)(8083 := fs) = at_8083 fs" "(\<lambda>_. [])(8083 := fs) = at_8083 fs"
  by (simp_all add: demo_pending_def demo_established_def Let_def has_key_def demo_skb_def at_8083_def)

subsection \<open>Properties\<close>

text \<open>
  Receiving CONNECT for a port with a listener and a peer not yet connected: the node gets
  exactly one new socket, in state SYN_RECV of the LTCP protocol with both addresses and ports
  of the message, queued last among the port's incoming connections under the peer's key, and
  the listener is woken once. Established connections, other ports, other sockets and the rings
  are untouched, the message is accepted.
\<close>

theorem connect_queues_connection:
  assumes "skb_carries st skb CONNECT lport rport" and "node_rel st A"
    and "port_index lport = i" and "i < MAX_NUMBER_OF_PORTS"
    and "cs_listening A i = Some ls" and "socks st ls = Some parent"
    and "\<forall>e \<in> set (cs_conns A i). \<not> has_key rport (iph_saddr skb) e"
    and "sk_clone_lock env st parent = Some (c, k)"
    and "kmalloc_port_sk env (psks st) = Some (p, n)" and "psks st p = None"
  shows "\<exists>st'. local_tcp_rcv env skb st = Inr (0, st') \<and>
    node_rel st' (A\<lparr>cs_incoming := (cs_incoming A)(i := cs_incoming A i @ [(Some c, rport, iph_saddr skb)])\<rparr>) \<and>
    (\<exists>k'. socks st' = (socks st)(c \<mapsto> k') \<and> sk_state k' = TCP_SYN_RECV \<and> sk_prot k' = Ltcp_Proto \<and>
       sk_inet k' = \<lparr>inet_saddr = iph_daddr skb, inet_daddr = iph_saddr skb, inet_sport = lport,
                     inet_dport = rport, inet_num = ntohs lport\<rparr> \<and> sk_receive_queue k' = sk_receive_queue k) \<and>
    woken st' = woken st @ [ls] \<and> daemon st' = daemon st"
proof -
  let ?k = "setup_clone lport rport (iph_saddr skb) (iph_daddr skb) k"
  from rcv_connect_new [OF assms(2) assms(3) [symmetric] assms(4-10), of "iph_daddr skb"]
    rcv_dispatch(2) [OF assms(1), of env]
  obtain st' where "local_tcp_rcv env skb st = Inr (0, st')" "socks st' = (socks st)(c \<mapsto> ?k)"
    "node_rel st' (add_incoming i (Some c, rport, iph_saddr skb) A)" "woken st' = woken st @ [ls]"
    "daemon st' = daemon st" by auto
  then show ?thesis
    unfolding add_incoming_def by (intro exI [of _ st'] conjI exI [of _ ?k]) (simp_all add: setup_clone_def)
qed

lemma demo_clone: "socks st 1000 = None \<Longrightarrow> sk_clone_lock demo_kenv st k = Some (1000, k\<lparr>sk_receive_queue := []\<rparr>)"
  by (simp add: demo_kenv_def upt_rec)

lemma demo_mem: "kmalloc_port_sk demo_kenv (\<lambda>_. None) = Some (2000, demo_garbage)"
  by (simp add: demo_kenv_def upt_rec)

lemma demo_node_fields:
  "psks (demo_node src dest) = (\<lambda>_. None)" "socks (demo_node src dest) 1000 = None" "socks (demo_node src dest) 500 = Some demo_listener"
  "woken (demo_node src dest) = []" "cs_listening no_conns 8083 = Some 500" "cs_conns no_conns i = []"
  "cs_incoming no_conns i = []"
  by (simp_all add: demo_node_def no_conns_def)

theorem connect_queues_connection_witness:
  "\<exists>st'. local_tcp_rcv demo_kenv demo_skb (demo_inbox CONNECT (demo_node 1 2)) = Inr (0, st') \<and>
     node_rel st' (no_conns\<lparr>cs_incoming := (\<lambda>_. [])(8083 := [(Some 1000, 0x931F, 2)])\<rparr>) \<and> woken st' = [500]"
  using connect_queues_connection [OF demo_inbox(1), where A = no_conns and i = 8083 and ls = 500
      and parent = demo_listener and c = 1000 and p = 2000 and n = demo_garbage and env = demo_kenv
      and k = "demo_listener\<lparr>sk_receive_queue := []\<rparr>", of "demo_node 1 2"]
    demo_node_rel [of 1 2] demo_port demo_mem
  by (auto simp: demo_inbox demo_node_fields demo_clone demo_skb_def no_conns_def)

lemma empty_listeners: "psa_listening_sock (empty_table i) = None"
  by (simp add: empty_table_def empty_slot_def)

text \<open>
  CONNECT is ignored without trace in the two other cases: nobody ever listened at the port,
  or a connection to the same peer and ports is established. The node is unchanged and the
  message counts as handled, so the peer is never told.
\<close>

theorem connect_ignored:
  assumes "skb_carries st skb CONNECT lport rport" and "node_rel st A"
    and "port_index lport = i" and "i < MAX_NUMBER_OF_PORTS"
    and "cs_listening A i = None \<or> (\<exists>e \<in> set (cs_conns A i). has_key rport (iph_saddr skb) e)"
  shows "local_tcp_rcv env skb st = Inr (0, st)"
  using rcv_dispatch(2) [OF assms(1), of env] assms(5)
    rcv_connect_no_listener [OF assms(2) assms(3) [symmetric] assms(4)]
    rcv_connect_exists [OF assms(2) assms(3) [symmetric] assms(4)]
  by auto

theorem connect_ignored_witness:
  "\<exists>skb st. node_rel st (no_conns\<lparr>cs_listening := \<lambda>_. None\<rparr>) \<and> local_tcp_rcv demo_kenv skb st = Inr (0, st)"
proof -
  let ?st = "demo_inbox CONNECT (demo_node 1 2\<lparr>incoming_conns := empty_table\<rparr>)"
  have rel: "node_rel ?st (no_conns\<lparr>cs_listening := \<lambda>_. None\<rparr>)"
    unfolding demo_inbox(2) unfolding node_rel_def
    by (simp add: conn_lists_empty demo_node_def no_conns_def empty_listeners)
  from connect_ignored [OF demo_inbox(1) rel, of 8083 demo_kenv] demo_port rel show ?thesis
    by (intro exI [of _ demo_skb] exI [of _ ?st]) simp
qed

text \<open>
  Receiving data: the message goes to the socket of the first connection of the port with the
  peer's port and address, at the end of its receive queue, whose reader is notified once;
  nothing else changes. Without such a connection it is refused with -1 and nothing changes.
\<close>

theorem data_reaches_its_socket:
  assumes "skb_carries st skb REGULAR lport rport" and "node_rel st A"
    and "port_index lport = i" and "i < MAX_NUMBER_OF_PORTS"
    and "\<forall>e \<in> set (cs_conns A i). \<exists>s k. fst e = Some s \<and> socks st s = Some k"
  shows "local_tcp_rcv env skb st =
    (case find (has_key rport (iph_saddr skb)) (cs_conns A i) of
       None \<Rightarrow> Inr (- 1, st)
     | Some (s, _) \<Rightarrow> Inr (0, st\<lparr>socks := (socks st)(the s \<mapsto>
         (the (socks st (the s)))\<lparr>sk_receive_queue := sk_receive_queue (the (socks st (the s))) @ [skb\<lparr>skb_sk := s\<rparr>],
            sk_data_ready := sk_data_ready (the (socks st (the s))) + 1\<rparr>)\<rparr>))"
proof (cases "find (has_key rport (iph_saddr skb)) (cs_conns A i)")
  case None
  then have "\<forall>e \<in> set (cs_conns A i). \<not> has_key rport (iph_saddr skb) e"
    by (auto simp: find_None_iff)
  from rcv_regular_unknown [OF assms(2) assms(3) [symmetric] assms(4) this] None rcv_dispatch(1) [OF assms(1)]
  show ?thesis by simp
next
  case (Some e)
  from find_split [OF Some] obtain us vs where
    s: "cs_conns A i = us @ e # vs" "has_key rport (iph_saddr skb) e" "\<forall>u \<in> set us. \<not> has_key rport (iph_saddr skb) u"
    by blast
  then obtain t k where t: "e = (Some t, rport, iph_saddr skb)" "socks st t = Some k"
    using assms(5) by (cases e) (auto simp: has_key_def)
  from rcv_regular_found [OF assms(2) assms(3) [symmetric] assms(4) s(1) [unfolded t(1)] s(3) t(2)]
    Some t rcv_dispatch(1) [OF assms(1)] show ?thesis by simp
qed

theorem data_reaches_its_socket_witness:
  "\<exists>st' k. local_tcp_rcv demo_kenv demo_skb (demo_inbox REGULAR demo_established) = Inr (0, st') \<and>
     socks st' 600 = Some k \<and> sk_receive_queue k = [demo_skb\<lparr>skb_sk := Some 600\<rparr>]"
  using data_reaches_its_socket [OF demo_inbox(1), where i = 8083 and env = demo_kenv and
      A = "no_conns\<lparr>cs_conns := at_8083 [(Some 600, 0x931F, 2)]\<rparr>", of demo_established]
    demo_established_rel demo_port
  by (simp add: demo_inbox demo_socks demo_new_sock_def demo_listener_def)

text \<open>
  CONNECT_SUCCESS on the connecting side moves the pending connection of that peer from the
  incoming to the established list, keeping its socket; for an unknown peer it does nothing.
  (The pending entry must not be the last of several: then \<open>remove_port_sk\<close> leaves a stale tail.)
\<close>

theorem success_establishes:
  assumes "skb_carries st skb CONNECT_SUCCESS lport rport" and "node_rel st A"
    and "port_index lport = i" and "i < MAX_NUMBER_OF_PORTS"
    and "cs_incoming A i = us @ vs" and "\<forall>e \<in> set us. \<not> has_key rport (iph_saddr skb) e"
    and "case vs of [] \<Rightarrow> True | v # vs' \<Rightarrow> has_key rport (iph_saddr skb) v \<and> (us = [] \<or> vs' \<noteq> [])"
  shows "\<exists>st'. local_tcp_rcv env skb st = Inr (0, st') \<and> socks st' = socks st \<and> daemon st' = daemon st \<and>
    node_rel st' (case vs of [] \<Rightarrow> A
      | v # vs' \<Rightarrow> A\<lparr>cs_incoming := (cs_incoming A)(i := us @ vs'), cs_conns := (cs_conns A)(i := cs_conns A i @ [v])\<rparr>)"
proof (cases vs)
  case Nil
  with assms(5,6) have "\<forall>e \<in> set (cs_incoming A i). \<not> has_key rport (iph_saddr skb) e" by simp
  from rcv_connect_success_unknown [OF assms(2) assms(3) [symmetric] assms(4) this] Nil assms(2)
    rcv_dispatch(4) [OF assms(1)] show ?thesis by simp
next
  case (Cons v vs')
  then obtain s where v: "v = (s, rport, iph_saddr skb)"
    using assms(7) by (cases v) (auto simp: has_key_def)
  from assms(7) Cons have p: "us = [] \<or> vs' \<noteq> []" by simp
  from assms(5) Cons v have "cs_incoming A i = us @ (s, rport, iph_saddr skb) # vs'" by simp
  from rcv_connect_success_found [OF assms(2) assms(3) [symmetric] assms(4) this assms(6) p]
    rcv_dispatch(4) [OF assms(1)] Cons v show ?thesis
    by (auto simp: establish_def)
qed

theorem success_establishes_witness:
  "\<exists>st'. local_tcp_rcv demo_kenv demo_skb (demo_inbox CONNECT_SUCCESS demo_pending) = Inr (0, st') \<and>
     node_rel st' (no_conns\<lparr>cs_incoming := at_8083 [], cs_conns := at_8083 [(Some 600, 0x931F, 2)]\<rparr>)"
  using success_establishes [OF demo_inbox(1), where i = 8083 and env = demo_kenv and us = "[]" and
      vs = "[(Some 600, 0x931F, 2)]" and
      A = "no_conns\<lparr>cs_incoming := at_8083 [(Some 600, 0x931F, 2)]\<rparr>", of demo_pending]
    demo_pending_rel demo_port
  by (auto simp: demo_inbox demo_socks no_conns_def)

text \<open>
  CLOSE ends the connection: the peer's entry leaves the established list, its node is freed
  and its socket is in state CLOSE; all other connections and sockets are kept. (As above the
  entry must not be the last of several.)
\<close>

theorem close_disconnects:
  assumes "skb_carries st skb CLOSE lport rport" and "node_rel st A"
    and "port_index lport = i" and "i < MAX_NUMBER_OF_PORTS"
    and "cs_conns A i = us @ (Some s, rport, iph_saddr skb) # vs"
    and "\<forall>e \<in> set us. \<not> has_key rport (iph_saddr skb) e"
    and "us = [] \<or> vs \<noteq> []" and "socks st s = Some k"
  shows "\<exists>st'. local_tcp_rcv env skb st = Inr (0, st') \<and>
    node_rel st' (A\<lparr>cs_conns := (cs_conns A)(i := us @ vs)\<rparr>) \<and>
    socks st' = (socks st)(s \<mapsto> k\<lparr>sk_state := TCP_CLOSE\<rparr>) \<and> daemon st' = daemon st"
  using rcv_close_found [OF assms(2) assms(3) [symmetric] assms(4-8)] rcv_dispatch(3) [OF assms(1), of env]
  by (auto simp: disconnect_def)

theorem close_disconnects_witness:
  "\<exists>st'. local_tcp_rcv demo_kenv demo_skb (demo_inbox CLOSE demo_established) = Inr (0, st') \<and>
     node_rel st' (no_conns\<lparr>cs_conns := at_8083 []\<rparr>)"
  using close_disconnects [OF demo_inbox(1), where i = 8083 and env = demo_kenv and us = "[]" and vs = "[]" and
      s = 600 and k = demo_new_sock and
      A = "no_conns\<lparr>cs_conns := at_8083 [(Some 600, 0x931F, 2)]\<rparr>", of demo_established]
    demo_established_rel demo_port
  by (auto simp: demo_inbox demo_socks no_conns_def)

text \<open>
  CLOSE for a connection the node does not have dereferences NULL in the interrupt handler:
  the socket's state is set through the result of \<open>remove_port_sk\<close> before that is checked. This
  is what happens on both machines when both sides close at the same time.
\<close>

theorem close_without_connection_crashes:
  assumes "skb_carries st skb CLOSE lport rport" and "node_rel st A"
    and "port_index lport = i" and "i < MAX_NUMBER_OF_PORTS"
    and "\<forall>e \<in> set (cs_conns A i). \<not> has_key rport (iph_saddr skb) e"
  shows "local_tcp_rcv env skb st = Inl NullDeref"
  using rcv_close_unknown [OF assms(2) assms(3) [symmetric] assms(4,5)] rcv_dispatch(3) [OF assms(1), of env]
  by simp

theorem close_without_connection_crashes_witness:
  "local_tcp_rcv demo_kenv demo_skb (demo_inbox CLOSE (demo_node 1 2)) = Inl NullDeref"
  using close_without_connection_crashes [OF demo_inbox(1), where A = no_conns and i = 8083, of "demo_node 1 2"]
    demo_node_rel [of 1 2] demo_port
  by (simp add: demo_inbox demo_node_fields)

text \<open>
  C18. \<open>connect\<close> to the machine's own RDMA peer, on a ring with room and with all kernel calls
  succeeding: returns 0; the new socket carries the address pair, with the destination port
  also as its own port, and is pending under the peer's key; the caller's descriptor table
  is the exchanged one; and exactly one CONNECT message with those addresses and ports is
  published to the peer. No other connection, socket or ring changes.
\<close>

theorem connect_announces:
  assumes "node_rel st A" and "port_index port = i" and "i < MAX_NUMBER_OF_PORTS"
    and "sock_create env st = Inr (sock, s, k0)" and "socks st sk = Some k" and "s \<noteq> sk"
    and "replace_socket_filedescriptor (fdenv env) sock (sk_socket k) (files st) = Inr (0, fs)"
    and "ip = ucast (dest_IP st)" and "ip \<noteq> 0" and "ucast (src_IP st) \<noteq> (0 :: u32)"
    and "kmalloc_port_sk env (psks st) = Some (p, n)" and "psks st p = None"
    and "\<not> send_queue_lock (daemon st)" and "ring_ok (send_queue (daemon st))" and "\<not> ring_full (send_queue (daemon st))"
    and "sci_trigger_interrupt (xenv env) (interrupts (daemon st)) = ESCI_OK (xenv env)"
  shows "\<exists>st' k'. ltcp_tcp_v4_connect_wrapper cfg env sk (port, ip) st = Inr (0, st') \<and>
    node_rel st' (A\<lparr>cs_incoming := (cs_incoming A)(i := cs_incoming A i @ [(Some s, port, ip)])\<rparr>) \<and>
    socks st' = (socks st)(s \<mapsto> k', sk \<mapsto> k\<lparr>defer_connect := True\<rparr>) \<and>
    inet_sport (sk_inet k') = port \<and> inet_dport (sk_inet k') = port \<and> inet_daddr (sk_inet k') = ip \<and>
    inet_saddr (sk_inet k') = ucast (src_IP st) \<and> files st' = fs \<and>
    recv_queue (daemon st') = recv_queue (daemon st) \<and>
    map (rq_queue (send_queue (daemon st'))) (pending (send_queue (daemon st'))) =
      map (rq_queue (send_queue (daemon st))) (pending (send_queue (daemon st))) @
      [\<lparr>src_ip = ucast (src_IP st), dest_ip = ip, src_port = ucast port, dest_port = ucast port,
        msg_type = CONNECT, offset_from_aperture = 0, msg_size = 0\<rparr>]"
proof -
  from connect_sends [OF assms(1) assms(2) [symmetric] assms(3-16), of cfg] obtain st' q where
    c: "ltcp_tcp_v4_connect_wrapper cfg env sk (port, ip) st = Inr (0, st')"
    "node_rel st' (add_incoming i (Some s, port, ip) A)"
    "socks st' = (socks st)(s \<mapsto> k0\<lparr>sk_inet := client_inet port ip (ucast (src_IP st)) (sk_inet k0)\<rparr>,
                           sk \<mapsto> k\<lparr>defer_connect := True\<rparr>)"
    "files st' = fs" "daemon st' = (daemon st)\<lparr>send_queue := q, interrupts := interrupts (daemon st) + 1\<rparr>"
    "map (rq_queue q) (pending q) = map (rq_queue (send_queue (daemon st))) (pending (send_queue (daemon st))) @
      [xmit_message (client_inet port ip (ucast (src_IP st)) (sk_inet k0)) CONNECT 0 0]"
    by auto
  let ?k' = "k0\<lparr>sk_inet := client_inet port ip (ucast (src_IP st)) (sk_inet k0)\<rparr>"
  show ?thesis
    using c by (intro exI [of _ st'] exI [of _ ?k'])
      (simp add: add_incoming_def client_inet_def xmit_message_def)
qed

lemma demo_node_more:
  "files (demo_node src dest) = demo_files" "src_IP (demo_node src dest) = src" "dest_IP (demo_node src dest) = dest"
  "sk_socket demo_listener = Some 50"
  by (simp_all add: demo_node_def demo_listener_def)

lemma demo_replace:
  "\<exists>fs. replace_socket_filedescriptor demo_fd_env 52 (Some 50) demo_files = Inr (0, fs)"
  using demo_fd by (simp add: replace_socket_filedescriptor_def demo_fd_env_def demo_files_def)

lemma demo_kenv_fields:
  "sock_create demo_kenv st = Inr (52, 1500, demo_new_sock)" "fdenv demo_kenv = demo_fd_env"
  "sci_trigger_interrupt (xenv demo_kenv) n = ESCI_OK (xenv demo_kenv)"
  by (simp_all add: demo_kenv_def demo_env_def)

theorem connect_announces_witness:
  "\<exists>st'. ltcp_tcp_v4_connect_wrapper default_config demo_kenv 500 (0x931F, 2) (demo_node 1 2) = Inr (0, st') \<and>
     node_rel st' (no_conns\<lparr>cs_incoming := at_8083 [(Some 1500, 0x931F, 2)]\<rparr>)"
proof -
  obtain fs where "replace_socket_filedescriptor demo_fd_env 52 (Some 50) demo_files = Inr (0, fs)"
    using demo_replace by blast
  then show ?thesis
    using connect_announces [OF demo_node_rel [of 1 2] demo_port, of demo_kenv 52 1500 demo_new_sock 500
        demo_listener fs 2 2000 demo_garbage default_config] demo_ring_empty demo_mem
    by (auto simp: demo_node_fields demo_node_more demo_kenv_fields demo_node_daemon demo_socks no_conns_def)
qed

text \<open>
  C19. \<open>accept\<close> with a connection waiting, non-blocking or not, returns immediately with the
  socket of the oldest one: it leaves the incoming list, is appended to the established list,
  and exactly one CONNECT_SUCCESS with that socket's addresses is published to the peer.
\<close>

theorem accept_establishes_oldest:
  assumes "node_rel st A" and "socks st sk = Some k" and "inet_sport (sk_inet k) = lport"
    and "icsk_accept_queue k = []" and "port_index lport = i" and "i < MAX_NUMBER_OF_PORTS"
    and "cs_incoming A i = (Some s, rport, rip) # vs" and "socks st s = Some c"
    and "\<not> send_queue_lock (daemon st)" and "ring_ok (send_queue (daemon st))" and "\<not> ring_full (send_queue (daemon st))"
    and "sci_trigger_interrupt (xenv env) (interrupts (daemon st)) = ESCI_OK (xenv env)"
  shows "\<exists>st'. ltcp_inet_csk_accept cfg env sk nonblock naps st = Inr (Some s, 0, st') \<and>
    node_rel st' (A\<lparr>cs_incoming := (cs_incoming A)(i := vs),
                   cs_conns := (cs_conns A)(i := cs_conns A i @ [(Some s, rport, rip)])\<rparr>) \<and>
    socks st' = socks st \<and> recv_queue (daemon st') = recv_queue (daemon st) \<and>
    map (rq_queue (send_queue (daemon st'))) (pending (send_queue (daemon st'))) =
      map (rq_queue (send_queue (daemon st))) (pending (send_queue (daemon st))) @
      [xmit_message (sk_inet c) CONNECT_SUCCESS 0 0]"
proof -
  from accept_ready [OF assms(1-4) assms(5) [symmetric] assms(6-12), of cfg nonblock naps] obtain st' q where
    "ltcp_inet_csk_accept cfg env sk nonblock naps st = Inr (Some s, 0, st')"
    "node_rel st' (establish i [] (Some s, rport, rip) vs A)" "socks st' = socks st"
    "daemon st' = (daemon st)\<lparr>send_queue := q, interrupts := interrupts (daemon st) + 1\<rparr>"
    "map (rq_queue q) (pending q) = map (rq_queue (send_queue (daemon st))) (pending (send_queue (daemon st))) @
      [xmit_message (sk_inet c) CONNECT_SUCCESS 0 0]"
    by auto
  then show ?thesis
    by (intro exI [of _ st']) (simp add: establish_def)
qed

theorem accept_establishes_oldest_witness:
  "\<exists>st'. ltcp_inet_csk_accept default_config demo_kenv 500 True [] demo_pending = Inr (Some 600, 0, st') \<and>
     node_rel st' (no_conns\<lparr>cs_incoming := at_8083 [], cs_conns := at_8083 [(Some 600, 0x931F, 2)]\<rparr>)"
proof -
  have f: "socks demo_pending 500 = Some demo_listener" "inet_sport (sk_inet demo_listener) = 0x931F"
    "icsk_accept_queue demo_listener = []" "daemon demo_pending = demo_rdma 0 0 1"
    by (simp_all add: demo_pending_def Let_def demo_node_def demo_listener_def)
  show ?thesis
    using accept_establishes_oldest [OF demo_pending_rel f(1-3) demo_port, of 600 "0x931F" 2 "[]" demo_new_sock
        demo_kenv default_config True "[]"] demo_ring_empty
    by (auto simp: f demo_kenv_fields demo_node_daemon demo_socks no_conns_def)
qed

text \<open>
  \<open>accept\<close> with nothing waiting never answers at once with a connection: on a non-blocking
  socket it returns NULL and -EAGAIN and changes nothing, so a socket that only accepts
  non-blocking never registers as the port's listener; on a blocking one it registers before
  it sleeps, and with nobody to wake it sleeps for ever.
\<close>

theorem accept_empty:
  assumes "node_rel st A" and "socks st sk = Some k" and "inet_sport (sk_inet k) = lport"
    and "icsk_accept_queue k = []" and "port_index lport = i" and "i < MAX_NUMBER_OF_PORTS"
    and "cs_incoming A i = []"
  shows "ltcp_inet_csk_accept cfg env sk nonblock [] st =
    (if sock_rcvtimeo env k nonblock = 0 then Inr (None, - EAGAIN, st) else Inl Blocked) \<and>
    (\<forall>naps. wait_on_connection env sk nonblock naps st =
       (if sock_rcvtimeo env k nonblock = 0 then Inr (- EAGAIN, st)
        else wait_loop env sk lport naps
          (st\<lparr>incoming_conns := (incoming_conns st)(i := (incoming_conns st i)\<lparr>psa_listening_sock := Some sk\<rparr>)\<rparr>)))"
proof -
  have e: "queues_empty sk lport st = Inr True"
    using queues_empty_node [OF assms(1) assms(5) [symmetric] assms(6,2)] assms(4,7) by simp
  let ?st = "st\<lparr>incoming_conns := (incoming_conns st)(i := (incoming_conns st i)\<lparr>psa_listening_sock := Some sk\<rparr>)\<rparr>"
  have u: "\<not> psa_lock (incoming_conns st i)"
    using assms(1,6) by (auto simp: node_rel_def conn_lists_def tables_inv_def table_inv_def)
  have reg: "add_listening_sk_port_sk_arr (incoming_conns st) lport (Some sk) = Inr (incoming_conns ?st)"
  proof -
    have "e\<lparr>psa_lock := False, psa_listening_sock := Some sk\<rparr> = e\<lparr>psa_listening_sock := Some sk\<rparr>"
      if "\<not> psa_lock e" for e :: port_sk_arr
      using that by (cases e) simp
    then show ?thesis
      using u assms(5,6) by (simp add: add_listening_sk_port_sk_arr_def pf_ops)
  qed
  have w: "wait_on_connection env sk nonblock naps st =
       (if sock_rcvtimeo env k nonblock = 0 then Inr (- EAGAIN, st) else wait_loop env sk lport naps ?st)" for naps
    using e reg assms(2,3) by (simp add: wait_on_connection_def)
  have "queues_empty sk lport ?st = Inr True"
    using e assms(2,4,5,6) by (auto simp: queues_empty_def portsk_queue_empty_def get_slot_def split: if_splits)
  then have "wait_loop env sk lport [] ?st = Inl Blocked" by simp
  with w assms(2,3) show ?thesis
    by (simp add: ltcp_inet_csk_accept_def EAGAIN_def)
qed

theorem accept_empty_witness:
  "ltcp_inet_csk_accept default_config demo_kenv 500 True [] (demo_node 1 2) = Inr (None, - 11, demo_node 1 2) \<and>
   ltcp_inet_csk_accept default_config demo_kenv 500 False [] (demo_node 1 2) = Inl Blocked"
proof -
  have f: "inet_sport (sk_inet demo_listener) = 0x931F" "icsk_accept_queue demo_listener = []"
    "sock_rcvtimeo demo_kenv demo_listener True = 0" "sock_rcvtimeo demo_kenv demo_listener False = 1000"
    by (simp_all add: demo_listener_def demo_kenv_def)
  show ?thesis
    using accept_empty [OF demo_node_rel [of 1 2] demo_node_fields(3) f(1,2) demo_port demo_node_fields(7),
        of default_config demo_kenv True]
      accept_empty [OF demo_node_rel [of 1 2] demo_node_fields(3) f(1,2) demo_port demo_node_fields(7),
        of default_config demo_kenv False]
    by (simp add: f EAGAIN_def)
qed

end
