(* ===== verification/Two_Nodes.thy ===== *)
theory Two_Nodes
  imports Ltcp_Protocol
begin

text \<open>
  Two machines connected back to back: the ring one node sends on is the ring the other receives
  from, in one shared memory. \<open>on_a\<close> and \<open>on_b\<close> run an operation on one node and make its
  stores to the rings visible to the other.
\<close>

type_synonym pair = "ltcp \<times> ltcp"

definition mirror :: "ltcp \<Rightarrow> ltcp \<Rightarrow> ltcp" where
  "mirror a b = b\<lparr>daemon := (daemon b)\<lparr>recv_queue := send_queue (daemon a), send_queue := recv_queue (daemon a)\<rparr>\<rparr>"

definition coupled :: "pair \<Rightarrow> bool" where
  "coupled = (\<lambda>(a, b). recv_queue (daemon b) = send_queue (daemon a) \<and> send_queue (daemon b) = recv_queue (daemon a))"

definition on_a :: "(ltcp \<Rightarrow> ('r \<times> ltcp) res) \<Rightarrow> pair \<Rightarrow> ('r \<times> pair) res" where
  "on_a f = (\<lambda>(a, b). rbind (f a) (\<lambda>(r, a'). Inr (r, (a', mirror a' b))))"

definition on_b :: "(ltcp \<Rightarrow> ('r \<times> ltcp) res) \<Rightarrow> pair \<Rightarrow> ('r \<times> pair) res" where
  "on_b f = (\<lambda>(a, b). rbind (f b) (\<lambda>(r, b'). Inr (r, (mirror b' a, b'))))"

lemma mirror_fields [simp]:
  "node_rel (mirror a b) A = node_rel b A" "socks (mirror a b) = socks b" "woken (mirror a b) = woken b"
  "psks (mirror a b) = psks b" "src_IP (mirror a b) = src_IP b" "dest_IP (mirror a b) = dest_IP b"
  "recv_queue (daemon (mirror a b)) = send_queue (daemon a)" "send_queue (daemon (mirror a b)) = recv_queue (daemon a)"
  "send_queue_lock (daemon (mirror a b)) = send_queue_lock (daemon b)"
  "recv_queue_lock (daemon (mirror a b)) = recv_queue_lock (daemon b)"
  "interrupts (daemon (mirror a b)) = interrupts (daemon b)" "files (mirror a b) = files b"
  by (simp_all add: mirror_def node_rel_def)

lemma coupled_mirror [simp]: "coupled (a, mirror a b)" "coupled (mirror b a, b)"
  by (simp_all add: coupled_def)

subsection \<open>One message through the interrupt handler\<close>

lemma interrupt_one:
  assumes "ring_ok (recv_queue (daemon st))" and "pending (recv_queue (daemon st)) = [i]"
    and "\<not> recv_queue_lock (daemon st)" and "alloc_skb env i"
    and handler: "\<And>d. rq_queue (recv_queue d) = rq_queue (recv_queue (daemon st)) \<Longrightarrow>
      \<exists>st2. local_tcp_rcv env (slot_skb st i) (st\<lparr>daemon := d\<rparr>) = Inr (0, st2) \<and> P st2"
    and P: "\<And>x d. P x \<Longrightarrow> P (x\<lparr>daemon := d\<rparr>)"
  shows "\<exists>st' rq. interrupt_callback env st = Inr (0, st') \<and> P st' \<and>
    daemon st' = (daemon st)\<lparr>recv_queue := rq\<rparr> \<and> ring_ok rq \<and> pending rq = [] \<and>
    rq_queue rq = rq_queue (recv_queue (daemon st))"
proof -
  let ?st = "st\<lparr>daemon := (daemon st)\<lparr>recv_queue_lock := True\<rparr>\<rparr>"
  have sk: "slot_skb ?st i = slot_skb st i" by (simp add: slot_skb_def)
  from recv_loop_Cons [of ?st i "[]" env] assms(1,2) obtain rq where
    step: "recv_loop env ?st =
      (if \<not> alloc_skb env i then Some (Inl NullDeref)
       else case local_tcp_rcv env (slot_skb ?st i) (with_recv_queue rq ?st) of
              Inl e \<Rightarrow> Some (Inl e)
            | Inr (rc, st2) \<Rightarrow> if rc \<noteq> 0 then Some (Inr (- 1, st2)) else recv_loop env st2)"
    and rq: "ring_ok rq" "pending rq = []" "rq_queue rq = rq_queue (recv_queue (daemon st))"
    by auto
  let ?d = "(daemon st)\<lparr>recv_queue_lock := True, recv_queue := rq\<rparr>"
  have w: "with_recv_queue rq ?st = st\<lparr>daemon := ?d\<rparr>" by (simp add: with_recv_queue_def)
  from handler [of ?d] rq(3) obtain st2 where
    st2: "local_tcp_rcv env (slot_skb st i) (st\<lparr>daemon := ?d\<rparr>) = Inr (0, st2)" "P st2" by auto
  have d2: "daemon st2 = ?d" using keeps_daemonD [OF local_tcp_rcv_daemon st2(1)] by simp
  with recv_loop_Nil [of st2 env] rq obtain rq' where
    fin: "recv_loop env st2 = Some (Inr (0, with_recv_queue rq' st2))" "ring_ok rq'" "pending rq' = []"
    "rq_queue rq' = rq_queue (recv_queue (daemon st))"
    by auto
  let ?st3 = "with_recv_queue rq' st2"
  let ?st' = "?st3\<lparr>daemon := (daemon ?st3)\<lparr>recv_queue_lock := False\<rparr>\<rparr>"
  have "recv_loop env ?st = Some (Inr (0, ?st3))"
    using step assms(4) st2(1) fin(1) by (simp add: sk w)
  then have call: "interrupt_callback env st = Inr (0, ?st')"
    using assms(3) by (simp add: interrupt_callback_def rdma_recv_def)
  have "P ?st'" using st2(2) P unfolding with_recv_queue_def by simp
  moreover have "daemon ?st' = (daemon st)\<lparr>recv_queue := rq'\<rparr>"
    using assms(3) by (cases "daemon st") (simp add: with_recv_queue_def d2)
  ultimately show ?thesis using call fin(2-4) by blast
qed

lemma interrupt_faults:
  assumes "ring_ok (recv_queue (daemon st))" and "pending (recv_queue (daemon st)) = i # is"
    and "\<not> recv_queue_lock (daemon st)" and "alloc_skb env i"
    and handler: "\<And>d. rq_queue (recv_queue d) = rq_queue (recv_queue (daemon st)) \<Longrightarrow>
      local_tcp_rcv env (slot_skb st i) (st\<lparr>daemon := d\<rparr>) = Inl e"
  shows "interrupt_callback env st = Inl e"
proof -
  let ?st = "st\<lparr>daemon := (daemon st)\<lparr>recv_queue_lock := True\<rparr>\<rparr>"
  have sk: "slot_skb ?st i = slot_skb st i" by (simp add: slot_skb_def)
  from recv_loop_Cons [of ?st i "is" env] assms(1,2) obtain rq where
    step: "recv_loop env ?st =
      (if \<not> alloc_skb env i then Some (Inl NullDeref)
       else case local_tcp_rcv env (slot_skb ?st i) (with_recv_queue rq ?st) of
              Inl e \<Rightarrow> Some (Inl e)
            | Inr (rc, st2) \<Rightarrow> if rc \<noteq> 0 then Some (Inr (- 1, st2)) else recv_loop env st2)"
    and rq: "rq_queue rq = rq_queue (recv_queue (daemon st))"
    by auto
  have "with_recv_queue rq ?st = st\<lparr>daemon := (daemon st)\<lparr>recv_queue_lock := True, recv_queue := rq\<rparr>\<rparr>"
    by (simp add: with_recv_queue_def)
  with handler [of "(daemon st)\<lparr>recv_queue_lock := True, recv_queue := rq\<rparr>"] rq step assms(4)
  have "recv_loop env ?st = Some (Inl e)" by (simp add: sk)
  then show ?thesis using assms(3) by (simp add: interrupt_callback_def rdma_recv_def)
qed

lemma one_pending:
  "map (rq_queue q) (pending q) = [m] \<Longrightarrow> \<exists>i. pending q = [i] \<and> rq_queue q i = m"
  by (cases "pending q") auto

lemma port_through_u32 [simp]: "ucast (ucast (p :: u16) :: u32) = p"
  by (rule bit_word_eqI) (auto simp: bit_simps)

subsection \<open>The handshake\<close>

definition link_idle :: "pair \<Rightarrow> bool" where
  "link_idle = (\<lambda>(a, b). coupled (a, b) \<and>
     ring_ok (send_queue (daemon a)) \<and> pending (send_queue (daemon a)) = [] \<and>
     ring_ok (recv_queue (daemon a)) \<and> pending (recv_queue (daemon a)) = [] \<and>
     \<not> send_queue_lock (daemon a) \<and> \<not> recv_queue_lock (daemon a) \<and>
     \<not> send_queue_lock (daemon b) \<and> \<not> recv_queue_lock (daemon b))"

text \<open>Interrupts are triggered and buffers allocated without error.\<close>

definition env_ok :: "kenv \<Rightarrow> bool" where
  "env_ok env \<longleftrightarrow> (\<forall>n. sci_trigger_interrupt (xenv env) n = ESCI_OK (xenv env)) \<and> (\<forall>i. alloc_skb env i)"

definition client_ready :: "kenv \<Rightarrow> addr \<Rightarrow> addr \<Rightarrow> ltcp \<Rightarrow> bool" where
  "client_ready env sk s st \<longleftrightarrow> (\<exists>sock k0 k fs p n.
     sock_create env st = Inr (sock, s, k0) \<and> socks st sk = Some k \<and> s \<noteq> sk \<and>
     replace_socket_filedescriptor (fdenv env) sock (sk_socket k) (files st) = Inr (0, fs) \<and>
     kmalloc_port_sk env (psks st) = Some (p, n) \<and> psks st p = None)"

definition server_ready :: "kenv \<Rightarrow> addr \<Rightarrow> addr \<Rightarrow> u16 \<Rightarrow> ltcp \<Rightarrow> bool" where
  "server_ready env lsk c port st \<longleftrightarrow> (\<exists>l k p n.
     socks st lsk = Some l \<and> inet_sport (sk_inet l) = port \<and> icsk_accept_queue l = [] \<and>
     (\<forall>st'. socks st' = socks st \<longrightarrow> sk_clone_lock env st' l = Some (c, k)) \<and> c \<noteq> lsk \<and>
     kmalloc_port_sk env (psks st) = Some (p, n) \<and> psks st p = None)"

definition accept_call :: "config \<Rightarrow> kenv \<Rightarrow> addr \<Rightarrow> ltcp \<Rightarrow> ((addr option \<times> int) \<times> ltcp) res" where
  "accept_call cfg env lsk st = rbind (ltcp_inet_csk_accept cfg env lsk True [] st) (\<lambda>(s, e, st'). Inr ((s, e), st'))"

definition handshake ::
    "config \<Rightarrow> kenv \<Rightarrow> kenv \<Rightarrow> addr \<Rightarrow> addr \<Rightarrow> u16 \<times> u32 \<Rightarrow> pair \<Rightarrow> ((int \<times> int \<times> (addr option \<times> int) \<times> int) \<times> pair) res" where
  "handshake cfg ea eb sk lsk uaddr p =
     rbind (on_a (ltcp_tcp_v4_connect_wrapper cfg ea sk uaddr) p) (\<lambda>(r1, p1).
     rbind (on_b (interrupt_callback eb) p1) (\<lambda>(r2, p2).
     rbind (on_b (accept_call cfg eb lsk) p2) (\<lambda>(r3, p3).
     rbind (on_a (interrupt_callback ea) p3) (\<lambda>(r4, p4). Inr ((r1, r2, r3, r4), p4)))))"

lemma empty_not_full: "ring_ok q \<Longrightarrow> length (pending q) < ring_capacity \<Longrightarrow> \<not> ring_full q"
  using ring_full_length by (meson leD)

lemma capacity_pos [simp]: "0 < ring_capacity" by (simp add: ring_capacity_def LTCP_MSG_QUEUE_SIZE)

lemma handshake_server:
  assumes rel: "node_rel b B" and i: "i = port_index port" "i < MAX_NUMBER_OF_PORTS"
    and idle: "cs_incoming B i = []" "\<forall>e \<in> set (cs_conns B i). \<not> has_key port ipa e"
    and lsk: "cs_listening B i = Some lsk" and ready: "server_ready eb lsk c port b" and env: "env_ok eb"
    and msg: "ring_ok (recv_queue (daemon b))" "map (rq_queue (recv_queue (daemon b))) (pending (recv_queue (daemon b))) =
      [\<lparr>src_ip = ipa, dest_ip = ipb, src_port = ucast port, dest_port = ucast port, msg_type = CONNECT,
        offset_from_aperture = 0, msg_size = 0\<rparr>]"
    and locks: "\<not> recv_queue_lock (daemon b)" "\<not> send_queue_lock (daemon b)"
    and out: "ring_ok (send_queue (daemon b))" "pending (send_queue (daemon b)) = []"
  shows "\<exists>b1 rq. interrupt_callback eb b = Inr (0, b1) \<and> daemon b1 = (daemon b)\<lparr>recv_queue := rq\<rparr> \<and>
    ring_ok rq \<and> pending rq = [] \<and>
    (\<exists>b2 q. accept_call cfg eb lsk b1 = Inr ((Some c, 0), b2) \<and>
       node_rel b2 (B\<lparr>cs_conns := (cs_conns B)(i := cs_conns B i @ [(Some c, port, ipa)])\<rparr>) \<and>
       (\<exists>ck. socks b2 c = Some ck \<and> sk_inet ck = \<lparr>inet_saddr = ipb, inet_daddr = ipa, inet_sport = port,
          inet_dport = port, inet_num = ntohs port\<rparr> \<and> sk_state ck = TCP_SYN_RECV) \<and>
       (\<exists>n. daemon b2 = (daemon b)\<lparr>recv_queue := rq, send_queue := q, interrupts := n\<rparr>) \<and> ring_ok q \<and>
       map (rq_queue q) (pending q) = [\<lparr>src_ip = ipb, dest_ip = ipa, src_port = ucast port, dest_port = ucast port,
         msg_type = CONNECT_SUCCESS, offset_from_aperture = 0, msg_size = 0\<rparr>])"
proof -
  let ?m = "\<lparr>src_ip = ipa, dest_ip = ipb, src_port = ucast port, dest_port = ucast port, msg_type = CONNECT,
        offset_from_aperture = 0, msg_size = 0\<rparr>"
  from ready obtain l k p n where r: "socks b lsk = Some l" "inet_sport (sk_inet l) = port" "icsk_accept_queue l = []"
    "\<And>st'. socks st' = socks b \<Longrightarrow> sk_clone_lock eb st' l = Some (c, k)" "c \<noteq> lsk"
    "kmalloc_port_sk eb (psks b) = Some (p, n)" "psks b p = None"
    unfolding server_ready_def by blast
  from one_pending [OF msg(2)] obtain j where j: "pending (recv_queue (daemon b)) = [j]"
    "rq_queue (recv_queue (daemon b)) j = ?m" by blast
  let ?k = "setup_clone port port ipa ipb k"
  let ?P = "\<lambda>x. node_rel x (add_incoming i (Some c, port, ipa) B) \<and> socks x = (socks b)(c \<mapsto> ?k)"
  have skb: "slot_skb b j = \<lparr>skb_msg = j, iph_saddr = ipa, iph_daddr = ipb, skb_sk = None\<rparr>"
    using j(2) by (simp add: slot_skb_def)
  have "\<exists>st2. local_tcp_rcv eb (slot_skb b j) (b\<lparr>daemon := d\<rparr>) = Inr (0, st2) \<and> ?P st2"
    if d: "rq_queue (recv_queue d) = rq_queue (recv_queue (daemon b))" for d
  proof -
    have c: "skb_carries (b\<lparr>daemon := d\<rparr>) (slot_skb b j) CONNECT port port"
      using d j(2) by (simp add: skb_carries_def skb)
    have "node_rel (b\<lparr>daemon := d\<rparr>) B" using rel by (simp add: node_rel_def)
    from rcv_connect_new [OF this i lsk, of l port ipa eb c k p n ipb] r idle(2)
    show ?thesis unfolding rcv_dispatch(2) [OF c] by (auto simp: skb)
  qed
  from interrupt_one [OF msg(1) j(1) locks(1), of eb ?P, OF _ this] env
  obtain b1 rq where b1: "interrupt_callback eb b = Inr (0, b1)" "?P b1"
    "daemon b1 = (daemon b)\<lparr>recv_queue := rq\<rparr>" "ring_ok rq" "pending rq = []"
    by (auto simp: env_ok_def node_rel_def)
  have k1: "socks b1 lsk = Some l" "socks b1 c = Some ?k" using b1(2) r(1,5) by auto
  have inc: "cs_incoming (add_incoming i (Some c, port, ipa) B) i = (Some c, port, ipa) # []"
    using idle(1) by (simp add: add_incoming_def)
  have out': "ring_ok (send_queue (daemon b1))" "\<not> ring_full (send_queue (daemon b1))"
    "pending (send_queue (daemon b1)) = []" "\<not> send_queue_lock (daemon b1)"
    using out locks b1(3) empty_not_full [of "send_queue (daemon b)"] by simp_all
  have trig: "sci_trigger_interrupt (xenv eb) (interrupts (daemon b1)) = ESCI_OK (xenv eb)"
    using env by (simp add: env_ok_def)
  from accept_ready [OF conjunct1 [OF b1(2)] k1(1) r(2,3) i inc k1(2) out'(4,1,2) trig, of cfg True "[]"]
  obtain b2 q where b2: "ltcp_inet_csk_accept cfg eb lsk True [] b1 = Inr (Some c, 0, b2)"
    "node_rel b2 (establish i [] (Some c, port, ipa) [] (add_incoming i (Some c, port, ipa) B))"
    "socks b2 = socks b1" "daemon b2 = (daemon b1)\<lparr>send_queue := q, interrupts := interrupts (daemon b1) + 1\<rparr>"
    "ring_ok q" "map (rq_queue q) (pending q) = [xmit_message (sk_inet ?k) CONNECT_SUCCESS 0 0]"
    using out'(3) by auto
  have B: "establish i [] (Some c, port, ipa) [] (add_incoming i (Some c, port, ipa) B) =
      B\<lparr>cs_conns := (cs_conns B)(i := cs_conns B i @ [(Some c, port, ipa)])\<rparr>"
    using idle(1) by (cases B) (auto simp: establish_def add_incoming_def)
  have call: "accept_call cfg eb lsk b1 = Inr ((Some c, 0), b2)" using b2(1) by (simp add: accept_call_def)
  have "\<exists>ck. socks b2 c = Some ck \<and> sk_inet ck = \<lparr>inet_saddr = ipb, inet_daddr = ipa, inet_sport = port,
          inet_dport = port, inet_num = ntohs port\<rparr> \<and> sk_state ck = TCP_SYN_RECV"
    using b2(3) k1(2) by (simp add: setup_clone_def)
  moreover have "\<exists>n. daemon b2 = (daemon b)\<lparr>recv_queue := rq, send_queue := q, interrupts := n\<rparr>"
    using b2(4) b1(3) by auto
  moreover have "map (rq_queue q) (pending q) = [\<lparr>src_ip = ipb, dest_ip = ipa, src_port = ucast port,
      dest_port = ucast port, msg_type = CONNECT_SUCCESS, offset_from_aperture = 0, msg_size = 0\<rparr>]"
    using b2(6) by (simp add: xmit_message_def setup_clone_def)
  ultimately show ?thesis
    using b1(1,3-5) call b2(2,5) unfolding B
    by (intro exI [of _ b1] exI [of _ rq] exI [of _ b2] exI [of _ q] conjI)
qed

lemma handshake_client:
  assumes rel: "node_rel a (add_incoming i (Some s, port, ipb) A)" and i: "i = port_index port" "i < MAX_NUMBER_OF_PORTS"
    and idle: "cs_incoming A i = []" and env: "env_ok ea"
    and msg: "ring_ok (recv_queue (daemon a))" "map (rq_queue (recv_queue (daemon a))) (pending (recv_queue (daemon a))) =
      [\<lparr>src_ip = ipb, dest_ip = ipa, src_port = ucast port, dest_port = ucast port, msg_type = CONNECT_SUCCESS,
        offset_from_aperture = 0, msg_size = 0\<rparr>]"
    and locks: "\<not> recv_queue_lock (daemon a)"
  shows "\<exists>a1 rq. interrupt_callback ea a = Inr (0, a1) \<and> daemon a1 = (daemon a)\<lparr>recv_queue := rq\<rparr> \<and>
    ring_ok rq \<and> pending rq = [] \<and> socks a1 = socks a \<and>
    node_rel a1 (A\<lparr>cs_conns := (cs_conns A)(i := cs_conns A i @ [(Some s, port, ipb)])\<rparr>)"
proof -
  let ?m = "\<lparr>src_ip = ipb, dest_ip = ipa, src_port = ucast port, dest_port = ucast port, msg_type = CONNECT_SUCCESS,
        offset_from_aperture = 0, msg_size = 0\<rparr>"
  let ?A' = "A\<lparr>cs_conns := (cs_conns A)(i := cs_conns A i @ [(Some s, port, ipb)])\<rparr>"
  from one_pending [OF msg(2)] obtain j where j: "pending (recv_queue (daemon a)) = [j]"
    "rq_queue (recv_queue (daemon a)) j = ?m" by blast
  have skb: "slot_skb a j = \<lparr>skb_msg = j, iph_saddr = ipb, iph_daddr = ipa, skb_sk = None\<rparr>"
    using j(2) by (simp add: slot_skb_def)
  let ?P = "\<lambda>x. node_rel x ?A' \<and> socks x = socks a"
  have A: "establish i [] (Some s, port, ipb) [] (add_incoming i (Some s, port, ipb) A) = ?A'"
    using idle by (cases A) (auto simp: establish_def add_incoming_def)
  have "\<exists>st2. local_tcp_rcv ea (slot_skb a j) (a\<lparr>daemon := d\<rparr>) = Inr (0, st2) \<and> ?P st2"
    if d: "rq_queue (recv_queue d) = rq_queue (recv_queue (daemon a))" for d
  proof -
    have c: "skb_carries (a\<lparr>daemon := d\<rparr>) (slot_skb a j) CONNECT_SUCCESS port port"
      using d j(2) by (simp add: skb_carries_def skb)
    have r: "node_rel (a\<lparr>daemon := d\<rparr>) (add_incoming i (Some s, port, ipb) A)"
      using rel by (simp add: node_rel_def)
    have "cs_incoming (add_incoming i (Some s, port, ipb) A) i = [] @ (Some s, port, ipb) # []"
      using idle by (simp add: add_incoming_def)
    from rcv_connect_success_found [OF r i this] show ?thesis
      unfolding rcv_dispatch(4) [OF c] by (auto simp: skb A)
  qed
  from interrupt_one [OF msg(1) j(1) locks, of ea ?P, OF _ this] env
  show ?thesis by (auto simp: env_ok_def node_rel_def)
qed

text \<open>
  C4. The whole handshake over the shared rings. Two machines with an idle link, the one calling
  \<open>connect\<close> with the other's address, the other listening at the port with nothing waiting:
  running connect, the server's interrupt, accept and the client's interrupt in this order
  returns success at every step, accept returns the server's new socket, and afterwards both
  sides hold the connection as established under each other's key, nothing is pending in
  either incoming list or ring, all locks are free, and the two sockets mirror each other's
  addresses and ports.
\<close>

theorem handshake_establishes:
  assumes link: "link_idle (a, b)" and ea: "env_ok ea" and eb: "env_ok eb"
    and relA: "node_rel a A" and relB: "node_rel b B"
    and i: "i = port_index port" "i < MAX_NUMBER_OF_PORTS"
    and idleA: "cs_incoming A i = []" and idleB: "cs_incoming B i = []"
    and new: "\<forall>e \<in> set (cs_conns B i). \<not> has_key port ipa e"
    and ips: "ipb = ucast (dest_IP a)" "ipb \<noteq> 0" "ipa = ucast (src_IP a)" "ipa \<noteq> 0"
    and client: "client_ready ea sk s a"
    and server: "cs_listening B i = Some lsk" "server_ready eb lsk c port b"
  shows "\<exists>a' b'. handshake cfg ea eb sk lsk (port, ipb) (a, b) = Inr ((0, 0, (Some c, 0), 0), (a', b')) \<and>
    node_rel a' (A\<lparr>cs_conns := (cs_conns A)(i := cs_conns A i @ [(Some s, port, ipb)])\<rparr>) \<and>
    node_rel b' (B\<lparr>cs_conns := (cs_conns B)(i := cs_conns B i @ [(Some c, port, ipa)])\<rparr>) \<and>
    link_idle (a', b') \<and>
    (\<exists>sc cc. socks a' s = Some sc \<and> socks b' c = Some cc \<and>
       inet_saddr (sk_inet sc) = ipa \<and> inet_daddr (sk_inet sc) = ipb \<and>
       inet_saddr (sk_inet cc) = ipb \<and> inet_daddr (sk_inet cc) = ipa \<and>
       inet_sport (sk_inet sc) = inet_dport (sk_inet cc) \<and> inet_dport (sk_inet sc) = inet_sport (sk_inet cc))"
proof -
  from link have l: "recv_queue (daemon b) = send_queue (daemon a)" "send_queue (daemon b) = recv_queue (daemon a)"
    "ring_ok (send_queue (daemon a))" "pending (send_queue (daemon a)) = []"
    "ring_ok (recv_queue (daemon a))" "pending (recv_queue (daemon a)) = []"
    "\<not> send_queue_lock (daemon a)" "\<not> recv_queue_lock (daemon a)"
    "\<not> send_queue_lock (daemon b)" "\<not> recv_queue_lock (daemon b)"
    by (auto simp: link_idle_def coupled_def)
  from client obtain sock k0 k fs p n where cl: "sock_create ea a = Inr (sock, s, k0)" "socks a sk = Some k" "s \<noteq> sk"
    "replace_socket_filedescriptor (fdenv ea) sock (sk_socket k) (files a) = Inr (0, fs)"
    "kmalloc_port_sk ea (psks a) = Some (p, n)" "psks a p = None"
    unfolding client_ready_def by blast
  have trig: "sci_trigger_interrupt (xenv ea) (interrupts (daemon a)) = ESCI_OK (xenv ea)"
    using ea by (simp add: env_ok_def)
  have nf: "\<not> ring_full (send_queue (daemon a))" using empty_not_full [OF l(3)] l(4) by simp
  have src: "ucast (src_IP a) \<noteq> (0 :: u32)" using ips(3,4) by simp
  let ?sc = "k0\<lparr>sk_inet := client_inet port ipb (ucast (src_IP a)) (sk_inet k0)\<rparr>"
  from connect_sends [OF relA i cl(1-4) ips(1,2) src cl(5,6) l(7,3) nf trig, of cfg]
  obtain a1 q1 where a1: "ltcp_tcp_v4_connect_wrapper cfg ea sk (port, ipb) a = Inr (0, a1)"
    "node_rel a1 (add_incoming i (Some s, port, ipb) A)"
    "socks a1 = (socks a)(s \<mapsto> ?sc, sk \<mapsto> k\<lparr>defer_connect := True\<rparr>)"
    "daemon a1 = (daemon a)\<lparr>send_queue := q1, interrupts := interrupts (daemon a) + 1\<rparr>"
    "ring_ok q1" "map (rq_queue q1) (pending q1) = [xmit_message (client_inet port ipb (ucast (src_IP a)) (sk_inet k0)) CONNECT 0 0]"
    using l(4) by auto
  have sc: "socks a1 s = Some ?sc" using a1(3) cl(3) by simp
  let ?b0 = "mirror a1 b"
  have m1: "map (rq_queue q1) (pending q1) = [\<lparr>src_ip = ipa, dest_ip = ipb, src_port = ucast port, dest_port = ucast port,
      msg_type = CONNECT, offset_from_aperture = 0, msg_size = 0\<rparr>]"
    using a1(6) by (simp add: xmit_message_def client_inet_def ips(3))
  have sr: "server_ready eb lsk c port ?b0" using server(2) by (simp add: server_ready_def)
  have d1: "recv_queue (daemon ?b0) = q1" "send_queue (daemon ?b0) = recv_queue (daemon a)" using a1(4) by simp_all
  from handshake_server [of ?b0 B i port ipa lsk eb c ipb cfg] relB i idleB new server(1) sr eb a1(5) m1 l d1
  obtain b1 rq b2 q2 cc n2 where b: "interrupt_callback eb ?b0 = Inr (0, b1)" "daemon b1 = (daemon ?b0)\<lparr>recv_queue := rq\<rparr>"
    "ring_ok rq" "pending rq = []" "accept_call cfg eb lsk b1 = Inr ((Some c, 0), b2)"
    "node_rel b2 (B\<lparr>cs_conns := (cs_conns B)(i := cs_conns B i @ [(Some c, port, ipa)])\<rparr>)"
    "socks b2 c = Some cc" "sk_inet cc = \<lparr>inet_saddr = ipb, inet_daddr = ipa, inet_sport = port,
          inet_dport = port, inet_num = ntohs port\<rparr>"
    "daemon b2 = (daemon ?b0)\<lparr>recv_queue := rq, send_queue := q2, interrupts := n2\<rparr>" "ring_ok q2"
    "map (rq_queue q2) (pending q2) = [\<lparr>src_ip = ipb, dest_ip = ipa, src_port = ucast port, dest_port = ucast port,
         msg_type = CONNECT_SUCCESS, offset_from_aperture = 0, msg_size = 0\<rparr>]"
    by auto
  let ?a2 = "mirror b1 a1" and ?a3 = "mirror b2 (mirror b1 a1)"
  have d3: "recv_queue (daemon ?a3) = q2" "\<not> recv_queue_lock (daemon ?a3)" "send_queue (daemon ?a3) = rq"
    using b(9) a1(4) l by simp_all
  from handshake_client [of ?a3 i s port ipb A ea ipa] a1(2) i idleA ea b(10,11) d3
  obtain a4 rq4 where a4: "interrupt_callback ea ?a3 = Inr (0, a4)" "daemon a4 = (daemon ?a3)\<lparr>recv_queue := rq4\<rparr>"
    "ring_ok rq4" "pending rq4 = []" "socks a4 = socks ?a3"
    "node_rel a4 (A\<lparr>cs_conns := (cs_conns A)(i := cs_conns A i @ [(Some s, port, ipb)])\<rparr>)"
    by auto
  have "handshake cfg ea eb sk lsk (port, ipb) (a, b) = Inr ((0, 0, (Some c, 0), 0), (a4, mirror a4 b2))"
    using a1(1) b(1,5) a4(1) by (simp add: handshake_def on_a_def on_b_def)
  moreover have "link_idle (a4, mirror a4 b2)"
    using a4(2-4) b(3,4,9) d3 l a1(4) by (simp add: link_idle_def)
  moreover have "socks a4 s = Some ?sc" using a4(5) sc by simp
  then have "\<exists>sc cc. socks a4 s = Some sc \<and> socks (mirror a4 b2) c = Some cc \<and>
       inet_saddr (sk_inet sc) = ipa \<and> inet_daddr (sk_inet sc) = ipb \<and>
       inet_saddr (sk_inet cc) = ipb \<and> inet_daddr (sk_inet cc) = ipa \<and>
       inet_sport (sk_inet sc) = inet_dport (sk_inet cc) \<and> inet_dport (sk_inet sc) = inet_sport (sk_inet cc)"
    using b(7,8) by (simp add: client_inet_def ips(3))
  moreover have "node_rel (mirror a4 b2) (B\<lparr>cs_conns := (cs_conns B)(i := cs_conns B i @ [(Some c, port, ipa)])\<rparr>)"
    using b(6) by simp
  ultimately show ?thesis using a4(6)
    by (intro exI [of _ a4] exI [of _ "mirror a4 b2"] conjI)
qed

lemma demo_env_ok: "env_ok demo_kenv"
  by (simp add: env_ok_def demo_kenv_def demo_env_def)

lemma demo_link: "link_idle (demo_node 1 2, demo_node 2 1)"
  using demo_ring_empty by (simp add: link_idle_def coupled_def demo_node_daemon)

lemma demo_client: "client_ready demo_kenv 500 1500 (demo_node 1 2)"
  using demo_replace demo_mem by (auto simp: client_ready_def demo_kenv_fields demo_node_fields demo_node_more)

lemma demo_server: "server_ready demo_kenv 500 1000 0x931F (demo_node 2 1)"
proof -
  have "inet_sport (sk_inet demo_listener) = 0x931F" "icsk_accept_queue demo_listener = []"
    by (simp_all add: demo_listener_def)
  then show ?thesis
    using demo_mem by (simp add: server_ready_def demo_node_fields demo_clone)
qed

theorem handshake_establishes_witness:
  "\<exists>a' b'. handshake default_config demo_kenv demo_kenv 500 500 (0x931F, 2) (demo_node 1 2, demo_node 2 1) =
      Inr ((0, 0, (Some 1000, 0), 0), (a', b')) \<and>
    node_rel a' (no_conns\<lparr>cs_conns := at_8083 [(Some 1500, 0x931F, 2)]\<rparr>) \<and>
    node_rel b' (no_conns\<lparr>cs_conns := at_8083 [(Some 1000, 0x931F, 1)]\<rparr>) \<and> link_idle (a', b')"
proof -
  have e: "(2 :: u32) = ucast (dest_IP (demo_node 1 2))" "(1 :: u32) = ucast (src_IP (demo_node 1 2))"
    by (simp_all add: demo_node_more)
  have at: "(cs_conns no_conns)(8083 := [x]) = at_8083 [x]" for x
    by (simp add: no_conns_def demo_socks)
  from handshake_establishes [OF demo_link demo_env_ok demo_env_ok demo_node_rel demo_node_rel
      demo_port(1) [symmetric] demo_port(2) demo_node_fields(7,7) _ e(1) _ e(2) _ demo_client _ demo_server,
      of default_config]
  show ?thesis by (auto simp: demo_node_fields at)
qed

subsection \<open>Closing\<close>

lemma close_sends:
  assumes rel: "node_rel st A" and i: "i = port_index port" "i < MAX_NUMBER_OF_PORTS"
    and k: "socks st s = Some k" "inet_daddr (sk_inet k) = ucast (dest_IP st)" "sk_state k \<noteq> TCP_CLOSE"
      "inet_sport (sk_inet k) = port" "inet_dport (sk_inet k) = rport" "inet_daddr (sk_inet k) = rip"
    and e: "cs_conns A i = us @ (Some s, rport, rip) # vs" "\<forall>e \<in> set us. \<not> has_key rport rip e" "us = [] \<or> vs \<noteq> []"
    and ring: "\<not> send_queue_lock (daemon st)" "ring_ok (send_queue (daemon st))" "\<not> ring_full (send_queue (daemon st))"
  shows "\<exists>st' q n. ltcp_tcp_close cfg env s st = Inr st' \<and>
    node_rel st' (A\<lparr>cs_conns := (cs_conns A)(i := us @ vs)\<rparr>) \<and>
    socks st' = socks st \<and> node_frame st st' \<and> daemon st' = (daemon st)\<lparr>send_queue := q, interrupts := n\<rparr> \<and>
    ring_ok q \<and> map (rq_queue q) (pending q) =
      map (rq_queue (send_queue (daemon st))) (pending (send_queue (daemon st))) @
      [xmit_message (sk_inet k) CLOSE 0 0]"
proof -
  from rel have cl: "conn_lists (psks st) (incoming_conns st) (conns st) {} (cs_incoming A) (cs_conns A)"
    by (simp add: node_rel_def)
  from conn_remove [OF conn_lists_swap [OF cl] i e(1,3) _ find_first [OF e(2)]] obtain p h con where
    rm: "remove_port_sk (psks st) (conns st) port rport rip = Inr (Some p, h, con)"
    "conn_lists h con (incoming_conns st) {p} ((cs_conns A)(i := us @ vs)) (cs_incoming A)"
    "psk_payload h = psk_payload (psks st)" "psk_payload (psks st) p = Some (Some s, rport, rip)"
    by auto
  then obtain n where n: "h p = Some n" "psk_sk n = Some s"
    using payload_Some [of h p] by auto
  let ?st1 = "st\<lparr>psks := h, conns := con\<rparr>"
  from control_helper [of ?st1 s k CLOSE cfg env None 0] k(1) ring obtain q where
    hp: "local_tcp_sendmsg_helper cfg env (Some s) None 0 CLOSE ?st1 =
      Inr (trigger_result (xenv env) (interrupts (daemon st)),
           ?st1\<lparr>daemon := (daemon st)\<lparr>send_queue := q, interrupts := interrupts (daemon st) + 1\<rparr>\<rparr>)"
    "ring_ok q" "map (rq_queue q) (pending q) =
      map (rq_queue (send_queue (daemon st))) (pending (send_queue (daemon st))) @ [xmit_message (sk_inet k) CLOSE 0 0]"
    by (auto simp: local_tcp_type_defs)
  let ?st' = "?st1\<lparr>daemon := (daemon st)\<lparr>send_queue := q, interrupts := interrupts (daemon st) + 1\<rparr>\<rparr>"
  have "ltcp_tcp_close cfg env s st = Inr ?st'"
    using k rm(1) n hp(1) by (simp add: ltcp_tcp_close_def psk_load_def)
  moreover have "node_rel ?st' (A\<lparr>cs_conns := (cs_conns A)(i := us @ vs)\<rparr>)"
    using conn_lists_weaken [OF conn_lists_swap [OF rm(2)], of "{}"] rel by (simp add: node_rel_def)
  ultimately show ?thesis using hp(2,3)
    by (intro exI [of _ ?st'] exI [of _ q] exI [of _ "interrupts (daemon st) + 1"]) (simp add: node_frame_def)
qed

text \<open>The two ends of one established connection, first in both lists.\<close>

definition established :: "u16 \<Rightarrow> addr \<Rightarrow> u32 \<Rightarrow> conn list \<Rightarrow> conn_state \<Rightarrow> ltcp \<Rightarrow> bool" where
  "established port s rip vs A st \<longleftrightarrow> node_rel st A \<and> cs_conns A (port_index port) = (Some s, port, rip) # vs \<and>
     rip = ucast (dest_IP st) \<and> (\<exists>k. socks st s = Some k \<and> sk_state k \<noteq> TCP_CLOSE \<and>
       inet_sport (sk_inet k) = port \<and> inet_dport (sk_inet k) = port \<and> inet_daddr (sk_inet k) = rip \<and>
       inet_saddr (sk_inet k) = ucast (src_IP st))"

lemma established_mirror [simp]: "established port s rip vs A (mirror x st) = established port s rip vs A st"
  by (simp add: established_def)

definition close_call :: "config \<Rightarrow> kenv \<Rightarrow> addr \<Rightarrow> ltcp \<Rightarrow> (unit \<times> ltcp) res" where
  "close_call cfg env s st = rbind (ltcp_tcp_close cfg env s st) (\<lambda>st'. Inr ((), st'))"

lemma close_call_sends:
  assumes "established port s rip vs A st" and "port_index port < MAX_NUMBER_OF_PORTS"
    and "\<not> send_queue_lock (daemon st)" and "ring_ok (send_queue (daemon st))" and "pending (send_queue (daemon st)) = []"
  shows "\<exists>st' q n k. close_call cfg env s st = Inr ((), st') \<and>
    node_rel st' (A\<lparr>cs_conns := (cs_conns A)(port_index port := vs)\<rparr>) \<and> socks st' = socks st \<and>
    dest_IP st' = dest_IP st \<and> daemon st' = (daemon st)\<lparr>send_queue := q, interrupts := n\<rparr> \<and> ring_ok q \<and>
    map (rq_queue q) (pending q) = [\<lparr>src_ip = ucast (src_IP st), dest_ip = rip, src_port = ucast port,
      dest_port = ucast port, msg_type = CLOSE, offset_from_aperture = 0, msg_size = 0\<rparr>]"
proof -
  from assms(1) obtain k where k: "node_rel st A" "cs_conns A (port_index port) = [] @ (Some s, port, rip) # vs"
    "socks st s = Some k" "inet_daddr (sk_inet k) = ucast (dest_IP st)" "sk_state k \<noteq> TCP_CLOSE"
    "inet_sport (sk_inet k) = port" "inet_dport (sk_inet k) = port" "inet_daddr (sk_inet k) = rip"
    "inet_saddr (sk_inet k) = ucast (src_IP st)"
    by (auto simp: established_def)
  have nf: "\<not> ring_full (send_queue (daemon st))" using empty_not_full [OF assms(4)] assms(5) by simp
  from close_sends [OF k(1) refl assms(2) k(3-8) k(2) _ _ assms(3,4) nf, of cfg env] obtain st' q n where
    c: "ltcp_tcp_close cfg env s st = Inr st'" "node_rel st' (A\<lparr>cs_conns := (cs_conns A)(port_index port := vs)\<rparr>)"
    "socks st' = socks st" "node_frame st st'" "daemon st' = (daemon st)\<lparr>send_queue := q, interrupts := n\<rparr>"
    "ring_ok q" "map (rq_queue q) (pending q) = [xmit_message (sk_inet k) CLOSE 0 0]"
    using assms(5) by auto
  then show ?thesis
    by (intro exI [of _ st'] exI [of _ q] exI [of _ n]) (simp add: close_call_def node_frame_def xmit_message_def k(6-9))
qed

text \<open>A CLOSE waiting in the ring, with or without its connection.\<close>

lemma close_interrupt:
  assumes rel: "node_rel b B" and i: "port_index port < MAX_NUMBER_OF_PORTS"
    and msg: "ring_ok (recv_queue (daemon b))" "map (rq_queue (recv_queue (daemon b))) (pending (recv_queue (daemon b))) =
      [\<lparr>src_ip = ipa, dest_ip = ipb, src_port = ucast port, dest_port = ucast port, msg_type = CLOSE,
        offset_from_aperture = 0, msg_size = 0\<rparr>]"
    and locks: "\<not> recv_queue_lock (daemon b)" and env: "env_ok eb"
  shows "\<forall>e \<in> set (cs_conns B (port_index port)). \<not> has_key port ipa e \<Longrightarrow>
      interrupt_callback eb b = Inl NullDeref"
    and "cs_conns B (port_index port) = (Some c, port, ipa) # vs \<Longrightarrow> socks b c = Some k \<Longrightarrow>
      \<exists>b' rq. interrupt_callback eb b = Inr (0, b') \<and> daemon b' = (daemon b)\<lparr>recv_queue := rq\<rparr> \<and>
        ring_ok rq \<and> pending rq = [] \<and> node_rel b' (B\<lparr>cs_conns := (cs_conns B)(port_index port := vs)\<rparr>) \<and>
        socks b' = (socks b)(c \<mapsto> k\<lparr>sk_state := TCP_CLOSE\<rparr>)"
proof -
  let ?m = "\<lparr>src_ip = ipa, dest_ip = ipb, src_port = ucast port, dest_port = ucast port, msg_type = CLOSE,
        offset_from_aperture = 0, msg_size = 0\<rparr>"
  from one_pending [OF msg(2)] obtain j where j: "pending (recv_queue (daemon b)) = [j]"
    "rq_queue (recv_queue (daemon b)) j = ?m" by blast
  have skb: "slot_skb b j = \<lparr>skb_msg = j, iph_saddr = ipa, iph_daddr = ipb, skb_sk = None\<rparr>"
    using j(2) by (simp add: slot_skb_def)
  have c: "skb_carries (b\<lparr>daemon := d\<rparr>) (slot_skb b j) CLOSE port port"
    if "rq_queue (recv_queue d) = rq_queue (recv_queue (daemon b))" for d :: rdma
    using that j(2) by (simp add: skb_carries_def skb)
  have r: "node_rel (b\<lparr>daemon := d\<rparr>) B" for d :: rdma using rel by (simp add: node_rel_def)
  have al: "alloc_skb eb j" using env by (simp add: env_ok_def)
  show "interrupt_callback eb b = Inl NullDeref"
    if n: "\<forall>e \<in> set (cs_conns B (port_index port)). \<not> has_key port ipa e"
  proof (rule interrupt_faults [OF msg(1) j(1) locks al])
    fix d :: rdma
    assume "rq_queue (recv_queue d) = rq_queue (recv_queue (daemon b))"
    from rcv_dispatch(3) [OF c [OF this]] rcv_close_unknown [OF r refl i n]
    show "local_tcp_rcv eb (slot_skb b j) (b\<lparr>daemon := d\<rparr>) = Inl NullDeref" by (simp add: skb)
  qed
  show "\<exists>b' rq. interrupt_callback eb b = Inr (0, b') \<and> daemon b' = (daemon b)\<lparr>recv_queue := rq\<rparr> \<and>
        ring_ok rq \<and> pending rq = [] \<and> node_rel b' (B\<lparr>cs_conns := (cs_conns B)(port_index port := vs)\<rparr>) \<and>
        socks b' = (socks b)(c \<mapsto> k\<lparr>sk_state := TCP_CLOSE\<rparr>)"
    if e: "cs_conns B (port_index port) = (Some c, port, ipa) # vs" "socks b c = Some k"
  proof -
    let ?P = "\<lambda>x. node_rel x (B\<lparr>cs_conns := (cs_conns B)(port_index port := vs)\<rparr>) \<and>
      socks x = (socks b)(c \<mapsto> k\<lparr>sk_state := TCP_CLOSE\<rparr>)"
    have "\<exists>st2. local_tcp_rcv eb (slot_skb b j) (b\<lparr>daemon := d\<rparr>) = Inr (0, st2) \<and> ?P st2"
      if d: "rq_queue (recv_queue d) = rq_queue (recv_queue (daemon b))" for d :: rdma
    proof -
      from e(1) have e': "cs_conns B (port_index port) = [] @ (Some c, port, ipa) # vs" by simp
      from rcv_close_found [OF r refl i e', of d k] e(2) show ?thesis
        unfolding rcv_dispatch(3) [OF c [OF d]] by (auto simp: skb disconnect_def)
    qed
    from interrupt_one [OF msg(1) j(1) locks al, of ?P, OF this] show ?thesis
      by (auto simp: node_rel_def)
  qed
qed


text \<open>Two nodes with the one connection between them.\<close>

definition demo_end :: "u32 \<Rightarrow> u32 \<Rightarrow> ltcp_sock" where
  "demo_end src dest = demo_new_sock\<lparr>sk_state := TCP_SYN_RECV, sk_inet := \<lparr>inet_saddr = src, inet_daddr = dest,
     inet_sport = 0x931F, inet_dport = 0x931F, inet_num = 8083\<rparr>\<rparr>"

definition demo_peer :: "u32 \<Rightarrow> u32 \<Rightarrow> ltcp" where
  "demo_peer src dest = (let st = demo_node (ucast src) (ucast dest) in st\<lparr>psks := [2000 \<mapsto> demo_conn\<lparr>psk_rip := dest\<rparr>],
     conns := one_conn (conns st), socks := (socks st)(600 \<mapsto> demo_end src dest)\<rparr>)"

lemma demo_peer_rel:
  "node_rel (demo_peer src dest) (no_conns\<lparr>cs_conns := at_8083 [(Some 600, 0x931F, dest)]\<rparr>)"
proof -
  have "conn_lists [2000 \<mapsto> demo_conn\<lparr>psk_rip := dest\<rparr>] (incoming_conns (demo_node x y)) (one_conn (conns (demo_node x y))) {}
     (\<lambda>_. []) (at_8083 [(Some 600, 0x931F, dest)])" for x y
    by (rule conn_listsI [of _ _ _ "\<lambda>_. []" "(\<lambda>_. [])(8083 := [2000])"])
      (auto simp: tables_inv_def table_inv_def slot_nodes_def dll_def empty_table_def empty_slot_def
        at_8083_def one_conn_def demo_node_def demo_conn_def psk_payload_def)
  then show ?thesis
    using demo_node_rel [of "ucast src" "ucast dest"]
    by (simp add: node_rel_def demo_peer_def Let_def no_conns_def)
qed

lemma demo_peer_fields:
  "socks (demo_peer src dest) 600 = Some (demo_end src dest)" "src_IP (demo_peer src dest) = ucast src"
  "dest_IP (demo_peer src dest) = ucast dest" "daemon (demo_peer src dest) = demo_rdma 0 0 1"
  by (simp_all add: demo_peer_def Let_def demo_node_def)

lemma ucast_u32_u64 [simp]: "ucast (ucast (x :: u32) :: u64) = x"
  by (rule bit_word_eqI) (auto simp: bit_simps)

lemma demo_peer_established:
  "established 0x931F 600 dest [] (no_conns\<lparr>cs_conns := at_8083 [(Some 600, 0x931F, dest)]\<rparr>) (demo_peer src dest)"
  using demo_peer_rel [of src dest]
  by (simp add: established_def demo_peer_fields demo_end_def demo_port demo_socks)

lemma demo_peer_link: "link_idle (demo_peer 1 2, demo_peer 2 1)"
  using demo_ring_empty by (simp add: link_idle_def coupled_def demo_peer_fields demo_node_daemon)




end
