(* ===== verification/Ltcp_Recvmsg.thy ===== *)
theory Ltcp_Recvmsg
  imports Two_Nodes
begin

text \<open>
  \<open>local_tcp_recvmsg\<close> of \<open>ltcp/local_tcp_protocol.c\<close>: the wait for a message, the transfer
  into the reader's buffer (a DMA pull into mapped user pages, or a copy out of the receive
  aperture) and the release of the message. What the reader's buffer got is returned beside the
  return value and the node.
\<close>

subsection \<open>Environment and results\<close>

text \<open>
  The receive aperture's memory, and how many bytes \<open>copy_to_iter\<close> manages to copy to a user
  address.
\<close>

record recv_env =
  recv_aperture :: "nat \<Rightarrow> u8"
  copy_to_iter :: "u64 \<Rightarrow> nat \<Rightarrow> nat"

text \<open>
  The transfer that was requested (local bus address, size, offset at the remote), the bytes that
  were copied to the start of the buffer, and whether the page array was released.
\<close>

record recv_out =
  ro_pull :: "(u64 \<times> u64 \<times> u64) option"
  ro_copied :: "u8 list"
  ro_pages_freed :: bool

definition no_output :: recv_out where
  "no_output = \<lparr>ro_pull = None, ro_copied = [], ro_pages_freed = False\<rparr>"

subsection \<open>The two ways of transfer\<close>

text \<open>
  The result is whether the transfer succeeded, the output and the daemon. The page array comes
  from a \<open>vmalloc\<close> whose result is not checked; without it no page can be read back.
\<close>

definition recv_map ::
    "kenv \<Rightarrow> ltcp_queue_msg \<Rightarrow> u64 \<Rightarrow> u64 \<Rightarrow> rdma \<Rightarrow> (bool \<times> recv_out \<times> rdma) res" where
  "recv_map env ltcp_msg start len d =
     (let x = xenv env;
          offset_first_page = start mod PAGE_SIZE64;
          nr_pages = calc_nr_pages start len
      in case get_user_pages_locked x (start - offset_first_page) nr_pages of (err, pinned) \<Rightarrow>
      let pages = (if vmalloc_ok x then pinned else [])
      in if of_int err \<noteq> nr_pages then Inr (False, no_output, d)
      else rbind (osif_iommu_map_user_pages (env_osif x) (aperture_range x) pages
                    (sint (ucast nr_pages :: u32)) None (iommu d)) (\<lambda>(rc, dma_handle, io).
        let d1 = d\<lparr>iommu := io\<rparr>
        in if rc \<noteq> OSIF_ERR_OK (env_osif x) then Inr (False, no_output, d1)
           else case dma_handle of None \<Rightarrow> Inl Dangling
           | Some h \<Rightarrow>
               let data_bus_addr = osif_iommu_handle_address x h + offset_first_page;
                   remote = offset_from_aperture ltcp_msg;
                   out = no_output\<lparr>ro_pull := Some (data_bus_addr, len, remote)\<rparr>
               in rbind (sem_down (client_semaphore d1)) (\<lambda>sem.
                  let scierr = dis_start_dma_transfer x data_bus_addr len remote
                  in if sci_error_handler (ESCI_OK x) scierr = 0 then
                       Inr (False, no_output, d1\<lparr>client_semaphore := sem\<rparr>)
                     else case await_callback (dma_callback_status x data_bus_addr len remote)
                                 (callback_error_init x) sem of
                       (rc1, callback_error, sem1) \<Rightarrow>
                         if rc1 \<noteq> 0 then Inr (False, out, d1\<lparr>client_semaphore := sem1\<rparr>)
                         else if callback_error \<noteq> 0 then Inr (False, out, d1\<lparr>client_semaphore := sem1\<rparr>)
                         else Inr (True, out, d1\<lparr>client_semaphore := sem_up sem1\<rparr>))))"

text \<open>
  The copy reads \<open>len\<close> bytes of the aperture from the message's offset on, without wrapping.
  Afterwards \<open>phys_end\<close> of the receive queue is advanced and that of the send queue is wrapped.
\<close>

definition recv_copy ::
    "recv_env \<Rightarrow> ltcp_queue_msg \<Rightarrow> u64 \<Rightarrow> u64 \<Rightarrow> rdma \<Rightarrow> (bool \<times> recv_out \<times> rdma) res" where
  "recv_copy renv ltcp_msg start len d =
     (let off = unat (offset_from_aperture ltcp_msg)
      in if unat APERTURE_SIZE_QUEUE < off + unat len then Inl OutOfBounds
         else
           let n = copy_to_iter renv start (unat len);
               out = no_output\<lparr>ro_copied := map (\<lambda>k. recv_aperture renv (off + k)) [0..<n]\<rparr>
           in if n \<noteq> unat len then Inr (False, out, d)
              else
                let rq = recv_queue d;
                    d1 = d\<lparr>recv_queue := rq\<lparr>phys_end := ucast (ucast (phys_end rq) + len)\<rparr>\<rparr>;
                    sq = send_queue d1;
                    d2 = (if APERTURE_SIZE_QUEUE \<le> ucast (phys_end sq)
                          then d1\<lparr>send_queue := sq\<lparr>phys_end := ucast (ucast (phys_end sq) - APERTURE_SIZE_QUEUE)\<rparr>\<rparr>
                          else d1)
                in Inr (True, out, d2))"

subsection \<open>The routine\<close>

text \<open>\<open>len\<close> is a \<open>size_t\<close> that also carries the error numbers; it is returned as an \<open>int\<close>.\<close>

definition ret_int :: "u64 \<Rightarrow> int" where
  "ret_int len = sint (ucast len :: u32)"

definition recv_one ::
    "config \<Rightarrow> kenv \<Rightarrow> recv_env \<Rightarrow> addr \<Rightarrow> sk_buff \<Rightarrow> u64 \<Rightarrow> u64 \<Rightarrow> ltcp \<Rightarrow> (int \<times> recv_out \<times> ltcp) res" where
  "recv_one cfg env renv sk skb start len0 st =
     (let ltcp_msg = rq_queue (recv_queue (daemon st)) (skb_msg skb);
          len = (if msg_size ltcp_msg < len0 then msg_size ltcp_msg else len0)
      in rbind (if MAP_USER_PAGES_RECV cfg then recv_map env ltcp_msg start len (daemon st)
                else recv_copy renv ltcp_msg start len (daemon st)) (\<lambda>(ok, out, d).
         rbind (sock_store (st\<lparr>daemon := d\<rparr>) (Some sk)
                  (\<lambda>k. k\<lparr>sk_receive_queue := tl (sk_receive_queue k)\<rparr>)) (\<lambda>st1.
         if ok then Inr (ret_int len, out\<lparr>ro_pages_freed := True\<rparr>, st1)
         else Inr (ret_int (of_int (- EFAULT)), out, st1))))"

text \<open>Each turn without a message sleeps in \<open>sk_wait_data\<close>; the list holds what the sleeps bring.\<close>

fun recv_loop_msg ::
    "config \<Rightarrow> kenv \<Rightarrow> recv_env \<Rightarrow> addr \<Rightarrow> u64 \<Rightarrow> u64 \<Rightarrow> nap list \<Rightarrow> ltcp \<Rightarrow> (int \<times> recv_out \<times> ltcp) res" where
  "recv_loop_msg cfg env renv sk start len naps st =
     rbind (sock_load st (Some sk)) (\<lambda>k.
     case sk_receive_queue k of
       skb # _ \<Rightarrow> recv_one cfg env renv sk skb start len st
     | [] \<Rightarrow> (case naps of
           [] \<Rightarrow> Inl Blocked
         | nap # naps' \<Rightarrow>
             let st1 = nap_others nap st
             in if nap_timeo nap = 0 then Inr (ret_int (of_int (- EAGAIN)), no_output\<lparr>ro_pages_freed := True\<rparr>, st1)
                else recv_loop_msg cfg env renv sk start len naps' st1))"

text \<open>\<open>start\<close> is the base address of the reader's \<open>iov\<close>.\<close>

definition local_tcp_recvmsg ::
    "config \<Rightarrow> kenv \<Rightarrow> recv_env \<Rightarrow> addr \<Rightarrow> u64 \<Rightarrow> u64 \<Rightarrow> nap list \<Rightarrow> ltcp \<Rightarrow> (int \<times> recv_out \<times> ltcp) res" where
  "local_tcp_recvmsg cfg env renv sk start len naps st = recv_loop_msg cfg env renv sk start len naps st"

subsection \<open>Properties\<close>

lemma ret_int_errors: "ret_int (- of_int EFAULT) = - 14" "ret_int (- of_int EAGAIN) = - 11"
  by (simp_all add: ret_int_def EFAULT_def EAGAIN_def)

lemma recv_at_head:
  assumes "socks st sk = Some k" and "sk_receive_queue k = skb # rest"
  shows "local_tcp_recvmsg cfg env renv sk start len naps st = recv_one cfg env renv sk skb start len st"
  using assms by (cases naps) (simp_all add: local_tcp_recvmsg_def)

text \<open>The message of a buffer and the number of bytes a read of \<open>len\<close> takes from it.\<close>

definition skb_message :: "ltcp \<Rightarrow> sk_buff \<Rightarrow> ltcp_queue_msg" where
  "skb_message st skb = rq_queue (recv_queue (daemon st)) (skb_msg skb)"

definition read_len :: "ltcp_queue_msg \<Rightarrow> u64 \<Rightarrow> u64" where
  "read_len m len = (if msg_size m < len then msg_size m else len)"

lemma recv_one_eq:
  assumes "socks st sk = Some k" and "sk_receive_queue k = skb # rest"
  shows "recv_one cfg env renv sk skb start len st =
    (let m = skb_message st skb; n = read_len m len
     in rbind (if MAP_USER_PAGES_RECV cfg then recv_map env m start n (daemon st)
               else recv_copy renv m start n (daemon st)) (\<lambda>(ok, out, d).
          let st' = st\<lparr>daemon := d, socks := (socks st)(sk \<mapsto> k\<lparr>sk_receive_queue := rest\<rparr>)\<rparr>
          in if ok then Inr (ret_int n, out\<lparr>ro_pages_freed := True\<rparr>, st') else Inr (- 14, out, st')))"
  using assms
  by (auto simp: recv_one_def skb_message_def read_len_def Let_def sock_store_def ret_int_errors
      intro!: arg_cong2 [where f = rbind] cong: if_cong)

lemma await_callback_simps [simp]:
  "await_callback (Some s) err n = (0, if s \<noteq> 0 then 1 else err, n)"
  "await_callback None err 0 = (- 62, err, 0)" "await_callback None err (Suc n) = (0, err, n)"
  by (simp_all add: await_callback_def client_dma_callback_def)

text \<open>
  A transfer that goes through: pages pinned and mapped, the DMA pull started and confirmed.
\<close>

lemma recv_map_success:
  assumes "get_user_pages_locked (xenv env) (start - start mod PAGE_SIZE64) (calc_nr_pages start n) = (err, pages)"
    and "of_int err = calc_nr_pages start n" and "vmalloc_ok (xenv env)"
    and "osif_iommu_map_user_pages (env_osif (xenv env)) (aperture_range (xenv env)) pages
           (sint (ucast (calc_nr_pages start n) :: u32)) None (iommu d) =
         Inr (OSIF_ERR_OK (env_osif (xenv env)), Some h, io)"
    and "client_semaphore d = Suc sem"
    and "dis_start_dma_transfer (xenv env) (osif_iommu_handle_address (xenv env) h + start mod PAGE_SIZE64) n
           (offset_from_aperture m) = ESCI_OK (xenv env)"
    and "dma_callback_status (xenv env) (osif_iommu_handle_address (xenv env) h + start mod PAGE_SIZE64) n
           (offset_from_aperture m) = Some 0"
    and "callback_error_init (xenv env) = 0"
  shows "recv_map env m start n d =
    Inr (True, no_output\<lparr>ro_pull := Some (osif_iommu_handle_address (xenv env) h + start mod PAGE_SIZE64, n,
      offset_from_aperture m)\<rparr>, d\<lparr>iommu := io\<rparr>)"
proof -
  have "d\<lparr>iommu := io, client_semaphore := Suc sem\<rparr> = d\<lparr>iommu := io\<rparr>"
    using assms(5) by (cases d) simp
  then show ?thesis
    using assms by (simp add: recv_map_def Let_def sci_error_handler_def)
qed

lemma pages_hold_data:
  assumes "unat start + unat n < 2 ^ 64"
  shows "unat (start mod PAGE_SIZE64) + unat n \<le> unat (calc_nr_pages start n) * PAGE_SIZE"
proof -
  let ?x = "unat start mod PAGE_SIZE + unat n"
  have o: "unat (start mod PAGE_SIZE64) = unat start mod PAGE_SIZE"
    by (simp add: PAGE_SIZE64 PAGE_SIZE_def unat_mod)
  have "?x \<le> pages_spanned (unat start) (unat n) * PAGE_SIZE"
  proof (cases "unat n = 0")
    case True
    then show ?thesis by (simp add: pages_spanned_offset PAGE_SIZE_def)
  next
    case False
    have "?x - 1 < ((?x - 1) div PAGE_SIZE + 1) * PAGE_SIZE"
      using mod_less_divisor [OF PAGE_SIZE_pos, of "?x - 1"] by (simp add: PAGE_SIZE_def)
    with False show ?thesis by (simp add: pages_spanned_offset)
  qed
  then show ?thesis by (simp add: calc_nr_pages_unat [OF assms] o)
qed

subsection \<open>A concrete reader\<close>

text \<open>A node whose socket 600 has one message of 0x1000 bytes at offset 0x20, described in slot 3.\<close>

definition demo_data :: ltcp_queue_msg where
  "demo_data = \<lparr>src_ip = 1, dest_ip = 2, src_port = 0x931F, dest_port = 0x931F, msg_type = REGULAR,
     offset_from_aperture = 0x20, msg_size = 0x1000\<rparr>"

definition demo_head :: sk_buff where
  "demo_head = \<lparr>skb_msg = 3, iph_saddr = 1, iph_daddr = 2, skb_sk = Some 600\<rparr>"

definition demo_reader :: ltcp where
  "demo_reader = (let st = demo_peer 2 1 in st\<lparr>
     daemon := (daemon st)\<lparr>recv_queue := (recv_queue (daemon st))\<lparr>rq_queue := (\<lambda>_. demo_data)\<rparr>\<rparr>,
     socks := (socks st)(600 \<mapsto> (demo_end 2 1)\<lparr>sk_receive_queue := [demo_head]\<rparr>)\<rparr>)"

definition demo_renv :: recv_env where
  "demo_renv = \<lparr>recv_aperture = (\<lambda>a. of_nat a), copy_to_iter = (\<lambda>_ n. n)\<rparr>"

lemma demo_reader_fields:
  "socks demo_reader 600 = Some ((demo_end 2 1)\<lparr>sk_receive_queue := [demo_head]\<rparr>)"
  "skb_message demo_reader demo_head = demo_data" "iommu (daemon demo_reader) = demo_iommu"
  "client_semaphore (daemon demo_reader) = 1"
  by (simp_all add: demo_reader_def skb_message_def demo_head_def demo_peer_fields demo_rdma_def Let_def)

text \<open>
  C12. A read in the mapping build, when the kernel pins the buffer's pages, maps them and the
  transfer is confirmed: exactly one pull is requested, of the smaller of the message and the
  read, from the offset the message names to the first byte of the reader's buffer; it stays
  inside pages that are mapped in order; the number of bytes is returned, the message is
  removed, the semaphore and everything else is as before.
\<close>

theorem recv_pulls_message:
  assumes "MAP_USER_PAGES_RECV cfg" and "osif_contract (env_osif (xenv env))"
    and "OSIF_ERR_OK (env_osif (xenv env)) \<noteq> - 1" and "OSIF_PAGE_SIZE (env_osif (xenv env)) \<noteq> 0"
    and "socks st sk = Some k" and "sk_receive_queue k = skb # rest"
    and "n = read_len (skb_message st skb) len" and "np = calc_nr_pages start n"
    and "unat (OSIF_PAGE_SIZE (env_osif (xenv env))) * nat (sint (ucast np :: u32)) \<le> 2 ^ 64"
    and "unat start + unat n < 2 ^ 64"
    and "get_user_pages_locked (xenv env) (start - start mod PAGE_SIZE64) np = (err, pages)"
    and "of_int err = np" and "vmalloc_ok (xenv env)"
    and "osif_iommu_map_user_pages (env_osif (xenv env)) (aperture_range (xenv env)) pages
           (sint (ucast np :: u32)) None (iommu (daemon st)) = Inr (OSIF_ERR_OK (env_osif (xenv env)), Some h, io)"
    and "0 < client_semaphore (daemon st)"
    and "\<forall>a z o'. dis_start_dma_transfer (xenv env) a z o' = ESCI_OK (xenv env)"
    and "\<forall>a z o'. dma_callback_status (xenv env) a z o' = Some 0" and "callback_error_init (xenv env) = 0"
  shows "local_tcp_recvmsg cfg env renv sk start len naps st =
      Inr (ret_int n,
           \<lparr>ro_pull = Some (osif_iommu_handle_address (xenv env) h + start mod PAGE_SIZE64, n,
                            offset_from_aperture (skb_message st skb)),
            ro_copied = [], ro_pages_freed = True\<rparr>,
           st\<lparr>daemon := (daemon st)\<lparr>iommu := io\<rparr>, socks := (socks st)(sk \<mapsto> k\<lparr>sk_receive_queue := rest\<rparr>)\<rparr>) \<and>
    (\<forall>j < nat (sint (ucast np :: u32)). io_dom io (block_addr (env_osif (xenv env)) h j) =
       Some (page_to_phys (env_osif (xenv env)) (pages ! j))) \<and>
    unat (start mod PAGE_SIZE64) + unat n \<le> unat np * PAGE_SIZE"
proof -
  from assms(15) obtain sem where sem: "client_semaphore (daemon st) = Suc sem"
    using gr0_conv_Suc by blast
  from recv_map_success [of env start n err pages "daemon st" h io sem "skb_message st skb"] assms sem
  have "recv_map env (skb_message st skb) start n (daemon st) =
    Inr (True, no_output\<lparr>ro_pull := Some (osif_iommu_handle_address (xenv env) h + start mod PAGE_SIZE64, n,
      offset_from_aperture (skb_message st skb))\<rparr>, (daemon st)\<lparr>iommu := io\<rparr>)" by simp
  then have "local_tcp_recvmsg cfg env renv sk start len naps st =
      Inr (ret_int n,
           \<lparr>ro_pull = Some (osif_iommu_handle_address (xenv env) h + start mod PAGE_SIZE64, n,
                            offset_from_aperture (skb_message st skb)),
            ro_copied = [], ro_pages_freed = True\<rparr>,
           st\<lparr>daemon := (daemon st)\<lparr>iommu := io\<rparr>, socks := (socks st)(sk \<mapsto> k\<lparr>sk_receive_queue := rest\<rparr>)\<rparr>)"
    unfolding recv_at_head [OF assms(5,6)] recv_one_eq [OF assms(5,6)]
    using assms(1,7) by (simp add: Let_def no_output_def)
  moreover have "\<forall>j < nat (sint (ucast np :: u32)). io_dom io (block_addr (env_osif (xenv env)) h j) =
       Some (page_to_phys (env_osif (xenv env)) (pages ! j))"
    using map_user_pages_maps [OF assms(2-4,9,14)] by auto
  moreover have "unat (start mod PAGE_SIZE64) + unat n \<le> unat np * PAGE_SIZE"
    using pages_hold_data [OF assms(10)] assms(8) by simp
  ultimately show ?thesis by (intro conjI)
qed

theorem recv_pulls_message_witness:
  "\<exists>st'. local_tcp_recvmsg default_config demo_kenv demo_renv 600 0x5010 0x2000 [] demo_reader =
     Inr (0x1000, \<lparr>ro_pull = Some (0x10010, 0x1000, 0x20), ro_copied = [], ro_pages_freed = True\<rparr>, st')"
proof -
  let ?io = "\<lparr>io_dom = [0x10000 \<mapsto> 0x5000, 0x11000 \<mapsto> 0x6000], io_blocks = [0x10000 :: u64]\<rparr> :: iommu_state"
  let ?k = "(demo_end 2 1)\<lparr>sk_receive_queue := [demo_head]\<rparr>"
  have x: "xenv demo_kenv = demo_env" by (simp add: demo_kenv_def)
  have q: "sk_receive_queue ?k = demo_head # []" by simp
  have c: "2 = calc_nr_pages 0x5010 0x1000" by (simp add: calc_nr_pages_def PAGE_SIZE64)
  have d: "0x1000 = read_len (skb_message demo_reader demo_head) 0x2000"
    by (simp only: demo_reader_fields) (simp add: read_len_def demo_data_def)
  have e: "env_osif demo_env = demo_osif" "OSIF_ERR_OK demo_osif = 0" "OSIF_PAGE_SIZE demo_osif = 4096"
    "vmalloc_ok demo_env" "aperture_range demo_env" "callback_error_init demo_env = 0"
    "osif_iommu_handle_address demo_env 0x10000 = 0x10000" "get_user_pages_locked demo_env 0x5000 2 = (2, [5, 6])"
    by (simp_all add: demo_env_def demo_osif_def upt_rec)
  have f: "\<forall>a z o'. dis_start_dma_transfer demo_env a z o' = ESCI_OK demo_env"
    "\<forall>a z o'. dma_callback_status demo_env a z o' = Some 0"
    by (simp_all add: demo_env_def)
  have run: "osif_iommu_map_user_pages demo_osif True [5, 6] 2 None demo_iommu =
      Inr (OSIF_ERR_OK demo_osif, Some 0x10000, ?io)"
    by (simp add: osif_iommu_map_user_pages_def demo_osif_def demo_iommu_def map_loop.simps)
  have m: "MAP_USER_PAGES_RECV default_config" by (simp add: default_config_def)
  have "local_tcp_recvmsg default_config demo_kenv demo_renv 600 0x5010 0x2000 [] demo_reader =
      Inr (ret_int 0x1000, \<lparr>ro_pull = Some (osif_iommu_handle_address demo_env 0x10000 + 0x5010 mod PAGE_SIZE64, 0x1000,
        offset_from_aperture (skb_message demo_reader demo_head)), ro_copied = [], ro_pages_freed = True\<rparr>,
        demo_reader\<lparr>daemon := (daemon demo_reader)\<lparr>iommu := ?io\<rparr>,
          socks := (socks demo_reader)(600 \<mapsto> ?k\<lparr>sk_receive_queue := []\<rparr>)\<rparr>)"
    using recv_pulls_message [OF m _ _ _ demo_reader_fields(1) q d c, of demo_kenv 2 "[5, 6]" "0x10000" ?io demo_renv "[]"]
    unfolding x e(1) demo_reader_fields(3,4)
    using demo_osif_contract e f run by (simp add: PAGE_SIZE64)
  then show ?thesis
    by (simp only: demo_reader_fields e(7) PAGE_SIZE64) (simp add: ret_int_def demo_data_def)
qed

lemma recv_map_outcome:
  assumes "recv_map env m start n d = Inr (ok, out, d')"
  shows "\<not> ro_pages_freed out \<and> client_semaphore d' \<le> client_semaphore d \<and>
    (ok \<longrightarrow> client_semaphore d = 1 \<longrightarrow> client_semaphore d' = 1) \<and>
    (\<not> ok \<longrightarrow> ro_pull out \<noteq> None \<longrightarrow> client_semaphore d' < client_semaphore d)"
proof -
  have w: "await_callback cb err sem = (rc, e, sem') \<Longrightarrow> sem' \<le> sem \<and> (rc = 0 \<longrightarrow> sem = 0 \<longrightarrow> sem' = 0)"
    for cb err sem rc e sem'
    by (cases cb; cases sem) auto
  let ?x = "xenv env" and ?np = "calc_nr_pages start n"
  obtain err pinned where g: "get_user_pages_locked ?x (start - start mod PAGE_SIZE64) ?np = (err, pinned)"
    by (cases "get_user_pages_locked ?x (start - start mod PAGE_SIZE64) ?np")
  let ?pages = "if vmalloc_ok ?x then pinned else []"
  show ?thesis
  proof (cases "of_int err = ?np")
    case False
    with assms g show ?thesis by (auto simp: recv_map_def Let_def no_output_def)
  next
    case True
    with assms g obtain rc h io where
      "osif_iommu_map_user_pages (env_osif ?x) (aperture_range ?x) ?pages (sint (ucast ?np :: u32)) None (iommu d)
        = Inr (rc, h, io)"
      by (auto simp: recv_map_def Let_def rbind_eq_Inr)
    note map = this
    show ?thesis
    proof (cases "rc = OSIF_ERR_OK (env_osif ?x)")
      case False
      with assms g True map show ?thesis by (auto simp: recv_map_def Let_def no_output_def)
    next
      case rc: True
      with assms g True map obtain hd where h: "h = Some hd"
        by (cases h) (auto simp: recv_map_def Let_def)
      let ?a = "osif_iommu_handle_address ?x hd + start mod PAGE_SIZE64" and ?o = "offset_from_aperture m"
      from assms g True map rc h obtain sem where sem: "client_semaphore d = Suc sem"
        by (cases "client_semaphore d") (auto simp: recv_map_def Let_def)
      obtain r1 e1 s1 where aw:
        "await_callback (dma_callback_status ?x ?a n ?o) (callback_error_init ?x) sem = (r1, e1, s1)"
        by (cases "await_callback (dma_callback_status ?x ?a n ?o) (callback_error_init ?x) sem")
      with assms g True map rc h sem w [OF aw] show ?thesis
        by (auto simp: recv_map_def Let_def no_output_def split: if_splits)
    qed
  qed
qed

lemma recv_copy_outcome:
  assumes "recv_copy renv m start n d = Inr (ok, out, d')"
  shows "\<not> ro_pages_freed out \<and> client_semaphore d' = client_semaphore d \<and> ro_pull out = None"
  using assms by (auto simp: recv_copy_def Let_def no_output_def split: if_splits)

text \<open>
  C33. Every read that returns consumes the message at the head of the queue, in every build and
  whatever went wrong: after -14 (EFAULT) its data is lost, the page array is leaked, and when a
  pull had been started the client semaphore has not been given back; after a success whatever
  of the message exceeds the reader's length is lost.
\<close>

theorem recv_failure_loses_message:
  assumes "socks st sk = Some k" and "sk_receive_queue k = skb # rest"
    and "local_tcp_recvmsg cfg env renv sk start len naps st = Inr (r, out, st')"
  shows "socks st' = (socks st)(sk \<mapsto> k\<lparr>sk_receive_queue := rest\<rparr>) \<and>
    (if ro_pages_freed out
     then r = ret_int (read_len (skb_message st skb) len) \<and>
       (client_semaphore (daemon st) = 1 \<longrightarrow> client_semaphore (daemon st') = 1)
     else r = - 14 \<and>
       (ro_pull out \<noteq> None \<longrightarrow> client_semaphore (daemon st') < client_semaphore (daemon st)))"
proof -
  let ?m = "skb_message st skb" and ?n = "read_len (skb_message st skb) len"
  from assms(3) recv_at_head [OF assms(1,2)] recv_one_eq [OF assms(1,2)] obtain ok out1 d where
    t: "(if MAP_USER_PAGES_RECV cfg then recv_map env ?m start ?n (daemon st)
         else recv_copy renv ?m start ?n (daemon st)) = Inr (ok, out1, d)"
    and o: "daemon st' = d" "socks st' = (socks st)(sk \<mapsto> k\<lparr>sk_receive_queue := rest\<rparr>)"
      "if ok then r = ret_int ?n \<and> out = out1\<lparr>ro_pages_freed := True\<rparr> else r = - 14 \<and> out = out1"
    by (auto simp: Let_def rbind_eq_Inr split: if_splits)
  have "\<not> ro_pages_freed out1 \<and> client_semaphore d \<le> client_semaphore (daemon st) \<and>
    (ok \<longrightarrow> client_semaphore (daemon st) = 1 \<longrightarrow> client_semaphore d = 1) \<and>
    (\<not> ok \<longrightarrow> ro_pull out1 \<noteq> None \<longrightarrow> client_semaphore d < client_semaphore (daemon st))"
    using t recv_map_outcome [of env ?m start ?n "daemon st" ok out1 d]
      recv_copy_outcome [of renv ?m start ?n "daemon st" ok out1 d]
    by (cases "MAP_USER_PAGES_RECV cfg") auto
  with o show ?thesis by (cases ok) auto
qed

theorem recv_failure_loses_message_witness:
  "\<exists>out st'. local_tcp_recvmsg default_config
       (demo_kenv\<lparr>xenv := demo_env\<lparr>dma_callback_status := (\<lambda>_ _ _. None)\<rparr>\<rparr>) demo_renv 600 0x5010 0x2000 [] demo_reader =
     Inr (- 14, out, st') \<and> \<not> ro_pages_freed out \<and> client_semaphore (daemon st') = 0"
proof -
  let ?x = "demo_env\<lparr>dma_callback_status := (\<lambda>_ _ _. None)\<rparr>"
  let ?env = "demo_kenv\<lparr>xenv := ?x\<rparr>"
  let ?io = "\<lparr>io_dom = [0x10000 \<mapsto> 0x5000, 0x11000 \<mapsto> 0x6000], io_blocks = [0x10000 :: u64]\<rparr> :: iommu_state"
  have k: "sk_receive_queue ((demo_end 2 1)\<lparr>sk_receive_queue := [demo_head]\<rparr>) = demo_head # []" by simp
  have run: "osif_iommu_map_user_pages demo_osif True [5, 6] 2 None demo_iommu = Inr (0, Some 0x10000, ?io)"
    by (simp add: osif_iommu_map_user_pages_def demo_osif_def demo_iommu_def map_loop.simps)
  have c: "calc_nr_pages 0x5010 0x1000 = 2" by (simp add: calc_nr_pages_def PAGE_SIZE64)
  have d: "read_len demo_data 0x2000 = 0x1000" by (simp add: read_len_def demo_data_def)
  have e: "env_osif demo_env = demo_osif" "OSIF_ERR_OK demo_osif = 0" "vmalloc_ok demo_env" "aperture_range demo_env"
    "dis_start_dma_transfer demo_env a z o' = ESCI_OK demo_env" "get_user_pages_locked demo_env 0x5000 2 = (2, [5, 6])"
    for a z o' by (simp_all add: demo_env_def demo_osif_def upt_rec)
  have len: "read_len (skb_message demo_reader demo_head) 0x2000 = 0x1000"
    by (simp only: demo_reader_fields) (rule d)
  obtain dm where dm: "daemon demo_reader = dm" "iommu dm = demo_iommu" "client_semaphore dm = 1"
    using demo_reader_fields(3,4) by blast
  have "\<exists>out d'. recv_map ?env demo_data 0x5010 0x1000 dm = Inr (False, out, d') \<and> ro_pull out \<noteq> None"
    using e run dm(2,3) c by (simp add: recv_map_def Let_def PAGE_SIZE64 sci_error_handler_def)
  then obtain out dm' where o: "recv_map ?env demo_data 0x5010 0x1000 dm = Inr (False, out, dm')" "ro_pull out \<noteq> None"
    by blast
  let ?st = "demo_reader\<lparr>daemon := dm', socks := (socks demo_reader)(600 \<mapsto>
      (demo_end 2 1)\<lparr>sk_receive_queue := [demo_head], sk_receive_queue := []\<rparr>)\<rparr>"
  have r: "local_tcp_recvmsg default_config ?env demo_renv 600 0x5010 0x2000 [] demo_reader = Inr (- 14, out, ?st)"
    unfolding recv_at_head [OF demo_reader_fields(1) k] recv_one_eq [OF demo_reader_fields(1) k] len
    using o(1) by (simp add: demo_reader_fields(2) dm(1) default_config_def d Let_def)
  have f: "\<not> ro_pages_freed out" using recv_map_outcome [OF o(1)] by blast
  from recv_failure_loses_message [OF demo_reader_fields(1) k r] f o(2)
  have "client_semaphore (daemon ?st) < client_semaphore (daemon demo_reader)" by (simp only: if_False simp_thms)
  then have "client_semaphore (daemon ?st) = 0" unfolding demo_reader_fields(4) by simp
  with r f show ?thesis by (intro exI conjI)
qed

end
