(* ===== verification/Data_Transfer.thy ===== *)
theory Data_Transfer
  imports Ltcp_Recvmsg
begin

text \<open>
  Data from one machine's \<open>sendmsg\<close> to the other's \<open>recvmsg\<close> in the build that copies on both
  sides: with PIO the sender's aperture is a mapping of the receiver's, so what is copied in on
  one side is what is copied out on the other.
\<close>

lemma split_send_single:
  assumes "unat start + unat len < 2 ^ 64" and "pages_spanned (unat start) (unat len) \<le> 32512"
  shows "split_send xmit start len s =
    rbind (xmit start (calc_nr_pages start len) (ucast (start mod PAGE_SIZE64)) len s)
      (\<lambda>(rc, s'). Inr (if rc \<noteq> 0 then - 1 else 0, s'))"
proof -
  let ?n = "calc_nr_pages start len"
  have u: "unat ?n = pages_spanned (unat start) (unat len)" using assms(1) by (rule calc_nr_pages_unat)
  with pages_spanned_pos [of "unat start" "unat len"] have "0 < ?n" by (simp add: word_less_nat_alt)
  moreover have "\<not> MAX_PAGES_SEND < ?n"
    using u assms(2) by (simp add: word_less_nat_alt MAX_PAGES_SEND)
  moreover have "through_int ?n = ?n"
    using u assms(2) by (intro through_int_small) simp
  ultimately show ?thesis
    by (simp add: split_send_def) (subst direct_copy_loop.simps, simp)
qed

definition pio_config :: config where
  "pio_config = default_config\<lparr>MAP_USER_PAGES_SEND := False, MAP_USER_PAGES_RECV := False, PIO := True\<rparr>"

lemma pio_config:
  "\<not> MAP_USER_PAGES_SEND pio_config" "\<not> MAP_USER_PAGES_RECV pio_config" "\<not> LTCP_DEBUG pio_config"
  "\<not> needs_dma pio_config type"
  by (simp_all add: pio_config_def default_config_def needs_dma_def)

text \<open>One send of the copying build into an idle ring.\<close>

lemma copy_send:
  assumes k: "socks st s = Some k" and len: "unat start + unat len < 2 ^ 64"
      "pages_spanned (unat start) (unat len) \<le> 32512"
    and q: "\<not> send_queue_lock (daemon st)" "ring_ok (send_queue (daemon st))" "pending (send_queue (daemon st)) = []"
      "unat (phys_start (send_queue (daemon st))) < CAP" "unat (phys_end (send_queue (daemon st))) < CAP"
      "unat len \<le> unat (space_left (send_queue (daemon st)))"
    and trig: "sci_trigger_interrupt (xenv env) (interrupts (daemon st)) = ESCI_OK (xenv env)"
  shows "\<exists>q mem. local_tcp_sendmsg pio_config env s (Some start) len st =
      Inr (0, st\<lparr>daemon := (daemon st)\<lparr>send_queue := q, send_aperture := mem, interrupts := interrupts (daemon st) + 1\<rparr>\<rparr>) \<and>
    ring_ok q \<and> map (rq_queue q) (pending q) =
      [xmit_message (sk_inet k) REGULAR (ucast (phys_start (send_queue (daemon st)))) len] \<and>
    (\<forall>j < unat len. mem ((unat (phys_start (send_queue (daemon st))) + j) mod CAP) = user_mem (xenv env) (start + of_nat j))"
proof -
  let ?d = "daemon st" and ?x = "xenv env"
  let ?q = "send_queue ?d"
  have w: "wait_space ?q len (phys_end_seen ?x) = Inr ?q"
    using q(6) by (cases "phys_end_seen ?x") (simp_all add: word_less_nat_alt unat_ucast_u32)
  from xmit_copy_places [OF w q(4,5), of start] obtain ps mem where
    p: "xmit_copy ?x start len ?d =
      Inr (Inr (ucast (phys_start ?q)), ?d\<lparr>send_queue := ?q\<lparr>phys_start := ps\<rparr>, send_aperture := mem\<rparr>)"
    "\<forall>j < unat len. mem ((unat (phys_start ?q) + j) mod CAP) = user_mem ?x (start + of_nat j)"
    by blast
  let ?d1 = "?d\<lparr>send_queue := ?q\<lparr>phys_start := ps\<rparr>, send_aperture := mem\<rparr>"
  let ?m = "xmit_message (sk_inet k) REGULAR (ucast (phys_start ?q)) len"
  have r: "ring_ok (?q\<lparr>phys_start := ps\<rparr>)" "pending (?q\<lparr>phys_start := ps\<rparr>) = []"
    using q(2,3) by (simp_all add: ring_ok_def pending_def)
  then have "\<not> ring_full (?q\<lparr>phys_start := ps\<rparr>)" using empty_not_full by simp
  from send_not_full [OF r(1) this, of ?m] r(2) obtain q' where
    q': "send_metamessage ?m (send_queue ?d1) = Inr q'" "ring_ok q'" "map (rq_queue q') (pending q') = [?m]"
    by auto
  have "rdma_xmit pio_config ?x (sk_inet k) REGULAR start n off len ?d =
      Inr (trigger_result ?x (interrupts ?d1),
           ?d1\<lparr>send_queue := q', send_queue_lock := False, interrupts := interrupts ?d1 + 1\<rparr>)" for n off
    using p(1) q'(1) q(1) pio_config by (intro rdma_xmit_placed) simp_all
  then have "rdma_xmit pio_config ?x (sk_inet k) REGULAR start n off len ?d =
      Inr (0, ?d\<lparr>send_queue := q', send_aperture := mem, interrupts := interrupts ?d + 1\<rparr>)" for n off
    using trig q(1) by (simp add: trigger_result_def)
  then have "local_tcp_sendmsg pio_config env s (Some start) len st =
      Inr (0, st\<lparr>daemon := ?d\<lparr>send_queue := q', send_aperture := mem, interrupts := interrupts ?d + 1\<rparr>\<rparr>)"
    using k pio_config(3)
    by (simp add: local_tcp_sendmsg_def local_tcp_sendmsg_helper_def ltcp_direct_copy_def split_send_single [OF len])
  with q'(2,3) p(2) show ?thesis by (intro exI [of _ q'] exI [of _ mem] conjI)
qed

text \<open>A data message through the interrupt of a node that has its connection.\<close>

lemma data_interrupt:
  assumes rel: "node_rel b B" and i: "port_index port < MAX_NUMBER_OF_PORTS"
    and e: "cs_conns B (port_index port) = (Some c, port, ipa) # ws" "socks b c = Some k"
    and msg: "ring_ok (recv_queue (daemon b))" "map (rq_queue (recv_queue (daemon b))) (pending (recv_queue (daemon b))) = [m]"
      "m = \<lparr>src_ip = ipa, dest_ip = ipb, src_port = ucast port, dest_port = ucast port, msg_type = REGULAR,
        offset_from_aperture = off, msg_size = sz\<rparr>"
    and locks: "\<not> recv_queue_lock (daemon b)" and env: "env_ok eb"
  shows "\<exists>b' rq skb. interrupt_callback eb b = Inr (0, b') \<and> daemon b' = (daemon b)\<lparr>recv_queue := rq\<rparr> \<and>
    ring_ok rq \<and> pending rq = [] \<and> node_rel b' B \<and> skb_message b' skb = m \<and>
    socks b' = (socks b)(c \<mapsto> k\<lparr>sk_receive_queue := sk_receive_queue k @ [skb], sk_data_ready := sk_data_ready k + 1\<rparr>)"
proof -
  from one_pending [OF msg(2)] obtain j where j: "pending (recv_queue (daemon b)) = [j]"
    "rq_queue (recv_queue (daemon b)) j = m" by blast
  have skb: "slot_skb b j = \<lparr>skb_msg = j, iph_saddr = ipa, iph_daddr = ipb, skb_sk = None\<rparr>"
    using j(2) by (simp add: slot_skb_def msg(3))
  let ?skb = "(slot_skb b j)\<lparr>skb_sk := Some c\<rparr>"
  let ?P = "\<lambda>x. node_rel x B \<and> socks x =
    (socks b)(c \<mapsto> k\<lparr>sk_receive_queue := sk_receive_queue k @ [?skb], sk_data_ready := sk_data_ready k + 1\<rparr>)"
  have al: "alloc_skb eb j" using env by (simp add: env_ok_def)
  have "\<exists>st2. local_tcp_rcv eb (slot_skb b j) (b\<lparr>daemon := d\<rparr>) = Inr (0, st2) \<and> ?P st2"
    if d: "rq_queue (recv_queue d) = rq_queue (recv_queue (daemon b))" for d :: rdma
  proof -
    have c: "skb_carries (b\<lparr>daemon := d\<rparr>) (slot_skb b j) REGULAR port port"
      using d j(2) by (simp add: skb_carries_def skb msg(3))
    have r: "node_rel (b\<lparr>daemon := d\<rparr>) B" using rel by (simp add: node_rel_def)
    from e(1) have e': "cs_conns B (port_index port) = [] @ (Some c, port, ipa) # ws" by simp
    from rcv_regular_found [OF r refl i e', of k "slot_skb b j"] e(2) r show ?thesis
      unfolding rcv_dispatch(1) [OF c] by (simp add: skb node_rel_def)
  qed
  from interrupt_one [OF msg(1) j(1) locks al, of ?P, OF this] obtain b' rq where
    b': "interrupt_callback eb b = Inr (0, b')" "?P b'" "daemon b' = (daemon b)\<lparr>recv_queue := rq\<rparr>" "ring_ok rq"
    "pending rq = []" "rq_queue rq = rq_queue (recv_queue (daemon b))"
    by (auto simp: node_rel_def)
  have "skb_message b' ?skb = m"
    using b'(3,6) j(2) by (simp add: skb_message_def slot_skb_def Let_def)
  with b' show ?thesis by (intro exI [of _ b'] exI [of _ rq] exI [of _ ?skb]) simp
qed

lemma pio_read:
  assumes "socks st c = Some k" and "sk_receive_queue k = [skb]" and "skb_message st skb = m"
    and "\<forall>a n. copy_to_iter renv a n = n"
    and "n = read_len m len" and "off = unat (offset_from_aperture m)"
  shows "if off + unat n \<le> 134217728
    then \<exists>out st'. local_tcp_recvmsg pio_config env renv c start len naps st = Inr (ret_int n, out, st') \<and>
      ro_copied out = map (\<lambda>j. recv_aperture renv (off + j)) [0..<unat n]
    else local_tcp_recvmsg pio_config env renv c start len naps st = Inl OutOfBounds"
  unfolding recv_at_head [OF assms(1,2)] recv_one_eq [OF assms(1,2)] assms(3)
  using assms(4-6) CAP
  by (simp add: pio_config recv_copy_def Let_def no_output_def CAP_def)

text \<open>
  C13. Data survives the way from one machine to the other in the build that copies on both sides
  with PIO: on an idle link with an established connection, a send that fits the free space and
  one message, the interrupt, and a read deliver to the reader exactly the bytes of the
  sender's buffer, the first of them up to the reader's length; except when the message was
  placed around the end of the aperture, which the sender splits and the reader does not: then
  the read runs beyond the aperture.
\<close>

theorem copied_data_round_trip:
  assumes "link_idle (a, b)" and "env_ok ea" and "env_ok eb" and "port_index port < MAX_NUMBER_OF_PORTS"
    and "established port s ipb vs A a" and "established port c ipa ws B b" and "ucast (src_IP a) = ipa"
    and "socks b c = Some kc" and "sk_receive_queue kc = []"
    and "unat start + unat len < 2 ^ 64" and "pages_spanned (unat start) (unat len) \<le> 32512"
    and "off = unat (phys_start (send_queue (daemon a)))" and "off < 134217728"
    and "unat (phys_end (send_queue (daemon a))) < 134217728"
    and "unat len \<le> unat (space_left (send_queue (daemon a)))"
    and "n = (if len < rlen then len else rlen)"
  shows "\<exists>p1 a2 b2. on_a (local_tcp_sendmsg pio_config ea s (Some start) len) (a, b) = Inr (0, p1) \<and>
    on_b (interrupt_callback eb) p1 = Inr (0, (a2, b2)) \<and>
    (\<forall>renv. recv_aperture renv = send_aperture (daemon a2) \<longrightarrow> (\<forall>u z. copy_to_iter renv u z = z) \<longrightarrow>
      (if off + unat n \<le> 134217728
       then \<exists>out b3. local_tcp_recvmsg pio_config eb renv c rstart rlen naps b2 = Inr (ret_int n, out, b3) \<and>
         ro_copied out = map (\<lambda>j. user_mem (xenv ea) (start + of_nat j)) [0..<unat n]
       else local_tcp_recvmsg pio_config eb renv c rstart rlen naps b2 = Inl OutOfBounds))"
proof -
  from assms(1) have l: "recv_queue (daemon b) = send_queue (daemon a)" "send_queue (daemon b) = recv_queue (daemon a)"
    "ring_ok (send_queue (daemon a))" "pending (send_queue (daemon a)) = []"
    "\<not> send_queue_lock (daemon a)" "\<not> recv_queue_lock (daemon b)"
    by (auto simp: link_idle_def coupled_def)
  from assms(5) obtain k where k: "socks a s = Some k" "inet_saddr (sk_inet k) = ipa" "inet_daddr (sk_inet k) = ipb"
    "inet_sport (sk_inet k) = port" "inet_dport (sk_inet k) = port"
    using assms(7) by (auto simp: established_def)
  have trig: "sci_trigger_interrupt (xenv ea) (interrupts (daemon a)) = ESCI_OK (xenv ea)"
    using assms(2) by (simp add: env_ok_def)
  let ?ps = "phys_start (send_queue (daemon a))"
  let ?m = "xmit_message (sk_inet k) REGULAR (ucast ?ps) len"
  have bounds: "unat ?ps < CAP" "unat (phys_end (send_queue (daemon a))) < CAP"
    using assms(12-14) by (simp_all add: CAP)
  from copy_send [OF k(1) assms(10,11) l(5,3,4) bounds assms(15) trig, folded assms(12)] obtain q mem where
    snd: "local_tcp_sendmsg pio_config ea s (Some start) len a =
      Inr (0, a\<lparr>daemon := (daemon a)\<lparr>send_queue := q, send_aperture := mem, interrupts := interrupts (daemon a) + 1\<rparr>\<rparr>)"
    "ring_ok q" "map (rq_queue q) (pending q) = [?m]"
    "\<forall>j < unat len. mem ((off + j) mod CAP) = user_mem (xenv ea) (start + of_nat j)"
    by (elim exE conjE) (rule that)
  let ?a1 = "a\<lparr>daemon := (daemon a)\<lparr>send_queue := q, send_aperture := mem, interrupts := interrupts (daemon a) + 1\<rparr>\<rparr>"
  let ?b1 = "mirror ?a1 b"
  from assms(6) have b: "node_rel ?b1 B" "cs_conns B (port_index port) = (Some c, port, ipa) # ws"
    "socks ?b1 c = Some kc" using assms(8) by (auto simp: established_def)
  have m: "?m = \<lparr>src_ip = ipa, dest_ip = ipb, src_port = ucast port, dest_port = ucast port, msg_type = REGULAR,
        offset_from_aperture = ucast ?ps, msg_size = len\<rparr>"
    by (simp add: xmit_message_def k)
  from data_interrupt [OF b(1) assms(4) b(2,3) _ _ m _ assms(3)] snd(2,3) l(6) assms(9) obtain b2 skb where
    b2: "interrupt_callback eb ?b1 = Inr (0, b2)" "skb_message b2 skb = ?m"
      "socks b2 c = Some (kc\<lparr>sk_receive_queue := [skb], sk_data_ready := sk_data_ready kc + 1\<rparr>)"
    by auto
  let ?a2 = "mirror b2 ?a1"
  have p1: "on_a (local_tcp_sendmsg pio_config ea s (Some start) len) (a, b) = Inr (0, (?a1, ?b1))"
    using snd(1) by (simp add: on_a_def)
  moreover have "on_b (interrupt_callback eb) (?a1, ?b1) = Inr (0, (?a2, b2))"
    using b2(1) by (simp add: on_b_def)
  moreover have "if off + unat n \<le> 134217728
       then \<exists>out b3. local_tcp_recvmsg pio_config eb renv c rstart rlen naps b2 = Inr (ret_int n, out, b3) \<and>
         ro_copied out = map (\<lambda>j. user_mem (xenv ea) (start + of_nat j)) [0..<unat n]
       else local_tcp_recvmsg pio_config eb renv c rstart rlen naps b2 = Inl OutOfBounds"
    if r: "recv_aperture renv = send_aperture (daemon ?a2)" "\<forall>u z. copy_to_iter renv u z = z" for renv
  proof -
    have mem: "recv_aperture renv = mem" using r(1) by (simp add: mirror_def)
    have o: "unat (offset_from_aperture ?m) = off"
      by (simp add: xmit_message_def unat_ucast_u32 assms(12))
    have n: "read_len ?m rlen = n" "unat n \<le> unat len"
      using assms(16) by (auto simp: read_len_def xmit_message_def word_less_nat_alt)
    have "recv_aperture renv (off + j) = user_mem (xenv ea) (start + of_nat j)"
      if "off + unat n \<le> 134217728" "j < unat n" for j
      using snd(4) that n(2) by (auto simp: mem CAP dest: spec [of _ j])
    with pio_read [OF b2(3) _ b2(2) r(2), of n rlen off eb rstart naps] n(1) o show ?thesis
      by (auto split: if_splits)
  qed
  ultimately show ?thesis by (intro exI [of _ "(?a1, ?b1)"] exI [of _ ?a2] exI [of _ b2] conjI allI impI)
qed

theorem copied_data_round_trip_witness:
  "\<exists>p1 a2 b2 out b3. on_a (local_tcp_sendmsg pio_config demo_kenv 600 (Some 0x5010) 3) (demo_peer 1 2, demo_peer 2 1) = Inr (0, p1) \<and>
    on_b (interrupt_callback demo_kenv) p1 = Inr (0, (a2, b2)) \<and>
    local_tcp_recvmsg pio_config demo_kenv \<lparr>recv_aperture = send_aperture (daemon a2), copy_to_iter = (\<lambda>_ n. n)\<rparr>
      600 0x9000 100 [] b2 = Inr (3, out, b3) \<and> ro_copied out = [0x10, 0x11, 0x12]"
proof -
  let ?r = "\<lambda>a. \<lparr>recv_aperture = send_aperture (daemon a), copy_to_iter = (\<lambda>_ n. n)\<rparr> :: recv_env"
  have p: "port_index 0x931F < MAX_NUMBER_OF_PORTS" "ucast (src_IP (demo_peer 1 2)) = (1 :: u32)"
    using demo_port by (simp_all add: demo_peer_fields)
  have k: "socks (demo_peer 2 1) 600 = Some (demo_end 2 1)" "sk_receive_queue (demo_end 2 1) = []"
    by (simp_all add: demo_peer_fields demo_end_def demo_new_sock_def demo_listener_def)
  have pages: "unat (0x5010 :: u64) + unat (3 :: u64) < 2 ^ 64" "pages_spanned (unat (0x5010 :: u64)) (unat (3 :: u64)) \<le> 32512"
    by (simp_all add: pages_spanned_def PAGE_SIZE_def)
  have q: "0 = unat (phys_start (send_queue (daemon (demo_peer 1 2))))" "(0 :: nat) < 134217728"
    "unat (phys_end (send_queue (daemon (demo_peer 1 2)))) < 134217728"
    "unat (3 :: u64) \<le> unat (space_left (send_queue (daemon (demo_peer 1 2))))"
    by (simp_all add: demo_peer_fields demo_rdma_def demo_ring_def space_left_def APERTURE_SIZE_QUEUE)
  have n: "(3 :: u64) = (if (3 :: u64) < 100 then 3 else 100)" by simp
  from copied_data_round_trip [OF demo_peer_link demo_env_ok demo_env_ok p(1) demo_peer_established demo_peer_established
      p(2) k pages q n, of "0x9000" "[]"] obtain p1 a2 b2 where
    r: "on_a (local_tcp_sendmsg pio_config demo_kenv 600 (Some 0x5010) 3) (demo_peer 1 2, demo_peer 2 1) = Inr (0, p1)"
    "on_b (interrupt_callback demo_kenv) p1 = Inr (0, (a2, b2))"
    "\<exists>out b3. local_tcp_recvmsg pio_config demo_kenv (?r a2) 600 0x9000 100 [] b2 = Inr (ret_int 3, out, b3) \<and>
       ro_copied out = map (\<lambda>j. user_mem (xenv demo_kenv) (0x5010 + of_nat j)) [0..<unat (3 :: u64)]"
    by (elim exE conjE) (rule that, assumption+, simp)
  have "map (\<lambda>j. user_mem (xenv demo_kenv) (0x5010 + of_nat j)) [0..<unat (3 :: u64)] = [0x10, 0x11, 0x12]"
    by (simp add: demo_kenv_def demo_env_def upt_rec)
  moreover have "ret_int 3 = 3" by (simp add: ret_int_def)
  ultimately show ?thesis using r by auto
qed

end
