(* ===== verification/Inet_Addr.thy ===== *)
theory Inet_Addr
  imports Ltcp_Prelude
begin

text \<open>
  \<open>inet_addr\<close> of \<open>ltcp/helpers.c\<close>, which reads the module parameters \<open>src\<close> and \<open>dest\<close>:
  the kernel's \<open>sscanf\<close> with the format of four numbers and dots into four variables, their low
  bytes into a four-byte array, and a load of eight bytes from it. What the variables hold
  before and what lies behind the array are arguments.
\<close>

subsection \<open>The kernel's sscanf on that format\<close>

definition is_digit :: "char \<Rightarrow> bool" where
  "is_digit c \<longleftrightarrow> 48 \<le> (of_char c :: nat) \<and> (of_char c :: nat) \<le> 57"

definition is_space :: "char \<Rightarrow> bool" where
  "is_space c \<longleftrightarrow> 9 \<le> (of_char c :: nat) \<and> (of_char c :: nat) \<le> 13 \<or> of_char c = (32 :: nat) \<or> of_char c = (160 :: nat)"

text \<open>\<open>simple_strtoul\<close> in base ten, without a check for overflow.\<close>

fun simple_strtoul :: "u64 \<Rightarrow> string \<Rightarrow> u64 \<times> string" where
  "simple_strtoul acc [] = (acc, [])"
| "simple_strtoul acc (c # cs) =
     (if is_digit c then simple_strtoul (acc * 10 + of_nat (of_char c - 48)) cs else (acc, c # cs))"

text \<open>One \<open>%d\<close>: white space is skipped, a minus sign is allowed, the value is stored as an \<open>int\<close>.\<close>

definition scan_d :: "string \<Rightarrow> (u32 \<times> string) option" where
  "scan_d str =
     (case dropWhile is_space str of
        [] \<Rightarrow> None
      | c # cs \<Rightarrow>
          if c = CHR ''-'' then
            (case cs of [] \<Rightarrow> None
             | c' # _ \<Rightarrow> if is_digit c' then (case simple_strtoul 0 cs of (v, rest) \<Rightarrow> Some (ucast (- v), rest))
                        else None)
          else if is_digit c then (case simple_strtoul 0 (c # cs) of (v, rest) \<Rightarrow> Some (ucast v, rest))
          else None)"

text \<open>The format: a number per variable, a dot between them; the first mismatch ends the scan.\<close>

fun sscanf_dotted :: "u32 list \<Rightarrow> string \<Rightarrow> u32 list" where
  "sscanf_dotted [] str = []"
| "sscanf_dotted (v # vs) str =
     (case scan_d str of
        None \<Rightarrow> v # vs
      | Some (w, rest) \<Rightarrow> w # (case rest of [] \<Rightarrow> vs
          | c # rest' \<Rightarrow> if c = CHR ''.'' then sscanf_dotted vs rest' else vs))"

subsection \<open>The routine\<close>

fun le_bytes :: "u8 list \<Rightarrow> u64" where
  "le_bytes [] = 0"
| "le_bytes (b # bs) = ucast b OR push_bit 8 (le_bytes bs)"

text \<open>\<open>uninit\<close> are the four variables' contents, \<open>beyond\<close> the four bytes behind the array.\<close>

definition inet_addr :: "u32 list \<Rightarrow> u8 list \<Rightarrow> string option \<Rightarrow> u64 res" where
  "inet_addr uninit beyond str =
     (case str of
        None \<Rightarrow> Inl NullDeref
      | Some s \<Rightarrow>
          let arr = map ucast (sscanf_dotted uninit s) :: u8 list
          in Inr (le_bytes (arr @ beyond)))"

subsection \<open>Dotted notation\<close>

fun decimal :: "nat \<Rightarrow> string" where
  "decimal n = (if n < 10 then [char_of (48 + n)] else decimal (n div 10) @ [char_of (48 + n mod 10)])"

declare decimal.simps [simp del]

fun dotted :: "u8 list \<Rightarrow> string" where
  "dotted [] = []"
| "dotted [b] = decimal (unat b)"
| "dotted (b # bs) = decimal (unat b) @ CHR ''.'' # dotted bs"

lemma digit_char: "n < 10 \<Longrightarrow> of_char (char_of (48 + n)) = (48 + n :: nat)"
  by (simp add: of_char_of take_bit_nat_eq_self)

lemma digit_char_is:
  assumes "n < (10 :: nat)"
  shows "is_digit (char_of (48 + n))" "\<not> is_space (char_of (48 + n))" "char_of (48 + n) \<noteq> CHR ''-''"
    "char_of (48 + n) \<noteq> CHR ''.''"
proof -
  show "is_digit (char_of (48 + n))" "\<not> is_space (char_of (48 + n))"
    unfolding is_digit_def is_space_def digit_char [OF assms] using assms by simp_all
  have ne: "char_of (48 + n) \<noteq> c" if "of_char c < (48 :: nat)" for c
    using digit_char [OF assms] that by (metis not_add_less1)
  show "char_of (48 + n) \<noteq> CHR ''-''" "char_of (48 + n) \<noteq> CHR ''.''"
    by (rule ne, simp)+
qed

lemma digit_step:
  assumes "n < (10 :: nat)"
  shows "simple_strtoul acc (char_of (48 + n) # r) = simple_strtoul (acc * 10 + of_nat n) r"
proof -
  have "simple_strtoul acc (c # r) = simple_strtoul (acc * 10 + of_nat (of_char c - 48)) r" if "is_digit c" for c
    using that by simp
  from this [OF digit_char_is(1) [OF assms]] show ?thesis unfolding digit_char [OF assms] by (simp del: simple_strtoul.simps)
qed

lemma strtoul_decimal:
  "simple_strtoul acc (decimal n @ r) = simple_strtoul (acc * 10 ^ length (decimal n) + of_nat n) r"
proof (induction n arbitrary: acc r rule: decimal.induct)
  case (1 n)
  show ?case
  proof (cases "n < 10")
    case True
    then show ?thesis by (simp add: decimal.simps [of n] digit_step del: simple_strtoul.simps)
  next
    case False
    have n: "(of_nat n :: u64) = of_nat (n div 10) * 10 + of_nat (n mod 10)"
      by (metis mult.commute mult_div_mod_eq of_nat_add of_nat_mult of_nat_numeral)
    have "simple_strtoul acc (decimal n @ r) =
        simple_strtoul (acc * 10 ^ length (decimal (n div 10)) + of_nat (n div 10)) (char_of (48 + n mod 10) # r)"
      using 1 [OF False] False by (simp add: decimal.simps [of n])
    also have "\<dots> = simple_strtoul ((acc * 10 ^ length (decimal (n div 10)) + of_nat (n div 10)) * 10 + of_nat (n mod 10)) r"
      by (rule digit_step) simp
    also have "(acc * 10 ^ length (decimal (n div 10)) + of_nat (n div 10)) * 10 + of_nat (n mod 10) =
        acc * 10 ^ length (decimal n) + of_nat n"
      using False by (simp add: decimal.simps [of n] n algebra_simps)
    finally show ?thesis .
  qed
qed

lemma decimal_head: "\<exists>k cs. k < (10 :: nat) \<and> decimal n = char_of (48 + k) # cs"
proof (induction n rule: decimal.induct)
  case (1 n)
  show ?case
  proof (cases "n < 10")
    case True
    then show ?thesis by (intro exI [of _ n] exI [of _ "[]"]) (simp only: decimal.simps [of n] if_True simp_thms)
  next
    case False
    with 1 show ?thesis by (auto simp: decimal.simps [of n])
  qed
qed

lemma ucast_byte: "ucast (ucast (of_nat (unat (b :: u8)) :: u64) :: u32) = b"
proof -
  have "(of_nat (unat b) :: u64) = ucast b" by (simp add: unsigned_of_nat)
  then show ?thesis by (simp only:) (rule bit_word_eqI, auto simp: bit_simps)
qed

lemma scan_decimal:
  assumes "r = [] \<or> (\<exists>c r'. r = c # r' \<and> \<not> is_digit c)"
  shows "\<exists>w. scan_d (decimal (unat (b :: u8)) @ r) = Some (w, r) \<and> ucast w = b"
proof -
  obtain k :: nat and cs where k: "k < 10" "decimal (unat b) = char_of (48 + k) # cs" using decimal_head by blast
  have "simple_strtoul 0 (decimal (unat b) @ r) = (of_nat (unat b), r)"
    using assms by (auto simp: strtoul_decimal)
  then have "simple_strtoul 0 (char_of (48 + k) # cs @ r) = (of_nat (unat b), r)" using k(2) by simp
  then have "scan_d (decimal (unat b) @ r) = Some (ucast (of_nat (unat b) :: u64), r)"
    using digit_char_is [OF k(1)] by (simp add: scan_d_def k(2) del: simple_strtoul.simps)
  then show ?thesis using ucast_byte by blast
qed

lemma dot_no_digit: "\<not> is_digit (CHR ''.'')"
  by (simp add: is_digit_def)

lemma sscanf_dots:
  "length us = length bs \<Longrightarrow> map ucast (sscanf_dotted us (dotted bs)) = bs"
proof (induction bs arbitrary: us rule: dotted.induct)
  case 1
  then show ?case by simp
next
  case (2 b)
  then obtain u where u: "us = [u]" by (cases us) auto
  from scan_decimal [of "[]" b] show ?case by (auto simp: u)
next
  case (3 b b' bs)
  then obtain u us' where u: "us = u # us'" "length us' = length (b' # bs)" by (cases us) auto
  from scan_decimal [of "CHR ''.'' # dotted (b' # bs)" b] dot_no_digit obtain w where
    "scan_d (decimal (unat b) @ CHR ''.'' # dotted (b' # bs)) = Some (w, CHR ''.'' # dotted (b' # bs))" "ucast w = b"
    by auto
  with "3.IH" [OF u(2)] show ?case by (simp add: u(1))
qed

subsection \<open>The bytes of the result\<close>

lemma le_bytes_nth:
  "i < length bs \<Longrightarrow> i < 8 \<Longrightarrow> (ucast (drop_bit (8 * i) (le_bytes bs)) :: u8) = bs ! i"
proof (induction bs arbitrary: i)
  case Nil
  then show ?case by simp
next
  case (Cons b bs)
  show ?case
  proof (cases i)
    case 0
    show ?thesis unfolding 0 by (rule bit_word_eqI) (auto simp: bit_simps)
  next
    case (Suc k)
    have "(ucast (drop_bit (8 * i) (le_bytes (b # bs))) :: u8) = ucast (drop_bit (8 * k) (le_bytes bs))"
      using Cons.prems unfolding Suc
      by (intro bit_word_eqI) (auto simp: bit_simps dest: bit_imp_le_length)
    with Cons Suc show ?thesis by simp
  qed
qed

lemma le_bytes_append4:
  assumes "length xs = 4"
  shows "(ucast (le_bytes (xs @ ys)) :: u32) = ucast (le_bytes xs)"
proof -
  obtain a b c d where "xs = [a, b, c, d]"
    using assms by (auto simp: numeral_eq_Suc length_Suc_conv)
  then show ?thesis by (intro bit_word_eqI) (auto simp: bit_simps)
qed

text \<open>
  C36. Reading dotted notation back: for any four bytes, whatever the variables held before,
  \<open>inet_addr\<close> of their dotted decimal text returns a word whose first four bytes in memory are
  these bytes, so its low half is the address in network order; the upper half is whatever lies
  behind the four-byte array.
\<close>

theorem inet_addr_dotted:
  assumes "length bs = 4" and "length uninit = 4" and "length beyond = 4"
  shows "\<exists>w. inet_addr uninit beyond (Some (dotted bs)) = Inr w \<and>
    (\<forall>i < 4. (ucast (drop_bit (8 * i) w) :: u8) = bs ! i) \<and>
    (\<forall>i < 4. (ucast (drop_bit (8 * (4 + i)) w) :: u8) = beyond ! i) \<and>
    (ucast w :: u32) = ucast (le_bytes bs)"
proof -
  have r: "inet_addr uninit beyond (Some (dotted bs)) = Inr (le_bytes (bs @ beyond))"
    using sscanf_dots [of uninit bs] assms by (simp add: inet_addr_def)
  have "(ucast (drop_bit (8 * i) (le_bytes (bs @ beyond))) :: u8) = bs ! i" if "i < 4" for i
    using le_bytes_nth [of i "bs @ beyond"] assms that by (simp add: nth_append)
  moreover have "(ucast (drop_bit (8 * (4 + i)) (le_bytes (bs @ beyond))) :: u8) = beyond ! i" if "i < 4" for i
    using le_bytes_nth [of "4 + i" "bs @ beyond"] assms that by (simp add: nth_append)
  ultimately show ?thesis using r le_bytes_append4 [OF assms(1), of beyond] by blast
qed

theorem inet_addr_dotted_witness:
  "dotted [192, 168, 6, 134] = ''192.168.6.134'' \<and>
   (\<exists>w. inet_addr [7, 7, 7, 7] [0xAA, 0xBB, 0xCC, 0xDD] (Some ''192.168.6.134'') = Inr w \<and> ucast w = (0x8606A8C0 :: u32))"
proof -
  have d: "dotted [192, 168, 6, 134] = ''192.168.6.134''"
    by (simp add: decimal.simps char_of_def bit_0)
  have "(ucast (le_bytes [192, 168, 6, 134]) :: u32) = 0x8606A8C0" by simp
  moreover have "\<exists>w. inet_addr [7, 7, 7, 7] [0xAA, 0xBB, 0xCC, 0xDD] (Some (dotted [192, 168, 6, 134])) = Inr w \<and>
      (ucast w :: u32) = ucast (le_bytes [192, 168, 6, 134])"
    using inet_addr_dotted [of "[192, 168, 6, 134]" "[7, 7, 7, 7]" "[0xAA, 0xBB, 0xCC, 0xDD]"] by auto
  ultimately show ?thesis unfolding d by simp
qed

end
