(* ===== verification/Module_Hooks.thy ===== *)
theory Module_Hooks
  imports Ltcp_Sockets Inet_Addr
begin

text \<open>
  Loading and unloading of the protocol module (\<open>ltcp/local_tcp_protocol.c\<close>): registration of
  the protocol with the kernel, and the exchange of the connect, accept and close functions of
  the kernel's TCP by the module's own. The kernel's registration functions are the fields of
  \<open>reg_env\<close>; \<open>reg_contract\<close> states what their documentation promises.
\<close>

subsection \<open>State\<close>

datatype hook = Null_Fn | Kernel_Fn nat
  | Fn_ltcp_tcp_v4_connect_wrapper | Fn_ltcp_inet_csk_accept | Fn_ltcp_tcp_close

record tcp_hooks =
  tp_connect :: hook
  tp_accept :: hook
  tp_close :: hook

datatype net_proto = Ltcp_Protocol_Handler | Other_Handler nat

record inet_protosw =
  psw_type :: nat
  psw_protocol :: nat
  psw_prot :: proto
  psw_ops :: nat
  psw_flags :: nat

definition SOCK_RAW :: nat where "SOCK_RAW = 3"
definition inet_dgram_ops :: nat where "inet_dgram_ops = 2"
definition INET_PROTOSW_REUSE :: nat where "INET_PROTOSW_REUSE = 1"

text \<open>
  The kernel's TCP functions, the module's copy of them, what is registered (the protocol, the
  handlers by protocol number, the entry of the socket switch), and the two addresses.
\<close>

record kernel =
  tcp_prot :: tcp_hooks
  org_tcp_prot :: tcp_hooks
  reg_proto :: bool
  inet_protos :: "nat \<Rightarrow> net_proto option"
  ltcp_protosw :: inet_protosw
  reg_sw :: bool
  k_dest_IP :: u64
  k_src_IP :: u64

record reg_env =
  proto_register :: "kernel \<Rightarrow> int \<times> kernel"
  proto_unregister :: "kernel \<Rightarrow> kernel res"
  inet_add_protocol :: "nat \<Rightarrow> kernel \<Rightarrow> int \<times> kernel"
  inet_del_protocol :: "nat \<Rightarrow> kernel \<Rightarrow> int \<times> kernel"
  inet_register_protosw :: "kernel \<Rightarrow> kernel"
  inet_unregister_protosw :: "kernel \<Rightarrow> kernel res"
  param_dest :: "string option"
  param_src :: "string option"
  stack_vars :: "u32 list"
  stack_beyond :: "u8 list"

text \<open>
  A registration that fails changes nothing. A handler is added to a free number and only the
  own handler is deleted. Unregistering unlinks a list entry: one that was never linked holds
  NULL pointers.
\<close>

definition reg_contract :: "reg_env \<Rightarrow> bool" where
  "reg_contract env \<longleftrightarrow>
     (\<forall>k rc k'. proto_register env k = (rc, k') \<longrightarrow> k' = (if rc = 0 then k\<lparr>reg_proto := True\<rparr> else k)) \<and>
     (\<forall>k. proto_unregister env k = (if reg_proto k then Inr (k\<lparr>reg_proto := False\<rparr>) else Inl NullDeref)) \<and>
     (\<forall>p k. inet_add_protocol env p k =
        (if inet_protos k p = None then (0, k\<lparr>inet_protos := (inet_protos k)(p \<mapsto> Ltcp_Protocol_Handler)\<rparr>) else (- 1, k))) \<and>
     (\<forall>p k. inet_del_protocol env p k =
        (if inet_protos k p = Some Ltcp_Protocol_Handler then (0, k\<lparr>inet_protos := (inet_protos k)(p := None)\<rparr>) else (- 1, k))) \<and>
     (\<forall>k. inet_register_protosw env k = k\<lparr>reg_sw := True\<rparr>) \<and>
     (\<forall>k. inet_unregister_protosw env k = (if reg_sw k then Inr (k\<lparr>reg_sw := False\<rparr>) else Inl NullDeref))"

subsection \<open>The routines\<close>

definition register_ltcp_protocol :: "reg_env \<Rightarrow> kernel \<Rightarrow> int \<times> kernel" where
  "register_ltcp_protocol env k =
     (case proto_register env k of (err, k1) \<Rightarrow>
      if err \<noteq> 0 then (err, k1)
      else case inet_add_protocol env IPPROTO_LOCAL_TCP k1 of (err1, k2) \<Rightarrow>
        if err1 < 0 then (err1, k2)
        else
          let k3 = k2\<lparr>ltcp_protosw := \<lparr>psw_type = SOCK_RAW, psw_protocol = IPPROTO_LOCAL_TCP, psw_prot = Ltcp_Proto,
                                       psw_ops = inet_dgram_ops, psw_flags = INET_PROTOSW_REUSE\<rparr>\<rparr>
          in (0, inet_register_protosw env k3))"

definition unregister_ltcp_protocol :: "reg_env \<Rightarrow> kernel \<Rightarrow> (int \<times> kernel) res" where
  "unregister_ltcp_protocol env k =
     rbind (proto_unregister env k) (\<lambda>k1.
     case inet_del_protocol env IPPROTO_LOCAL_TCP k1 of (err, k2) \<Rightarrow>
       if err < 0 then Inr (err, k2)
       else rbind (inet_unregister_protosw env k2) (\<lambda>k3. Inr (0, k3)))"

definition local_tcp_module_init_function :: "reg_env \<Rightarrow> kernel \<Rightarrow> (int \<times> kernel) res" where
  "local_tcp_module_init_function env k =
     (let k1 = snd (register_ltcp_protocol env k)
      in rbind (inet_addr (stack_vars env) (stack_beyond env) (param_dest env)) (\<lambda>dest.
         rbind (inet_addr (stack_vars env) (stack_beyond env) (param_src env)) (\<lambda>src.
         let k2 = k1\<lparr>k_dest_IP := dest, k_src_IP := src, org_tcp_prot := tcp_prot k1\<rparr>
         in Inr (0, k2\<lparr>tcp_prot := \<lparr>tp_connect = Fn_ltcp_tcp_v4_connect_wrapper, tp_accept = Fn_ltcp_inet_csk_accept,
                                    tp_close = Fn_ltcp_tcp_close\<rparr>\<rparr>))))"

definition local_tcp_module_exit_function :: "reg_env \<Rightarrow> kernel \<Rightarrow> kernel res" where
  "local_tcp_module_exit_function env k =
     rbind (unregister_ltcp_protocol env k) (\<lambda>(err, k1). Inr (k1\<lparr>tcp_prot := org_tcp_prot k1\<rparr>))"

definition ltcp_hooks :: tcp_hooks where
  "ltcp_hooks = \<lparr>tp_connect = Fn_ltcp_tcp_v4_connect_wrapper, tp_accept = Fn_ltcp_inet_csk_accept, tp_close = Fn_ltcp_tcp_close\<rparr>"

subsection \<open>Properties\<close>

lemma inet_addr_Some: "\<exists>w. inet_addr u b (Some s) = Inr w"
  by (simp add: inet_addr_def)

lemma reg_contractD:
  assumes "reg_contract env"
  shows "proto_register env k = (rc, k') \<Longrightarrow> k' = (if rc = 0 then k\<lparr>reg_proto := True\<rparr> else k)"
    and "proto_unregister env k = (if reg_proto k then Inr (k\<lparr>reg_proto := False\<rparr>) else Inl NullDeref)"
    and "inet_add_protocol env p k =
        (if inet_protos k p = None then (0, k\<lparr>inet_protos := (inet_protos k)(p \<mapsto> Ltcp_Protocol_Handler)\<rparr>) else (- 1, k))"
    and "inet_del_protocol env p k =
        (if inet_protos k p = Some Ltcp_Protocol_Handler then (0, k\<lparr>inet_protos := (inet_protos k)(p := None)\<rparr>) else (- 1, k))"
    and "inet_register_protosw env k = k\<lparr>reg_sw := True\<rparr>"
    and "inet_unregister_protosw env k = (if reg_sw k then Inr (k\<lparr>reg_sw := False\<rparr>) else Inl NullDeref)"
  using assms by (simp_all add: reg_contract_def)

lemma init_returns:
  assumes "param_dest env = Some d" and "param_src env = Some s"
  shows "\<exists>di si. local_tcp_module_init_function env k =
    Inr (0, (snd (register_ltcp_protocol env k))\<lparr>k_dest_IP := di, k_src_IP := si,
      org_tcp_prot := tcp_prot (snd (register_ltcp_protocol env k)), tcp_prot := ltcp_hooks\<rparr>)"
proof -
  from inet_addr_Some [of "stack_vars env" "stack_beyond env"] obtain di si where
    "inet_addr (stack_vars env) (stack_beyond env) (Some d) = Inr di"
    "inet_addr (stack_vars env) (stack_beyond env) (Some s) = Inr si" by blast
  with assms show ?thesis
    by (intro exI [of _ di] exI [of _ si]) (simp add: local_tcp_module_init_function_def Let_def ltcp_hooks_def)
qed

lemma load_then_unload:
  assumes "reg_contract env" and "fst (proto_register env k) = 0"
    and "inet_protos k IPPROTO_LOCAL_TCP = None" and "\<not> reg_proto k" and "\<not> reg_sw k"
    and "param_dest env = Some d" and "param_src env = Some s"
  shows "\<exists>k1 k2. local_tcp_module_init_function env k = Inr (0, k1) \<and>
    tcp_prot k1 = ltcp_hooks \<and> reg_proto k1 \<and> reg_sw k1 \<and>
    inet_protos k1 = (inet_protos k)(5 \<mapsto> Ltcp_Protocol_Handler) \<and>
    local_tcp_module_exit_function env k1 = Inr k2 \<and>
    tcp_prot k2 = tcp_prot k \<and> \<not> reg_proto k2 \<and> \<not> reg_sw k2 \<and> inet_protos k2 = inet_protos k"
proof -
  note c = reg_contractD [OF assms(1)]
  obtain k0 where "proto_register env k = (0, k0)" using assms(2) by (cases "proto_register env k") simp
  then have r: "proto_register env k = (0, k\<lparr>reg_proto := True\<rparr>)" using c(1) [of k 0 k0] by simp
  let ?sw = "\<lparr>psw_type = SOCK_RAW, psw_protocol = IPPROTO_LOCAL_TCP, psw_prot = Ltcp_Proto,
    psw_ops = inet_dgram_ops, psw_flags = INET_PROTOSW_REUSE\<rparr>"
  have reg: "register_ltcp_protocol env k =
      (0, k\<lparr>reg_proto := True, inet_protos := (inet_protos k)(5 \<mapsto> Ltcp_Protocol_Handler), ltcp_protosw := ?sw, reg_sw := True\<rparr>)"
    using assms(3) by (simp add: register_ltcp_protocol_def r c IPPROTO_LOCAL_TCP_def)
  from init_returns [OF assms(6,7), of k] obtain di si where
    "local_tcp_module_init_function env k = Inr (0, k\<lparr>reg_proto := True,
      inet_protos := (inet_protos k)(5 \<mapsto> Ltcp_Protocol_Handler), ltcp_protosw := ?sw, reg_sw := True,
      k_dest_IP := di, k_src_IP := si, org_tcp_prot := tcp_prot k, tcp_prot := ltcp_hooks\<rparr>)" (is "_ = Inr (0, ?k1)")
    by (auto simp: reg)
  moreover have "local_tcp_module_exit_function env ?k1 = Inr (?k1\<lparr>reg_proto := False,
      inet_protos := (inet_protos k)(5 \<mapsto> Ltcp_Protocol_Handler, 5 := None), reg_sw := False, tcp_prot := tcp_prot k\<rparr>)"
    by (simp add: local_tcp_module_exit_function_def unregister_ltcp_protocol_def c IPPROTO_LOCAL_TCP_def)
  moreover have "(inet_protos k)(5 \<mapsto> Ltcp_Protocol_Handler, 5 := None) = inet_protos k"
    using assms(3) by (simp add: IPPROTO_LOCAL_TCP_def fun_upd_idem)
  ultimately show ?thesis by (intro exI [of _ ?k1] exI conjI) (assumption | simp)+
qed

text \<open>
  C23. Loading and unloading are inverse: when the kernel accepts the protocol, its number is free
  and both address parameters are given, loading registers the protocol, its handler and its
  switch entry and redirects exactly connect, accept and close of TCP to the module; unloading
  after that succeeds, TCP's functions and the registrations are as they were before.
\<close>

theorem module_load_unload:
  assumes "reg_contract env" and "fst (proto_register env k) = 0"
    and "inet_protos k IPPROTO_LOCAL_TCP = None" and "\<not> reg_proto k" and "\<not> reg_sw k"
    and "param_dest env = Some d" and "param_src env = Some s"
  shows "\<exists>k1 k2. local_tcp_module_init_function env k = Inr (0, k1) \<and>
    tcp_prot k1 = ltcp_hooks \<and> reg_proto k1 \<and> reg_sw k1 \<and>
    inet_protos k1 = (inet_protos k)(5 \<mapsto> Ltcp_Protocol_Handler) \<and>
    local_tcp_module_exit_function env k1 = Inr k2 \<and>
    tcp_prot k2 = tcp_prot k \<and> \<not> reg_proto k2 \<and> \<not> reg_sw k2 \<and> inet_protos k2 = inet_protos k"
  using assms by (rule load_then_unload)

text \<open>A kernel in which registrations succeed, except the first when \<open>ok\<close> is false.\<close>

definition demo_reg :: "bool \<Rightarrow> reg_env" where
  "demo_reg ok = \<lparr>proto_register = (\<lambda>k. if ok then (0, k\<lparr>reg_proto := True\<rparr>) else (- 12, k)),
     proto_unregister = (\<lambda>k. if reg_proto k then Inr (k\<lparr>reg_proto := False\<rparr>) else Inl NullDeref),
     inet_add_protocol = (\<lambda>p k. if inet_protos k p = None
        then (0, k\<lparr>inet_protos := (inet_protos k)(p \<mapsto> Ltcp_Protocol_Handler)\<rparr>) else (- 1, k)),
     inet_del_protocol = (\<lambda>p k. if inet_protos k p = Some Ltcp_Protocol_Handler
        then (0, k\<lparr>inet_protos := (inet_protos k)(p := None)\<rparr>) else (- 1, k)),
     inet_register_protosw = (\<lambda>k. k\<lparr>reg_sw := True\<rparr>),
     inet_unregister_protosw = (\<lambda>k. if reg_sw k then Inr (k\<lparr>reg_sw := False\<rparr>) else Inl NullDeref),
     param_dest = Some ''192.168.6.136'', param_src = Some ''192.168.6.134'',
     stack_vars = [0, 0, 0, 0], stack_beyond = [0, 0, 0, 0]\<rparr>"

lemma demo_reg_contract: "reg_contract (demo_reg ok)"
  by (simp add: reg_contract_def demo_reg_def)

definition demo_kernel :: kernel where
  "demo_kernel = \<lparr>tcp_prot = \<lparr>tp_connect = Kernel_Fn 1, tp_accept = Kernel_Fn 2, tp_close = Kernel_Fn 3\<rparr>,
     org_tcp_prot = \<lparr>tp_connect = Null_Fn, tp_accept = Null_Fn, tp_close = Null_Fn\<rparr>, reg_proto = False,
     inet_protos = [6 \<mapsto> Other_Handler 6], ltcp_protosw = \<lparr>psw_type = 0, psw_protocol = 0, psw_prot = Other_Proto 0,
       psw_ops = 0, psw_flags = 0\<rparr>, reg_sw = False, k_dest_IP = 0, k_src_IP = 0\<rparr>"

lemma demo_kernel_fields:
  "inet_protos demo_kernel IPPROTO_LOCAL_TCP = None" "\<not> reg_proto demo_kernel" "\<not> reg_sw demo_kernel"
  "tcp_prot demo_kernel = \<lparr>tp_connect = Kernel_Fn 1, tp_accept = Kernel_Fn 2, tp_close = Kernel_Fn 3\<rparr>"
  "fst (proto_register (demo_reg ok) demo_kernel) = (if ok then 0 else - 12)"
  "param_dest (demo_reg ok) = Some ''192.168.6.136''" "param_src (demo_reg ok) = Some ''192.168.6.134''"
  by (simp_all add: demo_kernel_def demo_reg_def IPPROTO_LOCAL_TCP_def)

theorem module_load_unload_witness:
  "\<exists>k1 k2. local_tcp_module_init_function (demo_reg True) demo_kernel = Inr (0, k1) \<and> tcp_prot k1 = ltcp_hooks \<and>
    local_tcp_module_exit_function (demo_reg True) k1 = Inr k2 \<and>
    tcp_prot k2 = \<lparr>tp_connect = Kernel_Fn 1, tp_accept = Kernel_Fn 2, tp_close = Kernel_Fn 3\<rparr>"
  using module_load_unload [OF demo_reg_contract _ demo_kernel_fields(1-3,6,7), of True]
  by (auto simp: demo_kernel_fields)

text \<open>
  C35. A failed registration goes unnoticed: when the kernel refuses the protocol, loading still
  returns 0 and redirects TCP to the module; unloading then dereferences NULL in the kernel's
  list of protocols, before TCP's own functions are put back.
\<close>

theorem failed_registration_crashes_unload:
  assumes "reg_contract env" and "fst (proto_register env k) \<noteq> 0" and "\<not> reg_proto k"
    and "param_dest env = Some d" and "param_src env = Some s"
  shows "\<exists>k1. local_tcp_module_init_function env k = Inr (0, k1) \<and> tcp_prot k1 = ltcp_hooks \<and>
    inet_protos k1 = inet_protos k \<and> local_tcp_module_exit_function env k1 = Inl NullDeref"
proof -
  note c = reg_contractD [OF assms(1)]
  obtain rc k0 where r: "proto_register env k = (rc, k0)" "rc \<noteq> 0"
    using assms(2) by (cases "proto_register env k") simp
  with c(1) [OF r(1)] have reg: "register_ltcp_protocol env k = (rc, k)"
    by (simp add: register_ltcp_protocol_def)
  from init_returns [OF assms(4,5), of k] obtain di si where
    "local_tcp_module_init_function env k =
      Inr (0, k\<lparr>k_dest_IP := di, k_src_IP := si, org_tcp_prot := tcp_prot k, tcp_prot := ltcp_hooks\<rparr>)" (is "_ = Inr (0, ?k1)")
    by (auto simp: reg)
  moreover have "local_tcp_module_exit_function env ?k1 = Inl NullDeref"
    using assms(3) by (simp add: local_tcp_module_exit_function_def unregister_ltcp_protocol_def c)
  ultimately show ?thesis by (intro exI [of _ ?k1]) simp
qed

theorem failed_registration_crashes_unload_witness:
  "\<exists>k1. local_tcp_module_init_function (demo_reg False) demo_kernel = Inr (0, k1) \<and> tcp_prot k1 = ltcp_hooks \<and>
    local_tcp_module_exit_function (demo_reg False) k1 = Inl NullDeref"
  using failed_registration_crashes_unload [OF demo_reg_contract _ demo_kernel_fields(2,6,7), of False]
  by (auto simp: demo_kernel_fields)

end
