(* ===== verification/Daemon_Setup.thy ===== *)
theory Daemon_Setup
  imports Module_Hooks Two_Nodes
begin

text \<open>
  The start of the RDMA daemon (\<open>rdma/rdma_daemon.c\<close>): the shared segment with the receive ring
  and its interrupt, the apertures, the connection to the other machine's segments, and the
  module's \<open>init\<close> and \<open>cleanup\<close>. What the SCI library returns is in the parameter
  \<open>sci_env\<close>: the errors by segment, the callback of a connection attempt when it comes within
  the time, and the memory of the mapped segments.
\<close>

subsection \<open>State\<close>

definition SHARED_SEGMENT_ID_META_QUEUE :: u32 where "SHARED_SEGMENT_ID_META_QUEUE = 0x123"
definition SHARED_SEGMENT_ID_APERTURE :: u32 where "SHARED_SEGMENT_ID_APERTURE = 0x124"
definition SHARED_SEGMENT_ID_APERTURE_RECV :: u32 where "SHARED_SEGMENT_ID_APERTURE_RECV = 0x125"
definition SHARED_SEGMENT_ID_APERTURE_SEND :: u32 where "SHARED_SEGMENT_ID_APERTURE_SEND = 0x126"

lemmas segment_ids = SHARED_SEGMENT_ID_META_QUEUE_def SHARED_SEGMENT_ID_APERTURE_def
  SHARED_SEGMENT_ID_APERTURE_RECV_def SHARED_SEGMENT_ID_APERTURE_SEND_def

text \<open>
  The daemon with the pointers and handles of \<open>rdma_daemon.h\<close>: local segments created and
  exported, remote ones connected, the allocated interrupt, the remote interrupt it triggers.
\<close>

record daemon_state =
  ds_daemon :: rdma
  recv_queue_ptr :: bool
  send_queue_ptr :: bool
  local_segments :: "u32 list"
  exported_segments :: "u32 list"
  remote_segments :: "u32 list"
  lih :: bool
  rih :: "u32 option"
  aperture_ranges :: "u32 list"
  physical_recv_aperture :: u64
  physical_send_aperture :: u64
  send_aperture_handle :: "u64 option"
  recv_aperture_freed :: bool
  sci_bound :: bool

record sci_env =
  SCI_OK :: u32
  sci_initialize :: bool
  sci_create_segment :: "u32 \<Rightarrow> u32"
  sci_export_segment :: "u32 \<Rightarrow> u32"
  segment_memory :: ltcp_ring_queue
  sci_allocate_interrupt_flag :: u32
  sci_interrupt_number :: u32
  sci_connect_segment :: "u32 \<Rightarrow> u32 \<times> u32 option"
  sci_map_segment :: "u32 \<Rightarrow> u32"
  remote_ring :: ltcp_ring_queue
  sci_connect_interrupt_flag :: "u32 \<Rightarrow> u32"
  sci_alloc_aperture :: "u32 \<Rightarrow> u32"
  sci_local_kernel_virtual_address :: "u32 \<Rightarrow> u64"
  sci_kernel_virtual_address_of_mapping :: "u32 \<Rightarrow> u64"
  osif_iommu_map :: "int \<times> u64"
  sci_unbind :: "daemon_state \<Rightarrow> daemon_state"

subsection \<open>Connecting to a remote segment\<close>

definition client_segment_callback :: "u32 \<Rightarrow> int \<Rightarrow> nat \<Rightarrow> int \<times> nat" where
  "client_segment_callback status err sem = ((if status \<noteq> 0 then 1 else err), sem_up sem)"

definition await_segment :: "u32 option \<Rightarrow> int \<Rightarrow> nat \<Rightarrow> int \<times> int \<times> nat" where
  "await_segment cb err sem =
     (let (err1, sem1) = (case cb of None \<Rightarrow> (err, sem) | Some status \<Rightarrow> client_segment_callback status err sem);
          (rc, sem2) = sem_down_timeout sem1
      in (rc, err1, sem2))"

definition set_semaphore :: "nat \<Rightarrow> daemon_state \<Rightarrow> daemon_state" where
  "set_semaphore n ds = ds\<lparr>ds_daemon := (ds_daemon ds)\<lparr>client_semaphore := n\<rparr>\<rparr>"

text \<open>The block the three connections share, with \<open>callback_error\<close> initialised to zero.\<close>

definition connect_remote :: "sci_env \<Rightarrow> u32 \<Rightarrow> daemon_state \<Rightarrow> (int \<times> daemon_state) res" where
  "connect_remote env seg ds =
     rbind (sem_down (client_semaphore (ds_daemon ds))) (\<lambda>sem.
     case sci_connect_segment env seg of (scierr, cb) \<Rightarrow>
       if sci_error_handler (SCI_OK env) scierr = 0 then Inr (- 1, set_semaphore sem ds)
       else case await_segment cb 0 sem of (rc, callback_error, sem1) \<Rightarrow>
         if rc \<noteq> 0 then Inr (- 1, set_semaphore sem1 ds)
         else if callback_error \<noteq> 0 then Inr (- 1, set_semaphore sem1 ds)
         else Inr (0, (set_semaphore (sem_up sem1) ds)\<lparr>remote_segments := remote_segments ds @ [seg]\<rparr>))"

subsection \<open>The four parts\<close>

definition zeroed_ring :: "ltcp_ring_queue \<Rightarrow> ltcp_ring_queue" where
  "zeroed_ring q = q\<lparr>rq_start := 0, rq_end := 0, phys_start := 0, phys_end := 0\<rparr>"

definition setup_recv_meta_queue :: "sci_env \<Rightarrow> daemon_state \<Rightarrow> int \<times> daemon_state" where
  "setup_recv_meta_queue env ds =
     (let seg = SHARED_SEGMENT_ID_META_QUEUE
      in if sci_error_handler (SCI_OK env) (sci_create_segment env seg) = 0 then (- 1, ds)
         else
           let ds1 = ds\<lparr>local_segments := local_segments ds @ [seg]\<rparr>
           in if sci_error_handler (SCI_OK env) (sci_export_segment env seg) = 0 then (- 1, ds1)
              else
                let rq = zeroed_ring (segment_memory env);
                    ds2 = ds1\<lparr>exported_segments := exported_segments ds @ [seg], recv_queue_ptr := True,
                             ds_daemon := (ds_daemon ds)\<lparr>recv_queue := rq\<rparr>\<rparr>
                in if sci_error_handler (SCI_OK env) (sci_allocate_interrupt_flag env) = 0 then (- 1, ds2)
                   else (0, ds2\<lparr>lih := True,
                          ds_daemon := (ds_daemon ds)\<lparr>recv_queue := rq\<lparr>int_no := sci_interrupt_number env\<rparr>\<rparr>\<rparr>))"

definition setup_send_meta_queue :: "sci_env \<Rightarrow> daemon_state \<Rightarrow> (int \<times> daemon_state) res" where
  "setup_send_meta_queue env ds =
     (let seg = SHARED_SEGMENT_ID_META_QUEUE
      in rbind (connect_remote env seg ds) (\<lambda>(rc, ds1).
         if rc < 0 then Inr (- 1, ds1)
         else if sci_error_handler (SCI_OK env) (sci_map_segment env seg) = 0 then Inr (- 1, ds1)
         else
           let ds2 = ds1\<lparr>send_queue_ptr := True, ds_daemon := (ds_daemon ds1)\<lparr>send_queue := remote_ring env\<rparr>\<rparr>;
               no = int_no (remote_ring env)
           in if sci_error_handler (SCI_OK env) (sci_connect_interrupt_flag env no) = 0 then Inr (- 1, ds2)
              else Inr (0, ds2\<lparr>rih := Some no\<rparr>)))"

definition setup_recv_aperture_queue :: "config \<Rightarrow> sci_env \<Rightarrow> daemon_state \<Rightarrow> int \<times> daemon_state" where
  "setup_recv_aperture_queue cfg env ds =
     (let seg = SHARED_SEGMENT_ID_APERTURE; segr = SHARED_SEGMENT_ID_APERTURE_RECV
      in if sci_error_handler (SCI_OK env) (sci_create_segment env seg) = 0 then (- 1, ds)
         else
           let ds1 = ds\<lparr>local_segments := local_segments ds @ [seg]\<rparr>
           in if sci_error_handler (SCI_OK env) (sci_alloc_aperture env seg) = 0 then (- 1, ds1)
              else
                let ds2 = ds1\<lparr>aperture_ranges := aperture_ranges ds1 @ [seg]\<rparr>
                in if MAP_USER_PAGES_RECV cfg then (0, ds2)
                   else if sci_error_handler (SCI_OK env) (sci_create_segment env segr) = 0 then (- 1, ds2)
                   else
                     let ds3 = ds2\<lparr>local_segments := local_segments ds2 @ [segr]\<rparr>
                     in if sci_error_handler (SCI_OK env) (sci_export_segment env segr) = 0 then (- 1, ds3)
                        else (0, ds3\<lparr>exported_segments := exported_segments ds3 @ [segr],
                               physical_recv_aperture := sci_local_kernel_virtual_address env segr\<rparr>))"

text \<open>The PIO build maps the remote aperture; an error of the mapping is printed only.\<close>

definition send_aperture_pio :: "sci_env \<Rightarrow> daemon_state \<Rightarrow> int \<times> daemon_state" where
  "send_aperture_pio env ds =
     (0, ds\<lparr>physical_send_aperture := sci_kernel_virtual_address_of_mapping env SHARED_SEGMENT_ID_APERTURE_RECV\<rparr>)"

text \<open>The copying build with DMA makes a local segment and maps it for the adapter.\<close>

definition send_aperture_dma :: "sci_env \<Rightarrow> daemon_state \<Rightarrow> int \<times> daemon_state" where
  "send_aperture_dma env ds =
     (let seg = SHARED_SEGMENT_ID_APERTURE_SEND
      in if sci_error_handler (SCI_OK env) (sci_create_segment env seg) = 0 then (- 1, ds)
         else
           let ds1 = ds\<lparr>local_segments := local_segments ds @ [seg]\<rparr>
           in if sci_error_handler (SCI_OK env) (sci_alloc_aperture env seg) = 0 then (- 1, ds1)
              else
                let a = sci_local_kernel_virtual_address env seg;
                    ds2 = ds1\<lparr>aperture_ranges := aperture_ranges ds1 @ [seg], physical_send_aperture := a\<rparr>
                in case osif_iommu_map env of (rc, h) \<Rightarrow>
                   if rc \<noteq> 0 then (- 1, ds2\<lparr>recv_aperture_freed := True\<rparr>)
                   else let ds3 = ds2\<lparr>send_aperture_handle := Some h\<rparr>
                        in if a = 0 then (- 1, ds3) else (0, ds3))"

definition setup_send_aperture_queue :: "config \<Rightarrow> sci_env \<Rightarrow> daemon_state \<Rightarrow> (int \<times> daemon_state) res" where
  "setup_send_aperture_queue cfg env ds =
     (if MAP_USER_PAGES_RECV cfg then connect_remote env SHARED_SEGMENT_ID_APERTURE ds
      else rbind (connect_remote env SHARED_SEGMENT_ID_APERTURE_RECV ds) (\<lambda>(rc, ds1).
           if rc < 0 then Inr (- 1, ds1)
           else if PIO cfg then Inr (send_aperture_pio env ds1)
           else Inr (send_aperture_dma env ds1)))"

subsection \<open>Start and end\<close>

definition daemon_setup :: "config \<Rightarrow> sci_env \<Rightarrow> daemon_state \<Rightarrow> (int \<times> daemon_state) res" where
  "daemon_setup cfg env ds =
     (case setup_recv_meta_queue env ds of (r1, ds1) \<Rightarrow>
      if r1 < 0 then Inr (- 1, ds1)
      else case setup_recv_aperture_queue cfg env ds1 of (r2, ds2) \<Rightarrow>
        if r2 < 0 then Inr (- 1, ds2)
        else rbind (setup_send_meta_queue env ds2) (\<lambda>(r3, ds3).
          if r3 < 0 then Inr (- 1, ds3)
          else rbind (setup_send_aperture_queue cfg env ds3) (\<lambda>(r4, ds4).
            if r4 < 0 then Inr (- 1, ds4) else Inr (0, ds4))))"

definition daemon_setup_wrapper :: "config \<Rightarrow> sci_env \<Rightarrow> daemon_state \<Rightarrow> (int \<times> daemon_state) res" where
  "daemon_setup_wrapper cfg env ds =
     (if \<not> sci_initialize env then Inr (- 1, ds)
      else rbind (daemon_setup cfg env (ds\<lparr>sci_bound := True\<rparr>)) (\<lambda>(rc, ds1).
           if rc \<noteq> 0 then Inr (- 1, ds1) else Inr (0, ds1)))"

definition cleanup :: "reg_env \<Rightarrow> sci_env \<Rightarrow> kernel \<times> daemon_state \<Rightarrow> (kernel \<times> daemon_state) res" where
  "cleanup renv env s =
     rbind (local_tcp_module_exit_function renv (fst s)) (\<lambda>k. Inr (k, sci_unbind env (snd s)))"

definition init :: "config \<Rightarrow> reg_env \<Rightarrow> sci_env \<Rightarrow> kernel \<times> daemon_state \<Rightarrow> (int \<times> kernel \<times> daemon_state) res" where
  "init cfg renv env s =
     rbind (local_tcp_module_init_function renv (fst s)) (\<lambda>(_, k).
     rbind (daemon_setup_wrapper cfg env (snd s)) (\<lambda>(rc, ds).
     if rc \<noteq> 0 then rbind (cleanup renv env (k, ds)) (\<lambda>s1. Inr (- 1, s1)) else Inr (0, k, ds)))"

subsection \<open>Properties\<close>

lemma sci_error_handler_eq [simp]: "sci_error_handler ok e = 0 \<longleftrightarrow> e \<noteq> ok"
  by (simp add: sci_error_handler_def)

text \<open>What every part keeps, and that it returns 0 or -1.\<close>

definition returns_ok :: "(int \<times> daemon_state) res \<Rightarrow> (daemon_state \<Rightarrow> bool) \<Rightarrow> bool" where
  "returns_ok m P \<longleftrightarrow> (\<exists>ds. m = Inr (- 1, ds) \<or> m = Inr (0, ds) \<and> P ds)"

lemma returns_okI: "m = Inr (r, ds) \<Longrightarrow> r = - 1 \<or> r = 0 \<and> P ds \<Longrightarrow> returns_ok m P"
  by (auto simp: returns_ok_def)

lemma returns_ok_then:
  assumes "returns_ok m P" and "\<And>ds. P ds \<Longrightarrow> returns_ok (f ds) Q"
  shows "returns_ok (rbind m (\<lambda>(r, ds). if r < 0 then Inr (- 1, ds) else f ds)) Q"
  using assms by (auto simp: returns_ok_def)

lemma connect_remote_ok:
  assumes "client_semaphore (ds_daemon ds) = 1"
  shows "returns_ok (connect_remote env seg ds) (\<lambda>ds'. ds' = ds\<lparr>remote_segments := remote_segments ds @ [seg]\<rparr>)"
proof -
  obtain e cb where c: "sci_connect_segment env seg = (e, cb)" by (cases "sci_connect_segment env seg")
  have "(set_semaphore (Suc 0) ds) = ds"
    using assms by (cases ds, cases "ds_daemon ds") (simp add: set_semaphore_def)
  then show ?thesis
    using assms c
    by (cases cb) (auto simp: connect_remote_def await_segment_def client_segment_callback_def sem_down_def returns_ok_def)
qed

text \<open>The daemon after its start: the rings are there, the own one empty, the interrupts connected.\<close>

definition daemon_up :: "sci_env \<Rightarrow> daemon_state \<Rightarrow> bool" where
  "daemon_up env ds \<longleftrightarrow> client_semaphore (ds_daemon ds) = 1 \<and> recv_queue_ptr ds \<and> send_queue_ptr ds \<and>
     lih ds \<and> rih ds = Some (int_no (remote_ring env)) \<and> send_queue (ds_daemon ds) = remote_ring env \<and>
     recv_queue (ds_daemon ds) = (zeroed_ring (segment_memory env))\<lparr>int_no := sci_interrupt_number env\<rparr>"

lemma setup_recv_meta_queue_ok:
  "returns_ok (Inr (setup_recv_meta_queue env ds)) (\<lambda>ds'.
     ds_daemon ds' = (ds_daemon ds)\<lparr>recv_queue := (zeroed_ring (segment_memory env))\<lparr>int_no := sci_interrupt_number env\<rparr>\<rparr> \<and>
     recv_queue_ptr ds' \<and> lih ds')"
  by (auto simp: returns_ok_def setup_recv_meta_queue_def Let_def)

lemma setup_recv_aperture_queue_ok:
  "returns_ok (Inr (setup_recv_aperture_queue cfg env ds)) (\<lambda>ds'.
     ds_daemon ds' = ds_daemon ds \<and> recv_queue_ptr ds' = recv_queue_ptr ds \<and> lih ds' = lih ds)"
  by (auto simp: returns_ok_def setup_recv_aperture_queue_def Let_def)

lemma setup_send_meta_queue_ok:
  assumes "client_semaphore (ds_daemon ds) = 1"
  shows "returns_ok (setup_send_meta_queue env ds) (\<lambda>ds'.
     ds_daemon ds' = (ds_daemon ds)\<lparr>send_queue := remote_ring env\<rparr> \<and> recv_queue_ptr ds' = recv_queue_ptr ds \<and>
     lih ds' = lih ds \<and> send_queue_ptr ds' \<and> rih ds' = Some (int_no (remote_ring env)))"
  unfolding setup_send_meta_queue_def Let_def
  by (rule returns_ok_then [OF connect_remote_ok [OF assms]]) (auto simp: returns_ok_def)

lemma setup_send_aperture_queue_ok:
  assumes "client_semaphore (ds_daemon ds) = 1"
  shows "returns_ok (setup_send_aperture_queue cfg env ds) (\<lambda>ds'.
     ds_daemon ds' = ds_daemon ds \<and> recv_queue_ptr ds' = recv_queue_ptr ds \<and> lih ds' = lih ds \<and>
     send_queue_ptr ds' = send_queue_ptr ds \<and> rih ds' = rih ds)"
proof (cases "MAP_USER_PAGES_RECV cfg")
  case True
  from connect_remote_ok [OF assms, of env SHARED_SEGMENT_ID_APERTURE] True show ?thesis
    by (auto simp: returns_ok_def setup_send_aperture_queue_def)
next
  case False
  have "returns_ok (rbind (connect_remote env SHARED_SEGMENT_ID_APERTURE_RECV ds) (\<lambda>(r, ds1).
      if r < 0 then Inr (- 1, ds1) else (if PIO cfg then Inr (send_aperture_pio env ds1) else Inr (send_aperture_dma env ds1))))
    (\<lambda>ds'. ds_daemon ds' = ds_daemon ds \<and> recv_queue_ptr ds' = recv_queue_ptr ds \<and> lih ds' = lih ds \<and>
     send_queue_ptr ds' = send_queue_ptr ds \<and> rih ds' = rih ds)"
    by (rule returns_ok_then [OF connect_remote_ok [OF assms]])
      (auto simp: returns_ok_def send_aperture_pio_def send_aperture_dma_def Let_def split: prod.splits)
  with False show ?thesis by (simp add: setup_send_aperture_queue_def)
qed

lemma daemon_setup_seq:
  "daemon_setup cfg env ds =
    rbind (Inr (setup_recv_meta_queue env ds)) (\<lambda>(r, d). if r < 0 then Inr (- 1, d) else
    rbind (Inr (setup_recv_aperture_queue cfg env d)) (\<lambda>(r, d). if r < 0 then Inr (- 1, d) else
    rbind (setup_send_meta_queue env d) (\<lambda>(r, d). if r < 0 then Inr (- 1, d) else
    rbind (setup_send_aperture_queue cfg env d) (\<lambda>(r, d). if r < 0 then Inr (- 1, d) else Inr (0, d)))))"
  by (simp add: daemon_setup_def cong: if_cong)

lemma daemon_setup_ok:
  assumes "client_semaphore (ds_daemon ds) = 1"
  shows "returns_ok (daemon_setup cfg env ds) (\<lambda>ds'. daemon_up env ds' \<and>
    ds_daemon ds' = (ds_daemon ds)\<lparr>recv_queue := recv_queue (ds_daemon ds'), send_queue := send_queue (ds_daemon ds')\<rparr>)"
  unfolding daemon_setup_seq
  apply (rule returns_ok_then [OF setup_recv_meta_queue_ok])
  apply (rule returns_ok_then [OF setup_recv_aperture_queue_ok])
  apply (rule returns_ok_then [OF setup_send_meta_queue_ok], use assms in simp)
  apply (rule returns_ok_then [OF setup_send_aperture_queue_ok], use assms in simp)
  apply (auto simp: returns_ok_def daemon_up_def assms)
  done


text \<open>Every SCI call succeeds.\<close>

definition sci_ok :: "sci_env \<Rightarrow> bool" where
  "sci_ok env \<longleftrightarrow> (\<forall>s. sci_create_segment env s = SCI_OK env) \<and> (\<forall>s. sci_export_segment env s = SCI_OK env) \<and>
     sci_allocate_interrupt_flag env = SCI_OK env \<and> (\<forall>s. sci_connect_segment env s = (SCI_OK env, Some 0)) \<and>
     (\<forall>s. sci_map_segment env s = SCI_OK env) \<and> (\<forall>n. sci_connect_interrupt_flag env n = SCI_OK env) \<and>
     (\<forall>s. sci_alloc_aperture env s = SCI_OK env) \<and> (\<forall>s. sci_local_kernel_virtual_address env s \<noteq> 0) \<and>
     fst (osif_iommu_map env) = 0"

lemma connect_remote_success:
  assumes "sci_ok env" and "client_semaphore (ds_daemon ds) = 1"
  shows "connect_remote env seg ds = Inr (0, ds\<lparr>remote_segments := remote_segments ds @ [seg]\<rparr>)"
proof -
  have "set_semaphore (Suc 0) ds = ds"
    using assms(2) by (cases ds, cases "ds_daemon ds") (simp add: set_semaphore_def)
  with assms show ?thesis
    by (simp add: sci_ok_def connect_remote_def await_segment_def client_segment_callback_def sem_down_def)
qed

lemma daemon_setup_success:
  assumes "sci_ok env" and "client_semaphore (ds_daemon ds) = 1"
  shows "\<exists>ds'. daemon_setup cfg env ds = Inr (0, ds')"
proof -
  obtain ds1 where 1: "setup_recv_meta_queue env ds = (0, ds1)" "client_semaphore (ds_daemon ds1) = 1"
    using assms by (simp add: setup_recv_meta_queue_def sci_ok_def Let_def)
  obtain ds2 where 2: "setup_recv_aperture_queue cfg env ds1 = (0, ds2)" "client_semaphore (ds_daemon ds2) = 1"
    using assms(1) 1(2) by (cases "MAP_USER_PAGES_RECV cfg") (auto simp: setup_recv_aperture_queue_def sci_ok_def Let_def)
  obtain ds3 where 3: "setup_send_meta_queue env ds2 = Inr (0, ds3)" "client_semaphore (ds_daemon ds3) = 1"
    using assms(1) 2(2) connect_remote_success [OF assms(1) 2(2)]
    by (simp add: setup_send_meta_queue_def sci_ok_def Let_def)
  obtain ds4 where "setup_send_aperture_queue cfg env ds3 = Inr (0, ds4)"
    using assms(1) connect_remote_success [OF assms(1) 3(2)]
    by (cases "MAP_USER_PAGES_RECV cfg"; cases "PIO cfg"; cases "osif_iommu_map env")
      (auto simp: setup_send_aperture_queue_def send_aperture_pio_def send_aperture_dma_def sci_ok_def Let_def)
  with 1(1) 2(1) 3(1) show ?thesis by (simp add: daemon_setup_def)
qed

text \<open>
  C22. Two machines that start find each other: in every build, when the SCI calls succeed and each
  maps the ring the other one has set up, both starts return 0, each triggers the interrupt the
  other allocated, and the link between them is idle, with both rings empty and well-formed: the
  state connections start from.
\<close>

theorem setup_links_machines:
  assumes "sci_ok ea" and "sci_ok eb"
    and "client_semaphore (ds_daemon da) = 1" and "client_semaphore (ds_daemon db) = 1"
    and "\<not> send_queue_lock (ds_daemon da)" and "\<not> recv_queue_lock (ds_daemon da)"
    and "\<not> send_queue_lock (ds_daemon db)" and "\<not> recv_queue_lock (ds_daemon db)"
    and "remote_ring ea = recv_queue (ds_daemon (snd (setup_recv_meta_queue eb db)))"
    and "remote_ring eb = recv_queue (ds_daemon (snd (setup_recv_meta_queue ea da)))"
  shows "\<exists>da' db'. daemon_setup cfg ea da = Inr (0, da') \<and> daemon_setup cfg eb db = Inr (0, db') \<and>
    rih da' = Some (sci_interrupt_number eb) \<and> rih db' = Some (sci_interrupt_number ea) \<and>
    client_semaphore (ds_daemon da') = 1 \<and> client_semaphore (ds_daemon db') = 1 \<and>
    link_idle (a\<lparr>daemon := ds_daemon da'\<rparr>, b\<lparr>daemon := ds_daemon db'\<rparr>)"
proof -
  have z: "recv_queue (ds_daemon (snd (setup_recv_meta_queue e d))) =
      (zeroed_ring (segment_memory e))\<lparr>int_no := sci_interrupt_number e\<rparr>" if "sci_ok e" for e d
    using that by (simp add: setup_recv_meta_queue_def sci_ok_def Let_def)
  from daemon_setup_success [OF assms(1,3), of cfg] obtain da' where a: "daemon_setup cfg ea da = Inr (0, da')" by blast
  with daemon_setup_ok [OF assms(3), of cfg ea] have ua: "daemon_up ea da'"
    "ds_daemon da' = (ds_daemon da)\<lparr>recv_queue := recv_queue (ds_daemon da'), send_queue := send_queue (ds_daemon da')\<rparr>"
    by (auto simp: returns_ok_def)
  from daemon_setup_success [OF assms(2,4), of cfg] obtain db' where b: "daemon_setup cfg eb db = Inr (0, db')" by blast
  with daemon_setup_ok [OF assms(4), of cfg eb] have ub: "daemon_up eb db'"
    "ds_daemon db' = (ds_daemon db)\<lparr>recv_queue := recv_queue (ds_daemon db'), send_queue := send_queue (ds_daemon db')\<rparr>"
    by (auto simp: returns_ok_def)
  have locks: "\<not> send_queue_lock (ds_daemon da')" "\<not> recv_queue_lock (ds_daemon da')"
    "\<not> send_queue_lock (ds_daemon db')" "\<not> recv_queue_lock (ds_daemon db')"
    using assms(5-8) by (subst ua(2) ub(2); simp)+
  have empty: "ring_ok ((zeroed_ring q)\<lparr>int_no := n\<rparr>)" "pending ((zeroed_ring q)\<lparr>int_no := n\<rparr>) = []" for q n
    by (simp_all add: zeroed_ring_def ring_ok_def pending_def slots_between_def LTCP_MSG_QUEUE_SIZE)
  have "link_idle (a\<lparr>daemon := ds_daemon da'\<rparr>, b\<lparr>daemon := ds_daemon db'\<rparr>)"
    using ua(1) ub(1) locks empty by (simp add: link_idle_def coupled_def daemon_up_def assms(9,10) z [OF assms(1)] z [OF assms(2)])
  moreover have "rih da' = Some (sci_interrupt_number eb)" "rih db' = Some (sci_interrupt_number ea)"
    using ua(1) ub(1) by (simp_all add: daemon_up_def assms(9,10) z [OF assms(1)] z [OF assms(2)])
  ultimately show ?thesis using a b ua(1) ub(1) by (intro exI [of _ da'] exI [of _ db']) (simp add: daemon_up_def)
qed

subsection \<open>Witnesses\<close>

text \<open>An SCI library whose connections fail or succeed; a daemon before its start.\<close>

definition demo_sci :: "bool \<Rightarrow> u32 \<Rightarrow> u32 \<Rightarrow> sci_env" where
  "demo_sci ok own other = \<lparr>SCI_OK = 0, sci_initialize = True, sci_create_segment = (\<lambda>_. 0), sci_export_segment = (\<lambda>_. 0),
     segment_memory = demo_ring 9 4, sci_allocate_interrupt_flag = 0, sci_interrupt_number = own,
     sci_connect_segment = (\<lambda>_. if ok then (0, Some 0) else (0x904, None)), sci_map_segment = (\<lambda>_. 0),
     remote_ring = (zeroed_ring (demo_ring 9 4))\<lparr>int_no := other\<rparr>, sci_connect_interrupt_flag = (\<lambda>_. 0),
     sci_alloc_aperture = (\<lambda>_. 0), sci_local_kernel_virtual_address = (\<lambda>_. 0xFFFF888000000000),
     sci_kernel_virtual_address_of_mapping = (\<lambda>_. 0xFFFF888000000000), osif_iommu_map = (0, 0x10000),
     sci_unbind = (\<lambda>ds. ds\<lparr>local_segments := [], exported_segments := [], remote_segments := [], sci_bound := False\<rparr>)\<rparr>"

definition demo_daemon :: daemon_state where
  "demo_daemon = \<lparr>ds_daemon = demo_rdma 0 0 1, recv_queue_ptr = False, send_queue_ptr = False, local_segments = [],
     exported_segments = [], remote_segments = [], lih = False, rih = None, aperture_ranges = [],
     physical_recv_aperture = 0, physical_send_aperture = 0, send_aperture_handle = None, recv_aperture_freed = False,
     sci_bound = False\<rparr>"

lemma demo_daemon_fields:
  "client_semaphore (ds_daemon demo_daemon) = 1" "\<not> send_queue_lock (ds_daemon demo_daemon)"
  "\<not> recv_queue_lock (ds_daemon demo_daemon)"
  by (simp_all add: demo_daemon_def demo_rdma_def)

lemma demo_sci_ok: "sci_ok (demo_sci True own other)"
  by (simp add: sci_ok_def demo_sci_def)

lemma demo_connect_fails:
  "daemon_setup_wrapper default_config (demo_sci False 5 6) demo_daemon = Inr (0, ds) \<Longrightarrow> False"
  by (simp add: daemon_setup_wrapper_def daemon_setup_def setup_recv_meta_queue_def setup_recv_aperture_queue_def
      setup_send_meta_queue_def connect_remote_def demo_sci_def demo_daemon_def demo_rdma_def sem_down_def
      default_config_def Let_def)


theorem setup_links_machines_witness:
  "\<exists>da' db'. daemon_setup default_config (demo_sci True 5 6) demo_daemon = Inr (0, da') \<and>
    daemon_setup default_config (demo_sci True 6 5) demo_daemon = Inr (0, db') \<and>
    rih da' = Some 6 \<and> rih db' = Some 5 \<and>
    link_idle (demo_node 1 2\<lparr>daemon := ds_daemon da'\<rparr>, demo_node 2 1\<lparr>daemon := ds_daemon db'\<rparr>)"
proof -
  have r: "remote_ring (demo_sci True x y) = recv_queue (ds_daemon (snd (setup_recv_meta_queue (demo_sci True y x) demo_daemon)))"
    "sci_interrupt_number (demo_sci True x y) = x" for x y
    by (simp_all add: setup_recv_meta_queue_def demo_sci_def Let_def)
  from setup_links_machines [OF demo_sci_ok demo_sci_ok demo_daemon_fields(1,1,2,3,2,3) r(1) [of 5 6] r(1) [of 6 5],
      where cfg = default_config and a = "demo_node 1 2" and b = "demo_node 2 1"] show ?thesis
    unfolding r(2) by blast
qed

end
