(* ===== verification/Node_Invariant.thy ===== *)
theory Node_Invariant
  imports Ltcp_Recvmsg
begin

text \<open>
  The protocol as an abstract machine on connection lists, and its type invariant. \<open>rcv_spec\<close>
  says what a received message does to the lists of its port; \<open>local_tcp_rcv\<close> refines it.
  \<open>node_ok\<close> adds to \<open>node_rel\<close> that the lists and tables only name allocated sockets; every
  operation of the module keeps it.
\<close>

subsection \<open>The invariant\<close>

definition socks_live :: "ltcp \<Rightarrow> conn_state \<Rightarrow> bool" where
  "socks_live st A \<longleftrightarrow>
     (\<forall>i < MAX_NUMBER_OF_PORTS. \<forall>e \<in> set (cs_incoming A i) \<union> set (cs_conns A i).
        \<exists>s k. fst e = Some s \<and> socks st s = Some k) \<and>
     (\<forall>i s. cs_listening A i = Some s \<longrightarrow> socks st s \<noteq> None)"

definition node_ok :: "ltcp \<Rightarrow> conn_state \<Rightarrow> bool" where
  "node_ok st A \<longleftrightarrow> node_rel st A \<and> socks_live st A"

definition node_wf :: "ltcp \<Rightarrow> bool" where
  "node_wf st \<longleftrightarrow> (\<exists>A. node_ok st A)"

lemma node_wfI: "node_ok st A \<Longrightarrow> node_wf st"
  by (auto simp: node_wf_def)

text \<open>What the invariant does not mention may change; sockets may appear and change.\<close>

definition tables_same :: "ltcp \<Rightarrow> ltcp \<Rightarrow> bool" where
  "tables_same st st' \<longleftrightarrow> psks st' = psks st \<and> incoming_conns st' = incoming_conns st \<and> conns st' = conns st \<and>
     (\<forall>s. socks st s \<noteq> None \<longrightarrow> socks st' s \<noteq> None)"

lemma tables_same_rel: "tables_same st st' \<Longrightarrow> node_rel st' A = node_rel st A"
  by (simp add: tables_same_def node_rel_def)

lemma socks_live_mono:
  "socks_live st A \<Longrightarrow> \<forall>s. socks st s \<noteq> None \<longrightarrow> socks st' s \<noteq> None \<Longrightarrow> socks_live st' A"
  unfolding socks_live_def by (metis option.exhaust option.distinct(1))

lemma node_ok_same: "node_ok st A \<Longrightarrow> tables_same st st' \<Longrightarrow> node_ok st' A"
  unfolding node_ok_def using tables_same_rel socks_live_mono by (metis tables_same_def)

lemma node_wf_same: "node_wf st \<Longrightarrow> tables_same st st' \<Longrightarrow> node_wf st'"
  unfolding node_wf_def using node_ok_same by blast

lemma tables_same_refl [simp]: "tables_same st st"
  by (simp add: tables_same_def)

lemma tables_same_trans: "tables_same st st1 \<Longrightarrow> tables_same st1 st2 \<Longrightarrow> tables_same st st2"
  by (simp add: tables_same_def)

lemma sock_store_same: "sock_store st p f = Inr st' \<Longrightarrow> tables_same st st'"
  by (auto simp: sock_store_def sock_load_def tables_same_def rbind_eq_Inr split: option.splits)

lemma helper_same: "local_tcp_sendmsg_helper cfg env p msg len type st = Inr (r, st') \<Longrightarrow> tables_same st st'"
  by (auto simp: local_tcp_sendmsg_helper_def rbind_eq_Inr tables_same_def)

subsection \<open>Abstract steps keep live sockets\<close>

lemma live_add_incoming:
  "socks_live st A \<Longrightarrow> socks st s \<noteq> None \<Longrightarrow> socks_live st (add_incoming i (Some s, rport, rip) A)"
  by (auto simp: socks_live_def add_incoming_def)

lemma live_establish:
  "socks_live st A \<Longrightarrow> i < MAX_NUMBER_OF_PORTS \<Longrightarrow> cs_incoming A i = us @ e # vs \<Longrightarrow> socks_live st (establish i us e vs A)"
  by (auto simp: socks_live_def establish_def)

lemma live_disconnect:
  "socks_live st A \<Longrightarrow> i < MAX_NUMBER_OF_PORTS \<Longrightarrow> cs_conns A i = us @ e # vs \<Longrightarrow> socks_live st (disconnect i us vs A)"
  by (auto simp: socks_live_def disconnect_def)

subsection \<open>The specification of receiving\<close>

definition split_key :: "u16 \<Rightarrow> u32 \<Rightarrow> conn list \<Rightarrow> (conn list \<times> conn \<times> conn list) option" where
  "split_key rport rip xs =
     (case dropWhile (\<lambda>e. \<not> has_key rport rip e) xs of
        [] \<Rightarrow> None
      | e # vs \<Rightarrow> Some (takeWhile (\<lambda>e. \<not> has_key rport rip e) xs, e, vs))"

lemma split_key_None: "split_key rport rip xs = None \<longleftrightarrow> (\<forall>e \<in> set xs. \<not> has_key rport rip e)"
proof -
  have "split_key rport rip xs = None \<longleftrightarrow> dropWhile (\<lambda>e. \<not> has_key rport rip e) xs = []"
    unfolding split_key_def
    by (cases "dropWhile (\<lambda>e. \<not> has_key rport rip e) xs") (simp_all only: list.case option.distinct list.distinct simp_thms)
  then show ?thesis by simp
qed

lemma split_key_Some:
  "split_key rport rip xs = Some (us, e, vs) \<Longrightarrow>
     xs = us @ e # vs \<and> has_key rport rip e \<and> (\<forall>u \<in> set us. \<not> has_key rport rip u)"
proof -
  assume "split_key rport rip xs = Some (us, e, vs)"
  then have d: "dropWhile (\<lambda>e. \<not> has_key rport rip e) xs = e # vs"
    and t: "us = takeWhile (\<lambda>e. \<not> has_key rport rip e) xs"
    by (auto simp: split_key_def split: list.splits)
  have "xs = us @ e # vs" using takeWhile_dropWhile_id [of "\<lambda>e. \<not> has_key rport rip e" xs] d t by simp
  moreover have "has_key rport rip e" using hd_dropWhile [of "\<lambda>e. \<not> has_key rport rip e" xs] d by simp
  moreover have "\<forall>u \<in> set us. \<not> has_key rport rip u" using t set_takeWhileD by fast
  ultimately show ?thesis by (intro conjI)
qed

text \<open>
  What a message of a type does to port \<open>i\<close>: data is accepted exactly for an established key; a
  new connection is queued as \<open>c\<close> when somebody listens and the key is new; a close removes the
  first connection of the key, and faults without one; a success message moves the first
  incoming connection of the key; other types are refused.
\<close>

definition rcv_spec :: "u32 \<Rightarrow> nat \<Rightarrow> u16 \<Rightarrow> u32 \<Rightarrow> addr \<Rightarrow> conn_state \<Rightarrow> (int \<times> conn_state) res" where
  "rcv_spec type i rport rip c A =
     (if type = REGULAR then
        Inr (if split_key rport rip (cs_conns A i) = None then - 1 else 0, A)
      else if type = CONNECT then
        Inr (0, if cs_listening A i = None \<or> split_key rport rip (cs_conns A i) \<noteq> None then A
                else add_incoming i (Some c, rport, rip) A)
      else if type = CLOSE then
        (case split_key rport rip (cs_conns A i) of
           None \<Rightarrow> Inl NullDeref
         | Some (us, e, vs) \<Rightarrow> Inr (0, disconnect i us vs A))
      else if type = CONNECT_SUCCESS then
        (case split_key rport rip (cs_incoming A i) of
           None \<Rightarrow> Inr (0, A)
         | Some (us, e, vs) \<Rightarrow> Inr (0, establish i us e vs A))
      else Inr (- 1, A))"

text \<open>
  What can happen to a message: what the specification says or, for a new connection, that the
  socket cannot be cloned (the handler faults) or no node allocated (it returns -1).
\<close>

inductive rcv_outcome :: "u32 \<Rightarrow> nat \<Rightarrow> u16 \<Rightarrow> u32 \<Rightarrow> conn_state \<Rightarrow> (int \<times> conn_state) res \<Rightarrow> bool" where
  as_specified: "rcv_outcome type i rport rip A (rcv_spec type i rport rip c A)"
| no_clone: "cs_listening A i \<noteq> None \<Longrightarrow> split_key rport rip (cs_conns A i) = None \<Longrightarrow>
    rcv_outcome CONNECT i rport rip A (Inl NullDeref)"
| no_node: "cs_listening A i \<noteq> None \<Longrightarrow> split_key rport rip (cs_conns A i) = None \<Longrightarrow>
    rcv_outcome CONNECT i rport rip A (Inr (- 1, A))"

text \<open>A result of the module that shows an outcome of the specification.\<close>

definition simulates :: "(int \<times> conn_state) res \<Rightarrow> (int \<times> ltcp) res \<Rightarrow> bool" where
  "simulates out r \<longleftrightarrow>
     (case out of Inl e \<Rightarrow> r = Inl e | Inr (rc, A) \<Rightarrow> \<exists>st'. r = Inr (rc, st') \<and> node_ok st' A)"

lemma simulates_simps [simp]:
  "simulates (Inl e) r \<longleftrightarrow> r = Inl e"
  "simulates (Inr (rc, A)) r \<longleftrightarrow> (\<exists>st'. r = Inr (rc, st') \<and> node_ok st' A)"
  by (simp_all add: simulates_def)

lemma simulates_Inl: "simulates out (Inl e) \<Longrightarrow> out = Inl e"
  by (cases out) auto

lemma simulates_Inr: "simulates out (Inr (rc, st)) \<Longrightarrow> \<exists>A. out = Inr (rc, A) \<and> node_ok st A"
  by (cases out) auto

text \<open>The first entry of the key is not the last of several: \<open>remove_port_sk\<close> keeps the tail right.\<close>

definition unlink_safe :: "u16 \<Rightarrow> u32 \<Rightarrow> conn list \<Rightarrow> bool" where
  "unlink_safe rport rip xs \<longleftrightarrow>
     (case split_key rport rip xs of None \<Rightarrow> True | Some (us, e, vs) \<Rightarrow> us = [] \<or> vs \<noteq> [])"

text \<open>Here a socket can be cloned and a node allocated, at a free address.\<close>

definition env_allocates :: "kenv \<Rightarrow> ltcp \<Rightarrow> bool" where
  "env_allocates env st \<longleftrightarrow> (\<forall>k. sk_clone_lock env st k \<noteq> None) \<and>
     (\<exists>p n. kmalloc_port_sk env (psks st) = Some (p, n) \<and> psks st p = None)"

subsection \<open>Refinement, one lemma per type of message\<close>

lemma regular_refines:
  assumes ok: "node_ok st A" and i: "i = port_index lport" "i < MAX_NUMBER_OF_PORTS"
  shows "\<exists>st'. rcv_regular lport rport rip skb st =
    Inr (if split_key rport rip (cs_conns A i) = None then - 1 else 0, st') \<and> node_ok st' A"
proof (cases "split_key rport rip (cs_conns A i)")
  case None
  with rcv_regular_unknown [OF _ i] ok show ?thesis by (auto simp: split_key_None node_ok_def)
next
  case (Some p)
  obtain us e vs where p: "p = (us, e, vs)" by (cases p)
  note sp = split_key_Some [OF Some [unfolded p]]
  from ok sp i(2) obtain s k where s: "e = (Some s, rport, rip)" "socks st s = Some k"
    by (cases e) (fastforce simp: node_ok_def socks_live_def has_key_def)
  have rel: "node_rel st A" using ok by (simp add: node_ok_def)
  have e: "cs_conns A i = us @ (Some s, rport, rip) # vs" using sp s(1) by simp
  let ?k = "k\<lparr>sk_receive_queue := sk_receive_queue k @ [skb\<lparr>skb_sk := Some s\<rparr>], sk_data_ready := sk_data_ready k + 1\<rparr>"
  have "rcv_regular lport rport rip skb st = Inr (0, st\<lparr>socks := (socks st)(s \<mapsto> ?k)\<rparr>)"
    using rcv_regular_found [OF rel i e _ s(2)] sp by blast
  moreover have "node_ok (st\<lparr>socks := (socks st)(s \<mapsto> ?k)\<rparr>) A"
    using node_ok_same [OF ok] by (simp add: tables_same_def)
  ultimately show ?thesis using Some by auto
qed

lemma connect_refines:
  assumes ok: "node_ok st A" and i: "i = port_index lport" "i < MAX_NUMBER_OF_PORTS" and env: "env_allocates env st"
  shows "\<exists>st' c. rcv_connect env lport rport rip lip st = Inr (0, st') \<and>
    node_ok st' (if cs_listening A i = None \<or> split_key rport rip (cs_conns A i) \<noteq> None then A
                 else add_incoming i (Some c, rport, rip) A)"
proof -
  have rel: "node_rel st A" using ok by (simp add: node_ok_def)
  show ?thesis
  proof (cases "cs_listening A i")
    case None
    with rcv_connect_no_listener [OF rel i None] ok show ?thesis by auto
  next
    case (Some ls)
    show ?thesis
    proof (cases "split_key rport rip (cs_conns A i)")
      case None
      from ok Some obtain parent where parent: "socks st ls = Some parent"
        unfolding node_ok_def socks_live_def by blast
      from env obtain c k p n where e: "sk_clone_lock env st parent = Some (c, k)"
        "kmalloc_port_sk env (psks st) = Some (p, n)" "psks st p = None"
        unfolding env_allocates_def by (metis option.exhaust prod.exhaust)
      from rcv_connect_new [OF rel i Some parent _ e] None obtain st' where
        st': "rcv_connect env lport rport rip lip st = Inr (0, st')"
        "node_rel st' (add_incoming i (Some c, rport, rip) A)" "socks st' = (socks st)(c \<mapsto> setup_clone lport rport rip lip k)"
        unfolding split_key_None by blast
      have "socks_live st' A" using ok socks_live_mono [of st A st'] by (simp add: node_ok_def st'(3))
      then have "socks_live st' (add_incoming i (Some c, rport, rip) A)"
        by (rule live_add_incoming) (simp add: st'(3))
      with st' None Some show ?thesis by (intro exI [of _ st'] exI [of _ c]) (simp add: node_ok_def)
    next
      case (Some p)
      then obtain e where "e \<in> set (cs_conns A i)" "has_key rport rip e"
        using split_key_None [of rport rip "cs_conns A i"] by auto
      from rcv_connect_exists [OF rel i this] Some ok show ?thesis by auto
    qed
  qed
qed

lemma close_refines:
  assumes ok: "node_ok st A" and i: "i = port_index lport" "i < MAX_NUMBER_OF_PORTS"
    and safe: "unlink_safe rport rip (cs_conns A i)"
  shows "case split_key rport rip (cs_conns A i) of
      None \<Rightarrow> rcv_close lport rport rip st = Inl NullDeref
    | Some (us, e, vs) \<Rightarrow> \<exists>st'. rcv_close lport rport rip st = Inr (0, st') \<and> node_ok st' (disconnect i us vs A)"
proof (cases "split_key rport rip (cs_conns A i)")
  case None
  then have "\<forall>e \<in> set (cs_conns A i). \<not> has_key rport rip e" by (simp only: split_key_None)
  with rcv_close_unknown [OF _ i this] ok None show ?thesis by (simp add: node_ok_def)
next
  case (Some p)
  obtain us e vs where p: "p = (us, e, vs)" by (cases p)
  note sp = split_key_Some [OF Some [unfolded p]]
  from ok sp i(2) obtain s k where s: "e = (Some s, rport, rip)" "socks st s = Some k"
    by (cases e) (fastforce simp: node_ok_def socks_live_def has_key_def)
  have rel: "node_rel st A" using ok by (simp add: node_ok_def)
  have e: "cs_conns A i = us @ (Some s, rport, rip) # vs" using sp s(1) by simp
  have sf: "us = [] \<or> vs \<noteq> []" using safe Some p by (simp add: unlink_safe_def)
  from rcv_close_found [OF rel i e _ sf s(2)] sp obtain st' where
    st': "rcv_close lport rport rip st = Inr (0, st')" "node_rel st' (disconnect i us vs A)"
    "socks st' = (socks st)(s \<mapsto> k\<lparr>sk_state := TCP_CLOSE\<rparr>)" by blast
  have "socks_live st' A" using ok socks_live_mono [of st A st'] by (simp add: node_ok_def st'(3))
  from live_disconnect [OF this i(2) e] st' Some p show ?thesis by (auto simp: node_ok_def)
qed

lemma success_refines:
  assumes ok: "node_ok st A" and i: "i = port_index lport" "i < MAX_NUMBER_OF_PORTS"
    and safe: "unlink_safe rport rip (cs_incoming A i)"
  shows "\<exists>st'. rcv_connect_success lport rport rip st = Inr (0, st') \<and>
    node_ok st' (case split_key rport rip (cs_incoming A i) of None \<Rightarrow> A | Some (us, e, vs) \<Rightarrow> establish i us e vs A)"
proof (cases "split_key rport rip (cs_incoming A i)")
  case None
  then have "\<forall>e \<in> set (cs_incoming A i). \<not> has_key rport rip e" by (simp only: split_key_None)
  with rcv_connect_success_unknown [OF _ i this] ok None show ?thesis by (simp add: node_ok_def)
next
  case (Some p)
  obtain us e vs where p: "p = (us, e, vs)" by (cases p)
  note sp = split_key_Some [OF Some [unfolded p]]
  obtain s where s: "e = (s, rport, rip)" using sp by (cases e) (simp add: has_key_def)
  have rel: "node_rel st A" using ok by (simp add: node_ok_def)
  have e: "cs_incoming A i = us @ (s, rport, rip) # vs" using sp s by simp
  have sf: "us = [] \<or> vs \<noteq> []" using safe Some p by (simp add: unlink_safe_def)
  from rcv_connect_success_found [OF rel i e _ sf] sp obtain st' where
    st': "rcv_connect_success lport rport rip st = Inr (0, st')"
    "node_rel st' (establish i us (s, rport, rip) vs A)" "socks st' = socks st" by blast
  have "socks_live st' A" using ok by (simp add: node_ok_def socks_live_def st'(3))
  from live_establish [OF this i(2) e] st' Some p s show ?thesis by (auto simp: node_ok_def)
qed

text \<open>
  C2. \<open>local_tcp_rcv\<close> refines \<open>rcv_spec\<close>: on a well-formed node, for a valid port, any message
  and any types, with memory available, whenever the removal the message asks for is not that
  of the last of several list entries, the handler faults exactly when the specification does,
  and otherwise returns its result in a well-formed node that represents its new lists.
\<close>

theorem rcv_refines_spec:
  assumes "node_ok st A" and "skb_carries st skb type lport rport"
    and "port_index lport = i" and "i < MAX_NUMBER_OF_PORTS" and "env_allocates env st"
    and "type = CLOSE \<Longrightarrow> unlink_safe rport (iph_saddr skb) (cs_conns A i)"
    and "type = CONNECT_SUCCESS \<Longrightarrow> unlink_safe rport (iph_saddr skb) (cs_incoming A i)"
  shows "\<exists>c. simulates (rcv_spec type i rport (iph_saddr skb) c A) (local_tcp_rcv env skb st)"
proof -
  note i = assms(3) [symmetric] assms(4)
  have t: "CONNECT \<noteq> REGULAR" "CLOSE \<noteq> REGULAR" "CLOSE \<noteq> CONNECT" "CONNECT_SUCCESS \<noteq> REGULAR"
    "CONNECT_SUCCESS \<noteq> CONNECT" "CONNECT_SUCCESS \<noteq> CLOSE"
    by (simp_all add: local_tcp_type_defs)
  consider "type = REGULAR" | "type = CONNECT" | "type = CLOSE" | "type = CONNECT_SUCCESS"
    | "type \<noteq> REGULAR" "type \<noteq> CONNECT" "type \<noteq> CLOSE" "type \<noteq> CONNECT_SUCCESS" by blast
  then show ?thesis
  proof cases
    case 1
    with regular_refines [OF assms(1) i, of rport "iph_saddr skb" skb] rcv_dispatch(1) [of st skb lport rport env] assms(2)
    show ?thesis by (simp add: rcv_spec_def)
  next
    case 2
    with connect_refines [OF assms(1) i assms(5), of rport "iph_saddr skb" "iph_daddr skb"]
      rcv_dispatch(2) [of st skb lport rport env] assms(2) t
    show ?thesis by (auto simp: rcv_spec_def)
  next
    case 3
    with close_refines [OF assms(1) i assms(6)] rcv_dispatch(3) [of st skb lport rport env] assms(2) t
    show ?thesis by (auto simp: rcv_spec_def split: option.splits)
  next
    case 4
    with success_refines [OF assms(1) i assms(7)] rcv_dispatch(4) [of st skb lport rport env] assms(2) t
    show ?thesis by (auto simp: rcv_spec_def split: option.splits)
  next
    case 5
    with rcv_cases [OF assms(2), of env] assms(1) show ?thesis by (auto simp: rcv_spec_def)
  qed
qed

lemma demo_pending_ok:
  "node_ok (demo_inbox type demo_pending) (no_conns\<lparr>cs_incoming := at_8083 [(Some 600, 0x931F, 2)]\<rparr>)"
proof -
  have "\<exists>s k. fst e = Some s \<and> socks demo_pending s = Some k"
    if "e \<in> set (at_8083 [(Some 600, 0x931F, 2)] i)" for e i
    using that demo_socks(1) by (auto simp: at_8083_def split: if_splits)
  moreover have "socks demo_pending s \<noteq> None" if "cs_listening no_conns i = Some s" for i s
    using that by (auto simp: no_conns_def demo_pending_def demo_node_def Let_def split: if_splits)
  ultimately show ?thesis
    using demo_pending_rel by (simp add: node_ok_def demo_inbox(2,3) socks_live_def no_conns_def)
qed

lemma demo_pending_allocates: "env_allocates demo_kenv (demo_inbox type demo_pending)"
proof -
  have mem: "socks demo_pending 1000 = None" "psks demo_pending 2000 = Some demo_conn" "psks demo_pending 2001 = None"
    by (simp_all add: demo_pending_def Let_def demo_node_def)
  have "sk_clone_lock demo_kenv (demo_inbox type demo_pending) k = Some (1000, k\<lparr>sk_receive_queue := []\<rparr>)" for k
    using mem by (simp add: demo_kenv_def demo_inbox(3) upt_conv_Cons)
  moreover have "kmalloc_port_sk demo_kenv (psks demo_pending) = Some (2001, demo_garbage)"
    using mem by (simp add: demo_kenv_def upt_conv_Cons)
  ultimately show ?thesis using mem(3) by (simp add: env_allocates_def demo_inbox(4))
qed

theorem rcv_refines_spec_witness:
  "\<exists>st'. local_tcp_rcv demo_kenv demo_skb (demo_inbox CONNECT_SUCCESS demo_pending) = Inr (0, st') \<and>
     node_ok st' (no_conns\<lparr>cs_conns := at_8083 [(Some 600, 0x931F, 2)]\<rparr>)"
proof -
  let ?A = "no_conns\<lparr>cs_incoming := at_8083 [(Some 600, 0x931F, 2)]\<rparr>"
  let ?st = "demo_inbox CONNECT_SUCCESS demo_pending"
  have split: "split_key 0x931F 2 (cs_incoming ?A 8083) = Some ([], (Some 600, 0x931F, 2), [])"
    by (simp add: split_key_def at_8083_def has_key_def)
  have spec: "rcv_spec CONNECT_SUCCESS 8083 0x931F 2 c ?A =
      Inr (0, no_conns\<lparr>cs_conns := at_8083 [(Some 600, 0x931F, 2)]\<rparr>)" for c
    using split by (simp add: rcv_spec_def local_tcp_type_defs establish_def no_conns_def at_8083_def) (simp add: fun_eq_iff)
  have "\<exists>c. simulates (rcv_spec CONNECT_SUCCESS 8083 0x931F (iph_saddr demo_skb) c ?A)
      (local_tcp_rcv demo_kenv demo_skb ?st)"
  proof (rule rcv_refines_spec [OF demo_pending_ok demo_inbox(1) demo_port(1) demo_port(2) demo_pending_allocates])
    show "unlink_safe 0x931F (iph_saddr demo_skb) (cs_conns ?A 8083)"
      by (simp add: unlink_safe_def split_key_def no_conns_def)
    show "unlink_safe 0x931F (iph_saddr demo_skb) (cs_incoming ?A 8083)"
      using split by (simp add: unlink_safe_def demo_socks(4))
  qed
  then show ?thesis unfolding demo_socks(4) spec by simp
qed

end
