(* ===== verification/Node_Steps.thy ===== *)
theory Node_Steps
  imports Node_Invariant
begin

text \<open>
  Every operation of the module keeps a node well-formed, on all its branches, and so is every
  node that the operations reach from empty tables.
\<close>

definition keeps_wf :: "('a \<times> ltcp) res \<Rightarrow> bool" where
  "keeps_wf m \<longleftrightarrow> (\<forall>r st'. m = Inr (r, st') \<longrightarrow> node_wf st')"

lemma keeps_wf_Inl [simp]: "keeps_wf (Inl e)"
  by (simp add: keeps_wf_def)

lemma keeps_wf_Inr [simp]: "keeps_wf (Inr (r, st)) = node_wf st"
  by (simp add: keeps_wf_def)

lemma keeps_wfD: "keeps_wf m \<Longrightarrow> m = Inr (r, st') \<Longrightarrow> node_wf st'"
  by (simp add: keeps_wf_def)

text \<open>
  What the steps need of the kernel: \<open>kmalloc\<close> returns free addresses, and its own TCP functions
  do not touch the module's tables or free sockets.
\<close>

definition kernel_ok :: "kenv \<Rightarrow> bool" where
  "kernel_ok env \<longleftrightarrow> (\<forall>h p n. kmalloc_port_sk env h = Some (p, n) \<longrightarrow> h p = None) \<and>
     (\<forall>s st. tables_same st (tcp_close env s st)) \<and>
     (\<forall>s a st r st'. tcp_v4_connect env s a st = (r, st') \<longrightarrow> tables_same st st') \<and>
     (\<forall>s st r e st'. inet_csk_accept env s st = (r, e, st') \<longrightarrow> tables_same st st')"

text \<open>A removal of this key from the lists \<open>sel\<close> is not that of the last of several entries.\<close>

definition removal_safe ::
    "(conn_state \<Rightarrow> nat \<Rightarrow> conn list) \<Rightarrow> u16 \<Rightarrow> u16 \<Rightarrow> u32 \<Rightarrow> ltcp \<Rightarrow> bool" where
  "removal_safe sel lport rport rip st \<longleftrightarrow>
     (\<forall>A. node_ok st A \<longrightarrow> unlink_safe rport rip (sel A (port_index lport)))"

subsection \<open>Receiving\<close>

lemma bad_port:
  assumes "\<not> port_index lport < MAX_NUMBER_OF_PORTS"
  shows "remove_port_sk h arr lport rport rip = Inl OutOfBounds" "put_port_sk h arr lport = Inl OutOfBounds"
    "add_port_sk h arr lport (Some a) = Inl OutOfBounds" "get_port_sk h arr lport rport rip = Inl OutOfBounds"
    "portsk_queue_empty arr lport = Inl OutOfBounds" "get_listening_sk_port_sk_arr arr lport = Inl OutOfBounds"
  using assms
  by (simp_all add: remove_port_sk_def put_port_sk_def add_port_sk_def get_port_sk_def get_slot_def
      portsk_queue_empty_def get_listening_sk_port_sk_arr_def Let_def)

lemma rcv_regular_wf: "node_wf st \<Longrightarrow> keeps_wf (rcv_regular lport rport rip skb st)"
proof (cases "port_index lport < MAX_NUMBER_OF_PORTS")
  case True
  assume "node_wf st"
  then obtain A where "node_ok st A" by (auto simp: node_wf_def)
  from regular_refines [OF this refl True, of rport rip skb] show ?thesis by (auto simp: node_wfI)
next
  case False
  then show ?thesis by (simp add: rcv_regular_def bad_port)
qed

lemma simulates_wf: "simulates out r \<Longrightarrow> keeps_wf r"
  by (cases out) (auto simp: node_wfI)

lemma connect_simulates:
  assumes ok: "node_ok st A" and i: "i = port_index lport" "i < MAX_NUMBER_OF_PORTS" and env: "kernel_ok env"
  shows "\<exists>out. rcv_outcome CONNECT i rport rip A out \<and> simulates out (rcv_connect env lport rport rip lip st)"
proof -
  have rel: "node_rel st A" using ok by (simp add: node_ok_def)
  have spec: "rcv_spec CONNECT i rport rip c A = Inr (0, if cs_listening A i = None \<or> split_key rport rip (cs_conns A i) \<noteq> None
      then A else add_incoming i (Some c, rport, rip) A)" for c
    by (simp add: rcv_spec_def local_tcp_type_defs)
  show ?thesis
  proof (cases "cs_listening A i = None \<or> split_key rport rip (cs_conns A i) \<noteq> None")
    case True
    then have "cs_listening A i = None \<or> (\<exists>e \<in> set (cs_conns A i). has_key rport rip e)"
      unfolding split_key_None by blast
    then have "rcv_connect env lport rport rip lip st = Inr (0, st)"
      using rcv_connect_no_listener [OF rel i] rcv_connect_exists [OF rel i] by blast
    then have "simulates (rcv_spec CONNECT i rport rip c A) (rcv_connect env lport rport rip lip st)" for c
      using True ok by (simp add: spec)
    with as_specified show ?thesis by blast
  next
    case False
    then have free: "split_key rport rip (cs_conns A i) = None" by blast
    from False obtain ls where ls: "cs_listening A i = Some ls" by (cases "cs_listening A i") blast+
    from ok ls obtain parent where parent: "socks st ls = Some parent"
      unfolding node_ok_def socks_live_def by blast
    have new: "\<forall>e \<in> set (cs_conns A i). \<not> has_key rport rip e" using free by (simp only: split_key_None)
    have lk: "get_listening_sk_port_sk_arr (incoming_conns st) lport = Inr (Some ls)"
      using rel i ls by (simp add: get_listening_sk_port_sk_arr_def get_slot_def node_rel_def)
    have gp: "get_port_sk (psks st) (conns st) lport rport rip = Inr (None, conns st)"
      using node_get [OF rel i, of rport rip] not_found_find [OF new] by auto
    have listens: "cs_listening A i \<noteq> None" using ls by simp
    show ?thesis
    proof (cases "sk_clone_lock env st parent")
      case None
      with lk gp parent have "simulates (Inl NullDeref) (rcv_connect env lport rport rip lip st)"
        by (simp add: rcv_connect_def)
      with no_clone [OF listens free] show ?thesis by blast
    next
      case (Some ck)
      obtain c k where c: "sk_clone_lock env st parent = Some (c, k)" using Some by (cases ck) simp
      let ?st1 = "st\<lparr>socks := (socks st)(c \<mapsto> setup_clone lport rport rip lip k)\<rparr>"
      show ?thesis
      proof (cases "kmalloc_port_sk env (psks st)")
        case None
        have "node_ok ?st1 A" by (rule node_ok_same [OF ok]) (simp add: tables_same_def)
        with None lk gp parent c have "simulates (Inr (- 1, A)) (rcv_connect env lport rport rip lip st)"
          by (simp add: rcv_connect_def)
        with no_node [OF listens free] show ?thesis by blast
      next
        case (Some pn)
        obtain p n where p: "kmalloc_port_sk env (psks st) = Some (p, n)" using Some by (cases pn) simp
        then have fresh: "psks st p = None" using env by (simp add: kernel_ok_def)
        from rcv_connect_new [OF rel i ls parent new c p fresh] obtain st' where
          st': "rcv_connect env lport rport rip lip st = Inr (0, st')"
          "node_rel st' (add_incoming i (Some c, rport, rip) A)"
          "socks st' = (socks st)(c \<mapsto> setup_clone lport rport rip lip k)" by blast
        have "socks_live st' A" using ok socks_live_mono [of st A st'] by (simp add: node_ok_def st'(3))
        then have "socks_live st' (add_incoming i (Some c, rport, rip) A)"
          by (rule live_add_incoming) (simp add: st'(3))
        with st'(1,2) ls free have "simulates (rcv_spec CONNECT i rport rip c A) (rcv_connect env lport rport rip lip st)"
          by (simp add: spec node_ok_def)
        with as_specified show ?thesis by blast
      qed
    qed
  qed
qed

lemma rcv_connect_wf:
  assumes "node_wf st" and "kernel_ok env"
  shows "keeps_wf (rcv_connect env lport rport rip lip st)"
proof (cases "port_index lport < MAX_NUMBER_OF_PORTS")
  case False
  then show ?thesis by (simp add: rcv_connect_def bad_port)
next
  case True
  from assms(1) obtain A where "node_ok st A" by (auto simp: node_wf_def)
  from connect_simulates [OF this refl True assms(2)] simulates_wf show ?thesis by blast
qed

lemma rcv_close_wf:
  assumes "node_wf st" and "removal_safe cs_conns lport rport rip st"
  shows "keeps_wf (rcv_close lport rport rip st)"
proof (cases "port_index lport < MAX_NUMBER_OF_PORTS")
  case False
  then show ?thesis by (simp add: rcv_close_def bad_port)
next
  case True
  from assms(1) obtain A where ok: "node_ok st A" by (auto simp: node_wf_def)
  with assms(2) have "unlink_safe rport rip (cs_conns A (port_index lport))" by (simp add: removal_safe_def)
  from close_refines [OF ok refl True this] show ?thesis
    by (cases "split_key rport rip (cs_conns A (port_index lport))") (auto simp: node_wfI)
qed

lemma rcv_success_wf:
  assumes "node_wf st" and "removal_safe cs_incoming lport rport rip st"
  shows "keeps_wf (rcv_connect_success lport rport rip st)"
proof (cases "port_index lport < MAX_NUMBER_OF_PORTS")
  case False
  then show ?thesis by (simp add: rcv_connect_success_def bad_port)
next
  case True
  from assms(1) obtain A where ok: "node_ok st A" by (auto simp: node_wf_def)
  with assms(2) have "unlink_safe rport rip (cs_incoming A (port_index lport))" by (simp add: removal_safe_def)
  from success_refines [OF ok refl True this] show ?thesis by (auto simp: node_wfI)
qed

text \<open>The removal a message asks for is safe.\<close>

definition skb_safe :: "ltcp \<Rightarrow> sk_buff \<Rightarrow> bool" where
  "skb_safe st skb \<longleftrightarrow> (\<forall>lport rport.
     (skb_carries st skb CLOSE lport rport \<longrightarrow> removal_safe cs_conns lport rport (iph_saddr skb) st) \<and>
     (skb_carries st skb CONNECT_SUCCESS lport rport \<longrightarrow> removal_safe cs_incoming lport rport (iph_saddr skb) st))"

lemma local_tcp_rcv_wf:
  assumes "node_wf st" and "kernel_ok env" and "skb_safe st skb"
  shows "keeps_wf (local_tcp_rcv env skb st)"
proof -
  obtain type lport rport where c: "skb_carries st skb type lport rport"
    by (auto simp: skb_carries_def Let_def)
  have "type = CLOSE \<Longrightarrow> removal_safe cs_conns lport rport (iph_saddr skb) st"
    "type = CONNECT_SUCCESS \<Longrightarrow> removal_safe cs_incoming lport rport (iph_saddr skb) st"
    using c assms(3) by (auto simp: skb_safe_def)
  then show ?thesis
    unfolding rcv_cases [OF c]
    using rcv_regular_wf [OF assms(1)] rcv_connect_wf [OF assms(1,2)] rcv_close_wf [OF assms(1)]
      rcv_success_wf [OF assms(1)] assms(1) by simp
qed

subsection \<open>Sending, reading, closing\<close>

lemma sendmsg_wf: "node_wf st \<Longrightarrow> keeps_wf (local_tcp_sendmsg cfg env sk msg len st)"
  unfolding keeps_wf_def local_tcp_sendmsg_def using helper_same node_wf_same by blast

text \<open>Other contexts that run during a sleep keep nodes well-formed.\<close>

definition naps_ok :: "nap list \<Rightarrow> bool" where
  "naps_ok naps \<longleftrightarrow> (\<forall>nap \<in> set naps. \<forall>s. node_wf s \<longrightarrow> node_wf (nap_others nap s))"

lemma recv_one_same: "recv_one cfg env renv sk skb start len st = Inr (r, out, st') \<Longrightarrow> tables_same st st'"
proof -
  assume a: "recv_one cfg env renv sk skb start len st = Inr (r, out, st')"
  have d: "tables_same st (st\<lparr>daemon := d\<rparr>)" for d by (simp add: tables_same_def)
  from a obtain d st1 where "sock_store (st\<lparr>daemon := d\<rparr>) (Some sk) (\<lambda>k. k\<lparr>sk_receive_queue := tl (sk_receive_queue k)\<rparr>) = Inr st1"
    "st' = st1"
    by (auto simp: recv_one_def Let_def rbind_eq_Inr split: if_splits)
  with sock_store_same tables_same_trans [OF d] show ?thesis by blast
qed

lemma recv_loop_msg_wf:
  "node_wf st \<Longrightarrow> naps_ok naps \<Longrightarrow> recv_loop_msg cfg env renv sk start len naps st = Inr (r, out, st') \<Longrightarrow> node_wf st'"
proof (induction naps arbitrary: st)
  case Nil
  then obtain k where k: "sock_load st (Some sk) = Inr k"
    by (cases "sock_load st (Some sk)") (simp_all del: sock_load_Some)
  with Nil.prems(3) obtain skb where "recv_one cfg env renv sk skb start len st = Inr (r, out, st')"
    by (cases "sk_receive_queue k") (simp_all del: sock_load_Some)
  with recv_one_same node_wf_same [OF Nil.prems(1)] show ?case by blast
next
  case (Cons nap naps)
  have wf: "node_wf (nap_others nap st)" "naps_ok naps" using Cons.prems(1,2) by (simp_all add: naps_ok_def)
  from Cons.prems(3) obtain k where k: "sock_load st (Some sk) = Inr k"
    by (cases "sock_load st (Some sk)") (simp_all del: sock_load_Some)
  show ?case
  proof (cases "sk_receive_queue k")
    case Nil
    with k wf Cons.IH [OF wf] Cons.prems(3) show ?thesis
      by (cases "nap_timeo nap = 0") (simp_all add: Let_def del: sock_load_Some)
  next
    case (Cons skb rest)
    with k Cons.prems(3) have "recv_one cfg env renv sk skb start len st = Inr (r, out, st')"
      by (simp del: sock_load_Some)
    with recv_one_same node_wf_same [OF Cons.prems(1)] show ?thesis by blast
  qed
qed

lemma recvmsg_wf:
  "node_wf st \<Longrightarrow> naps_ok naps \<Longrightarrow> local_tcp_recvmsg cfg env renv sk start len naps st = Inr (r, out, st') \<Longrightarrow> node_wf st'"
  unfolding local_tcp_recvmsg_def by (rule recv_loop_msg_wf)

text \<open>A close removes the connection of the socket's own key.\<close>

definition close_safe :: "ltcp \<Rightarrow> addr \<Rightarrow> bool" where
  "close_safe st sk \<longleftrightarrow> (\<forall>k. socks st sk = Some k \<longrightarrow>
     removal_safe cs_conns (inet_sport (sk_inet k)) (inet_dport (sk_inet k)) (inet_daddr (sk_inet k)) st)"

text \<open>\<open>remove_port_sk\<close> on the established connections of a well-formed node.\<close>

lemma remove_conn_wf:
  assumes ok: "node_ok st A" and i: "port_index lport < MAX_NUMBER_OF_PORTS"
    and safe: "unlink_safe rport rip (cs_conns A (port_index lport))"
  shows "\<exists>r h con. remove_port_sk (psks st) (conns st) lport rport rip = Inr (r, h, con) \<and>
    node_wf (st\<lparr>psks := h, conns := con\<rparr>)"
proof -
  from ok have rel: "node_rel st A"
    and cl: "conn_lists (psks st) (incoming_conns st) (conns st) {} (cs_incoming A) (cs_conns A)"
    by (simp_all add: node_ok_def node_rel_def)
  show ?thesis
  proof (cases "split_key rport rip (cs_conns A (port_index lport))")
    case None
    then have "find (\<lambda>e. snd e = (rport, rip)) (cs_conns A (port_index lport)) = None"
      by (intro not_found_find) (simp only: split_key_None)
    from conn_absent [OF conn_lists_swap [OF cl] refl i this] node_wfI [OF ok] show ?thesis by simp
  next
    case (Some p)
    obtain us e vs where p: "p = (us, e, vs)" by (cases p)
    note sp = split_key_Some [OF Some [unfolded p]]
    have e: "cs_conns A (port_index lport) = us @ e # vs" and key: "snd e = (rport, rip)"
      using sp by (simp_all add: has_key_def)
    have first: "\<And>u. u \<in> set us \<Longrightarrow> snd u \<noteq> (rport, rip)" using sp find_first by blast
    have sf: "us = [] \<or> vs \<noteq> []" using safe Some p by (simp add: unlink_safe_def)
    from conn_remove [OF conn_lists_swap [OF cl] refl i e sf key first] obtain a h con where
      rm: "remove_port_sk (psks st) (conns st) lport rport rip = Inr (Some a, h, con)"
      "conn_lists h con (incoming_conns st) {a} ((cs_conns A)(port_index lport := us @ vs)) (cs_incoming A)"
      by blast
    let ?st1 = "st\<lparr>psks := h, conns := con\<rparr>"
    have "node_rel ?st1 (disconnect (port_index lport) us vs A)"
      using conn_lists_weaken [OF conn_lists_swap [OF rm(2)], of "{}"] rel by (simp add: node_rel_def disconnect_def)
    moreover have "socks_live ?st1 A" using ok by (simp add: node_ok_def socks_live_def)
    from live_disconnect [OF this i e] have "socks_live ?st1 (disconnect (port_index lport) us vs A)" .
    ultimately have "node_ok ?st1 (disconnect (port_index lport) us vs A)" by (simp add: node_ok_def)
    with rm(1) node_wfI show ?thesis by blast
  qed
qed

lemma close_wf:
  assumes wf: "node_wf st" and env: "kernel_ok env" and cs: "close_safe st sk"
    and close: "ltcp_tcp_close cfg env sk st = Inr st'"
  shows "node_wf st'"
proof -
  from close obtain k where k: "socks st sk = Some k"
    by (auto simp: ltcp_tcp_close_def rbind_eq_Inr split: option.splits)
  let ?l = "inet_sport (sk_inet k)" and ?r = "inet_dport (sk_inet k)" and ?a = "inet_daddr (sk_inet k)"
  from wf obtain A where ok: "node_ok st A" by (auto simp: node_wf_def)
  have safe: "unlink_safe ?r ?a (cs_conns A (port_index ?l))"
    using cs k ok by (simp add: close_safe_def removal_safe_def)
  consider "?a \<noteq> ucast (dest_IP st)" | "?a = ucast (dest_IP st)" "sk_state k = TCP_CLOSE"
    | "?a = ucast (dest_IP st)" "sk_state k \<noteq> TCP_CLOSE" by blast
  then show ?thesis
  proof cases
    case 1
    with close k have "st' = tcp_close env sk st" by (simp add: ltcp_tcp_close_def)
    with wf env show ?thesis by (auto simp: kernel_ok_def intro: node_wf_same)
  next
    case 2
    with close k wf show ?thesis by (simp add: ltcp_tcp_close_def)
  next
    case 3
    then obtain psk h con where rm: "remove_port_sk (psks st) (conns st) ?l ?r ?a = Inr (psk, h, con)"
      and rest: "(if psk \<noteq> None then
              rbind (psk_load h psk) (\<lambda>n.
              if psk_sk n \<noteq> None then
                rbind (local_tcp_sendmsg_helper cfg env (psk_sk n) None 0 CLOSE (st\<lparr>psks := h, conns := con\<rparr>)) (\<lambda>(err, st2). Inr st2)
              else Inr (st\<lparr>psks := h, conns := con\<rparr>))
            else Inr (st\<lparr>psks := h, conns := con\<rparr>)) = Inr st'"
      using close k by (auto simp: ltcp_tcp_close_def rbind_eq_Inr Let_def)
    have i: "port_index ?l < MAX_NUMBER_OF_PORTS" using rm bad_port(1) by (cases "port_index ?l < MAX_NUMBER_OF_PORTS") auto
    from remove_conn_wf [OF ok i safe] rm have wf1: "node_wf (st\<lparr>psks := h, conns := con\<rparr>)" by auto
    from rest have "st' = st\<lparr>psks := h, conns := con\<rparr> \<or>
        (\<exists>q r. local_tcp_sendmsg_helper cfg env q None 0 CLOSE (st\<lparr>psks := h, conns := con\<rparr>) = Inr (r, st'))"
      by (cases "psk = None") (auto simp: rbind_eq_Inr split: if_splits)
    with wf1 helper_same node_wf_same show ?thesis by blast
  qed
qed

subsection \<open>Connect\<close>

text \<open>A freshly allocated node for a live socket appended to the incoming connections.\<close>

lemma add_new_incoming_wf:
  assumes ok: "node_ok st A" and fresh: "psks st p = None" and s: "socks st s \<noteq> None" "psk_sk n = Some s"
    and add: "add_port_sk ((psks st)(p \<mapsto> n)) (incoming_conns st) lport (Some p) = Inr (h, arr)"
  shows "node_wf (st\<lparr>psks := h, incoming_conns := arr\<rparr>)"
proof -
  have i: "port_index lport < MAX_NUMBER_OF_PORTS"
    using add bad_port(3) by (cases "port_index lport < MAX_NUMBER_OF_PORTS") auto
  have "conn_lists ((psks st)(p \<mapsto> n)) (incoming_conns st) (conns st) {p} (cs_incoming A) (cs_conns A)"
    using ok fresh conn_lists_upd [of "psks st" _ _ "{}" _ _ p] by (simp add: node_ok_def node_rel_def)
  from conn_add [OF this refl i, of p "(Some s, psk_rport n, psk_rip n)"] add s(2) have
    a: "conn_lists h arr (conns st) {} ((cs_incoming A)(port_index lport := cs_incoming A (port_index lport) @
      [(Some s, psk_rport n, psk_rip n)])) (cs_conns A)" "same_listeners (incoming_conns st) arr"
    by (auto simp: psk_payload_def)
  let ?st = "st\<lparr>psks := h, incoming_conns := arr\<rparr>"
  have "node_rel ?st (add_incoming (port_index lport) (Some s, psk_rport n, psk_rip n) A)"
    using a ok by (simp add: node_ok_def node_rel_def add_incoming_def same_listeners_def)
  moreover have "socks_live ?st A" using ok by (simp add: node_ok_def socks_live_def)
  then have "socks_live ?st (add_incoming (port_index lport) (Some s, psk_rport n, psk_rip n) A)"
    by (rule live_add_incoming) (use s(1) in simp)
  ultimately show ?thesis by (simp add: node_wfI node_ok_def)
qed

lemma leaked_node_ok:
  assumes "node_ok st A" and "psks st p = None"
  shows "node_ok (st\<lparr>psks := (psks st)(p \<mapsto> n)\<rparr>) A"
proof -
  have "conn_lists ((psks st)(p \<mapsto> n)) (incoming_conns st) (conns st) {p} (cs_incoming A) (cs_conns A)"
    using assms conn_lists_upd [of "psks st" _ _ "{}" _ _ p] by (simp add: node_ok_def node_rel_def)
  from conn_lists_weaken [OF this, of "{}"] assms(1) show ?thesis
    by (simp add: node_ok_def node_rel_def socks_live_def)
qed

lemma connect_tail_wf:
  assumes ok: "node_ok st A" and fresh: "psks st p = None" and s: "socks st s \<noteq> None" "psk_sk n = Some s"
    and run: "rbind (local_tcp_sendmsg_helper cfg env (Some s) (Some 0) 0 CONNECT (st\<lparr>psks := (psks st)(p \<mapsto> n)\<rparr>))
        (\<lambda>(ret, st5). if ret \<noteq> 0 then Inr (ret, Some sock, st5)
          else rbind (add_port_sk (psks st5) (incoming_conns st5) lport (Some p))
            (\<lambda>(h, arr). Inr (ret, Some sock, st5\<lparr>psks := h, incoming_conns := arr\<rparr>))) = Inr (ret, r, st')"
  shows "node_wf st'"
proof -
  let ?st4 = "st\<lparr>psks := (psks st)(p \<mapsto> n)\<rparr>"
  from run obtain ret5 st5 where h: "local_tcp_sendmsg_helper cfg env (Some s) (Some 0) 0 CONNECT ?st4 = Inr (ret5, st5)"
    by (auto simp: rbind_eq_Inr)
  then obtain d where st5: "st5 = ?st4\<lparr>daemon := d\<rparr>"
    by (auto simp: local_tcp_sendmsg_helper_def rbind_eq_Inr)
  show ?thesis
  proof (cases "ret5 = 0")
    case False
    with run h have "st' = st5" by simp
    with helper_same [OF h] node_wf_same [OF node_wfI [OF leaked_node_ok [OF ok fresh]]] show ?thesis by simp
  next
    case True
    with run h obtain h1 arr where a: "add_port_sk (psks st5) (incoming_conns st5) lport (Some p) = Inr (h1, arr)"
      "st' = st5\<lparr>psks := h1, incoming_conns := arr\<rparr>" by (auto simp: rbind_eq_Inr)
    let ?b = "st\<lparr>daemon := d\<rparr>"
    have "node_ok ?b A" by (rule node_ok_same [OF ok]) (simp add: tables_same_def)
    from add_new_incoming_wf [OF this _ _ s(2), of p lport h1 arr] a(1) fresh s(1)
    have "node_wf (?b\<lparr>psks := h1, incoming_conns := arr\<rparr>)" by (simp add: st5)
    then show ?thesis by (simp add: a(2) st5)
  qed
qed

lemma connect_wf:
  assumes wf: "node_wf st" and env: "kernel_ok env"
    and run: "ltcp_tcp_v4_connect cfg env sk uaddr st = Inr (ret, r, st')"
  shows "node_wf st'"
proof (cases "sock_create env st")
  case (Inl e)
  with run wf show ?thesis by (simp add: ltcp_tcp_v4_connect_def)
next
  case (Inr t)
  obtain sock s k0 where t: "t = (sock, s, k0)" by (cases t)
  let ?st1 = "st\<lparr>socks := (socks st)(s \<mapsto> k0)\<rparr>"
  obtain k where k: "socks ?st1 sk = Some k"
    using run Inr t by (cases "socks ?st1 sk") (auto simp: ltcp_tcp_v4_connect_def Let_def)
  obtain rc fs where f: "replace_socket_filedescriptor (fdenv env) sock (sk_socket k) (files st) = Inr (rc, fs)"
    using run Inr t k by (cases "replace_socket_filedescriptor (fdenv env) sock (sk_socket k) (files st)")
      (auto simp: ltcp_tcp_v4_connect_def Let_def)
  let ?inet = "(sk_inet k0)\<lparr>inet_sport := fst uaddr, inet_dport := fst uaddr, inet_daddr := snd uaddr,
    inet_saddr := ucast (src_IP st)\<rparr>"
  let ?st2 = "?st1\<lparr>files := fs\<rparr>"
  let ?st3 = "?st2\<lparr>socks := (socks ?st2)(s \<mapsto> k0\<lparr>sk_inet := ?inet\<rparr>)\<rparr>"
  have same: "tables_same st ?st2" "tables_same st ?st3" by (simp_all add: tables_same_def)
  show ?thesis
  proof (cases "rc = 0 \<and> inet_saddr ?inet \<noteq> 0 \<and> inet_daddr ?inet \<noteq> 0 \<and> kmalloc_port_sk env (psks st) \<noteq> None")
    case False
    with run Inr t k f have "st' = ?st2 \<or> st' = ?st3"
      by (cases "kmalloc_port_sk env (psks st)") (auto simp: ltcp_tcp_v4_connect_def Let_def split: if_splits)
    with same node_wf_same [OF wf] show ?thesis by blast
  next
    case True
    then obtain p n where p: "kmalloc_port_sk env (psks st) = Some (p, n)" by auto
    with env have fresh: "psks ?st3 p = None" by (simp add: kernel_ok_def)
    from wf obtain A where "node_ok st A" by (auto simp: node_wf_def)
    then have ok: "node_ok ?st3 A" using same(2) by (rule node_ok_same)
    show ?thesis
      by (rule connect_tail_wf [OF ok fresh, of s "n\<lparr>psk_sk := Some s, psk_rport := fst uaddr, psk_rip := snd uaddr\<rparr>"
            cfg env sock "fst uaddr" ret r])
        (use run Inr t k f True p in \<open>simp_all add: ltcp_tcp_v4_connect_def Let_def\<close>)
  qed
qed

lemma connect_wrapper_wf:
  assumes wf: "node_wf st" and env: "kernel_ok env"
    and run: "ltcp_tcp_v4_connect_wrapper cfg env sk uaddr st = Inr (ret, st')"
  shows "node_wf st'"
proof (cases "snd uaddr = ucast (dest_IP st)")
  case False
  with run env have "tables_same st st'" by (cases uaddr) (auto simp: ltcp_tcp_v4_connect_wrapper_def kernel_ok_def)
  with wf show ?thesis by (rule node_wf_same)
next
  case True
  with run obtain ret1 r st1 where c: "ltcp_tcp_v4_connect cfg env sk uaddr st = Inr (ret1, r, st1)"
    by (auto simp: ltcp_tcp_v4_connect_wrapper_def rbind_eq_Inr)
  have wf1: "node_wf st1" by (rule connect_wf [OF wf env c])
  show ?thesis
  proof (cases "0 \<le> ret1")
    case False
    with run True c wf1 show ?thesis by (simp add: ltcp_tcp_v4_connect_wrapper_def)
  next
    case pos: True
    with run True c obtain st2 x where st2: "sock_store st1 (Some sk) (\<lambda>k. k\<lparr>defer_connect := True\<rparr>) = Inr st2"
      "st' = st2\<lparr>connecting := x\<rparr>"
      by (auto simp: ltcp_tcp_v4_connect_wrapper_def rbind_eq_Inr split: option.splits)
    have "tables_same st2 st'" by (simp add: tables_same_def st2(2))
    with sock_store_same [OF st2(1)] tables_same_trans node_wf_same [OF wf1] show ?thesis by blast
  qed
qed

subsection \<open>Accept\<close>

lemma same_slots_lists:
  assumes "conn_lists h inc con F Ai Ac"
    and same: "\<And>j. psa_head (inc' j) = psa_head (inc j) \<and> psa_tail (inc' j) = psa_tail (inc j) \<and> psa_lock (inc' j) = psa_lock (inc j)"
  shows "conn_lists h inc' con F Ai Ac"
proof -
  have "table_inv h inc' L" if "table_inv h inc L" for L
    using that same by (auto simp: table_inv_def dll_def)
  with assms(1) show ?thesis unfolding conn_lists_def tables_inv_def by blast
qed

lemma add_listening_wf:
  assumes ok: "node_ok st A" and sk: "socks st sk \<noteq> None"
    and add: "add_listening_sk_port_sk_arr (incoming_conns st) lport (Some sk) = Inr arr"
  shows "node_wf (st\<lparr>incoming_conns := arr\<rparr>)"
proof -
  let ?i = "port_index lport"
  have i: "?i < MAX_NUMBER_OF_PORTS"
    using add by (cases "?i < MAX_NUMBER_OF_PORTS") (simp_all add: add_listening_sk_port_sk_arr_def pf_ops)
  have u: "\<not> psa_lock (incoming_conns st ?i)"
    using ok i by (auto simp: node_ok_def node_rel_def conn_lists_def tables_inv_def table_inv_def)
  have arr: "arr = (incoming_conns st)(?i := (incoming_conns st ?i)\<lparr>psa_lock := False, psa_listening_sock := Some sk\<rparr>)"
    using add i u by (simp add: add_listening_sk_port_sk_arr_def pf_ops)
  let ?A = "A\<lparr>cs_listening := (cs_listening A)(?i := Some sk)\<rparr>"
  have "conn_lists (psks st) arr (conns st) {} (cs_incoming A) (cs_conns A)"
    by (rule same_slots_lists [of _ "incoming_conns st"]) (use ok u in \<open>auto simp: node_ok_def node_rel_def arr\<close>)
  then have "node_ok (st\<lparr>incoming_conns := arr\<rparr>) ?A"
    using ok sk by (auto simp: node_ok_def node_rel_def socks_live_def arr)
  then show ?thesis by (rule node_wfI)
qed

lemma wait_loop_wf:
  "node_wf st \<Longrightarrow> naps_ok naps \<Longrightarrow> wait_loop env sk lport naps st = Inr (r, st') \<Longrightarrow> node_wf st'"
proof (induction naps arbitrary: st)
  case Nil
  then show ?case by (auto simp: rbind_eq_Inr split: if_splits)
next
  case (Cons nap naps)
  have wf: "node_wf (nap_others nap st)" "naps_ok naps" using Cons.prems(1,2) by (simp_all add: naps_ok_def)
  from Cons.prems(3) have "st' = st \<or> st' = nap_others nap st \<or>
      wait_loop env sk lport naps (nap_others nap st) = Inr (r, st')"
    by (auto simp: rbind_eq_Inr Let_def simp del: sock_load_Some split: if_splits)
  with Cons.prems(1) wf Cons.IH [OF wf] show ?case by blast
qed

lemma wait_on_connection_wf:
  assumes wf: "node_wf st" and naps: "naps_ok naps"
    and run: "wait_on_connection env sk nonblock naps st = Inr (r, st')"
  shows "node_wf st'"
proof -
  from wf obtain A where ok: "node_ok st A" by (auto simp: node_wf_def)
  from run obtain k where k: "socks st sk = Some k"
    by (auto simp: wait_on_connection_def rbind_eq_Inr split: option.splits)
  let ?l = "inet_sport (sk_inet k)"
  from run k have "st' = st \<or> (\<exists>arr. add_listening_sk_port_sk_arr (incoming_conns st) ?l (Some sk) = Inr arr \<and>
      wait_loop env sk ?l naps (st\<lparr>incoming_conns := arr\<rparr>) = Inr (r, st'))"
    by (auto simp: wait_on_connection_def rbind_eq_Inr Let_def split: if_splits simp del: wait_loop.simps)
  then show ?thesis
  proof
    assume "st' = st"
    with wf show ?thesis by simp
  next
    assume "\<exists>arr. add_listening_sk_port_sk_arr (incoming_conns st) ?l (Some sk) = Inr arr \<and>
      wait_loop env sk ?l naps (st\<lparr>incoming_conns := arr\<rparr>) = Inr (r, st')"
    then obtain arr where a: "add_listening_sk_port_sk_arr (incoming_conns st) ?l (Some sk) = Inr arr"
      "wait_loop env sk ?l naps (st\<lparr>incoming_conns := arr\<rparr>) = Inr (r, st')" by blast
    have "node_wf (st\<lparr>incoming_conns := arr\<rparr>)" by (rule add_listening_wf [OF ok _ a(1)]) (simp add: k)
    from wait_loop_wf [OF this naps a(2)] show ?thesis .
  qed
qed

text \<open>The move of the oldest incoming connection to the established ones.\<close>

lemma accept_move_wf:
  assumes ok: "node_ok st A"
    and put: "put_port_sk (psks st) (incoming_conns st) lport = Inr (psk, h, arr)"
  shows "psk = None \<and> h = psks st \<and> arr = incoming_conns st \<or>
    (\<exists>n s. psk_load h psk = Inr n \<and> psk_sk n = Some s \<and>
       (\<forall>h1 arr1. add_port_sk h (conns st) lport psk = Inr (h1, arr1) \<longrightarrow>
          node_wf (st\<lparr>incoming_conns := arr, psks := h1, conns := arr1\<rparr>)))"
proof -
  let ?i = "port_index lport"
  have i: "?i < MAX_NUMBER_OF_PORTS" using put bad_port(2) by (cases "?i < MAX_NUMBER_OF_PORTS") auto
  from ok have rel: "node_rel st A"
    and cl: "conn_lists (psks st) (incoming_conns st) (conns st) {} (cs_incoming A) (cs_conns A)"
    by (simp_all add: node_ok_def node_rel_def)
  show ?thesis
  proof (cases "cs_incoming A ?i")
    case Nil
    from conn_put_empty [OF cl refl i this] put show ?thesis by simp
  next
    case (Cons e es)
    from conn_put [OF cl refl i Cons] put obtain a where
      a: "psk = Some a" "conn_lists h arr (conns st) {a} ((cs_incoming A)(?i := es)) (cs_conns A)"
      "same_listeners (incoming_conns st) arr" "psk_payload h = psk_payload (psks st)" "psk_payload (psks st) a = Some e"
      by auto
    from ok i Cons obtain s rport rip where e: "e = (Some s, rport, rip)"
      by (cases e) (fastforce simp: node_ok_def socks_live_def)
    from a(4,5) payload_Some [of h a e] e obtain n where n: "h a = Some n" "psk_sk n = Some s" by auto
    have "node_wf (st\<lparr>incoming_conns := arr, psks := h1, conns := arr1\<rparr>)"
      if add: "add_port_sk h (conns st) lport psk = Inr (h1, arr1)" for h1 arr1
    proof -
      let ?st = "st\<lparr>incoming_conns := arr, psks := h1, conns := arr1\<rparr>"
      from conn_add [OF conn_lists_swap [OF a(2)] refl i, of a e] a(4,5) add
      have "conn_lists h1 arr1 arr {} ((cs_conns A)(?i := cs_conns A ?i @ [e])) ((cs_incoming A)(?i := es))"
        by (auto simp: a(1))
      then have "node_rel ?st (establish ?i [] e es A)"
        using conn_lists_swap a(3) rel by (simp add: node_rel_def establish_def same_listeners_def)
      moreover have "socks_live ?st A" using ok by (simp add: node_ok_def socks_live_def)
      from live_establish [OF this i, of "[]" e es] Cons have "socks_live ?st (establish ?i [] e es A)" by simp
      ultimately show ?thesis by (simp add: node_wfI node_ok_def)
    qed
    with n a(1) show ?thesis by (simp add: psk_load_def)
  qed
qed

text \<open>The part of \<open>ltcp_inet_csk_accept\<close> that follows a successful wait.\<close>

lemma accept_tail_wf:
  assumes wf: "node_wf st"
    and run: "rbind (put_port_sk (psks st) (incoming_conns st) lport) (\<lambda>(psk, h, arr).
         let st2 = st\<lparr>psks := h, incoming_conns := arr\<rparr>
         in if psk \<noteq> None then
              rbind (psk_load h psk) (\<lambda>n.
              if psk_sk n = None then Inr (None, err, st2)
              else rbind (add_port_sk (psks st2) (conns st2) lport psk) (\<lambda>(h1, arr1).
                let st3 = st2\<lparr>psks := h1, conns := arr1\<rparr>
                in rbind (local_tcp_sendmsg_helper cfg env (psk_sk n) None 0 CONNECT_SUCCESS st3)
                   (\<lambda>(err1, st4). if err1 \<noteq> 0 then Inr (None, err1, st4) else Inr (psk_sk n, 0, st4))))
            else Inr (None, - EAGAIN, st2)) = Inr (r, e, st')"
  shows "node_wf st'"
proof -
  from wf obtain A where ok: "node_ok st A" by (auto simp: node_wf_def)
  from run obtain psk h arr where put: "put_port_sk (psks st) (incoming_conns st) lport = Inr (psk, h, arr)"
    by (auto simp: rbind_eq_Inr)
  from accept_move_wf [OF ok put] show ?thesis
  proof (elim disjE exE conjE)
    assume "psk = None" "h = psks st" "arr = incoming_conns st"
    with run put wf show ?thesis by simp
  next
    fix n s
    assume n: "psk_load h psk = Inr n" "psk_sk n = Some s"
      and moved: "\<forall>h1 arr1. add_port_sk h (conns st) lport psk = Inr (h1, arr1) \<longrightarrow>
          node_wf (st\<lparr>incoming_conns := arr, psks := h1, conns := arr1\<rparr>)"
    obtain a where "psk = Some a" using n(1) by (cases psk) (simp_all add: psk_load_def)
    with run put n obtain h1 arr1 where add: "add_port_sk h (conns st) lport psk = Inr (h1, arr1)"
      and rest: "rbind (local_tcp_sendmsg_helper cfg env (Some s) None 0 CONNECT_SUCCESS
          (st\<lparr>incoming_conns := arr, psks := h1, conns := arr1\<rparr>))
          (\<lambda>(err1, st4). if err1 \<noteq> 0 then Inr (None, err1, st4) else Inr (Some s, 0, st4)) = Inr (r, e, st')"
      by (cases "add_port_sk h (conns st) lport psk") (auto simp: Let_def cong: if_cong)
    from rest obtain q where "local_tcp_sendmsg_helper cfg env (Some s) None 0 CONNECT_SUCCESS
          (st\<lparr>incoming_conns := arr, psks := h1, conns := arr1\<rparr>) = Inr (q, st')"
      by (auto simp: rbind_eq_Inr split: if_splits)
    moreover have "node_wf (st\<lparr>incoming_conns := arr, psks := h1, conns := arr1\<rparr>)" using moved add by simp
    ultimately show ?thesis using helper_same node_wf_same by blast
  qed
qed

lemma accept_wf:
  assumes wf: "node_wf st" and env: "kernel_ok env" and naps: "naps_ok naps"
    and run: "ltcp_inet_csk_accept cfg env sk nonblock naps st = Inr (r, e, st')"
  shows "node_wf st'"
proof -
  from run obtain k err st1 where k: "sock_load st (Some sk) = Inr k"
    and w: "wait_on_connection env sk nonblock naps st = Inr (err, st1)"
    by (auto simp: ltcp_inet_csk_accept_def rbind_eq_Inr Let_def simp del: sock_load_Some)
  have wf1: "node_wf st1" by (rule wait_on_connection_wf [OF wf naps w])
  show ?thesis
  proof (cases "err = 0")
    case False
    with run k w wf1 show ?thesis by (simp add: ltcp_inet_csk_accept_def del: sock_load_Some)
  next
    case True
    with run k w obtain k1 where k1: "sock_load st1 (Some sk) = Inr k1"
      by (auto simp: ltcp_inet_csk_accept_def rbind_eq_Inr Let_def simp del: sock_load_Some)
    show ?thesis
    proof (cases "icsk_accept_queue k1 = []")
      case False
      with run k w True k1 have "inet_csk_accept env sk st1 = (r, e, st')"
        by (simp add: ltcp_inet_csk_accept_def del: sock_load_Some)
      with env have "tables_same st1 st'" by (simp add: kernel_ok_def)
      with wf1 show ?thesis by (rule node_wf_same)
    next
      case empty: True
      show ?thesis
        by (rule accept_tail_wf [OF wf1, of "inet_sport (sk_inet k)" 0 cfg env r e])
          (use run k w True k1 empty in \<open>simp add: ltcp_inet_csk_accept_def Let_def del: sock_load_Some\<close>)
    qed
  qed
qed

subsection \<open>Reachable nodes\<close>

text \<open>
  One step of a node: an operation of the module that returns, or a change that leaves the tables
  alone, such as the peer's write into the ring or the advance of the ring before a message is
  handed to \<open>local_tcp_rcv\<close>. While \<open>recvmsg\<close> and \<open>accept\<close> sleep, other contexts take steps.
\<close>

inductive node_step :: "ltcp \<Rightarrow> ltcp \<Rightarrow> bool" where
  other: "tables_same st st' \<Longrightarrow> node_step st st'"
| rcv: "kernel_ok env \<Longrightarrow> skb_safe st skb \<Longrightarrow> local_tcp_rcv env skb st = Inr (rc, st') \<Longrightarrow> node_step st st'"
| sendmsg: "local_tcp_sendmsg cfg env sk msg len st = Inr (rc, st') \<Longrightarrow> node_step st st'"
| recvmsg: "\<forall>nap \<in> set naps. \<forall>s. node_step\<^sup>*\<^sup>* s (nap_others nap s) \<Longrightarrow>
    local_tcp_recvmsg cfg env renv sk start len naps st = Inr (rc, out, st') \<Longrightarrow> node_step st st'"
| connect: "kernel_ok env \<Longrightarrow> ltcp_tcp_v4_connect_wrapper cfg env sk uaddr st = Inr (rc, st') \<Longrightarrow> node_step st st'"
| accept: "kernel_ok env \<Longrightarrow> \<forall>nap \<in> set naps. \<forall>s. node_step\<^sup>*\<^sup>* s (nap_others nap s) \<Longrightarrow>
    ltcp_inet_csk_accept cfg env sk nonblock naps st = Inr (r, rc, st') \<Longrightarrow> node_step st st'"
| close: "kernel_ok env \<Longrightarrow> close_safe st sk \<Longrightarrow> ltcp_tcp_close cfg env sk st = Inr st' \<Longrightarrow> node_step st st'"

lemma naps_of_steps:
  assumes "\<forall>nap \<in> set naps. \<forall>s. (\<lambda>x y. node_step x y \<and> (node_wf x \<longrightarrow> node_wf y))\<^sup>*\<^sup>* s (nap_others nap s)"
  shows "naps_ok naps"
proof -
  have "node_wf s \<longrightarrow> node_wf t" if "(\<lambda>x y. node_step x y \<and> (node_wf x \<longrightarrow> node_wf y))\<^sup>*\<^sup>* s t" for s t
    using that by (induction rule: rtranclp_induct) simp_all
  then show ?thesis unfolding naps_ok_def using assms by blast
qed

lemma node_step_wf: "node_step st st' \<Longrightarrow> node_wf st \<longrightarrow> node_wf st'"
proof (induction rule: node_step.induct)
  case (other st st')
  show ?case by (rule impI) (rule node_wf_same [OF _ other])
next
  case (rcv env st skb rc st')
  show ?case by (rule impI) (rule keeps_wfD [OF local_tcp_rcv_wf [OF _ rcv(1,2)] rcv(3)])
next
  case (sendmsg cfg env sk msg len st rc st')
  show ?case by (rule impI) (rule keeps_wfD [OF sendmsg_wf sendmsg])
next
  case (recvmsg naps cfg env renv sk start len st rc out st')
  show ?case by (rule impI) (rule recvmsg_wf [OF _ naps_of_steps [OF recvmsg.IH] recvmsg.hyps])
next
  case (connect env cfg sk uaddr st rc st')
  show ?case by (rule impI) (rule connect_wrapper_wf [OF _ connect])
next
  case (accept env naps cfg sk nonblock st r rc st')
  show ?case by (rule impI) (rule accept_wf [OF _ accept.hyps(1) naps_of_steps [OF accept.IH] accept.hyps(2)])
next
  case (close env st sk cfg st')
  show ?case by (rule impI) (rule close_wf [OF _ close])
qed

text \<open>The tables of a freshly loaded module.\<close>

definition node_start :: "ltcp \<Rightarrow> bool" where
  "node_start st \<longleftrightarrow> incoming_conns st = empty_table \<and> conns st = empty_table"

lemma node_start_ok: "node_start st \<Longrightarrow> node_wf st"
proof -
  assume start: "node_start st"
  have "conn_lists (psks st) empty_table empty_table {} (\<lambda>_. []) (\<lambda>_. [])"
    by (rule conn_listsI [of _ _ _ "\<lambda>_. []" "\<lambda>_. []"])
      (auto simp: tables_inv_def table_inv_def slot_nodes_def dll_def empty_table_def empty_slot_def)
  with start have "node_ok st \<lparr>cs_incoming = \<lambda>_. [], cs_conns = \<lambda>_. [], cs_listening = \<lambda>_. None\<rparr>"
    by (simp add: node_ok_def node_rel_def socks_live_def node_start_def empty_table_def empty_slot_def)
  then show ?thesis by (rule node_wfI)
qed

lemma node_steps_wf: "node_step\<^sup>*\<^sup>* st st' \<Longrightarrow> node_wf st \<Longrightarrow> node_wf st'"
proof (induction rule: rtranclp_induct)
  case (step y z)
  then show ?case using node_step_wf by blast
qed


text \<open>
  A fresh node on which a blocking accept registers the listener and times out, and which then
  receives a connection request.
\<close>

definition demo_fresh :: ltcp where
  "demo_fresh = (demo_node 1 2)\<lparr>incoming_conns := empty_table\<rparr>"

definition demo_nap :: nap where
  "demo_nap = \<lparr>nap_others = (\<lambda>s. s), nap_timeo = 0, nap_signal = False\<rparr>"

lemma demo_kernel_ok: "kernel_ok demo_kenv"
  by (auto simp: kernel_ok_def demo_kenv_def find_Some_iff split: option.splits)

lemma demo_accept_step: "node_step demo_fresh (demo_node 1 2)"
proof -
  have "ltcp_inet_csk_accept default_config demo_kenv 500 False [demo_nap] demo_fresh = Inr (None, - 11, demo_node 1 2)"
    using demo_port
    by (simp add: ltcp_inet_csk_accept_def wait_on_connection_def queues_empty_def demo_fresh_def demo_node_def
        demo_listener_def demo_kenv_def demo_nap_def portsk_queue_empty_def add_listening_sk_port_sk_arr_def pf_ops
        empty_table_def empty_slot_def EAGAIN_def Let_def)
  from node_step.accept [OF demo_kernel_ok _ this] show ?thesis by (simp add: demo_nap_def)
qed

lemma demo_connect_step:
  "\<exists>st. node_step (demo_inbox CONNECT (demo_node 1 2)) st \<and> woken st = [500]"
proof -
  let ?st = "demo_inbox CONNECT (demo_node 1 2)"
  have rel: "node_rel ?st no_conns" using demo_node_rel by (simp add: demo_inbox(2))
  obtain st where rcv: "rcv_connect demo_kenv 0x931F 0x931F 2 1 ?st = Inr (0, st)" "woken st = [500]"
    using rcv_connect_new [OF rel demo_port(1) [symmetric] demo_port(2), where ls = 500 and parent = demo_listener
        and rport = "0x931F" and rip = 2 and lip = 1 and c = 1000 and p = 2000 and n = demo_garbage
        and env = demo_kenv and k = "demo_listener\<lparr>sk_receive_queue := []\<rparr>"]
    by (auto simp: demo_inbox demo_node_fields demo_clone demo_mem)
  have "local_tcp_rcv demo_kenv demo_skb ?st = Inr (0, st)"
    using rcv_dispatch(2) [OF demo_inbox(1), of demo_kenv] rcv(1) by (simp add: demo_skb_def)
  moreover have "skb_safe ?st demo_skb"
    using demo_inbox(1) [of CONNECT "demo_node 1 2"] by (simp add: skb_safe_def skb_carries_def local_tcp_type_defs Let_def)
  ultimately have "node_step ?st st" using node_step.rcv [OF demo_kernel_ok] by blast
  with rcv(2) show ?thesis by blast
qed


end
