(* ===== verification/Interrupt_Spec.thy ===== *)
theory Interrupt_Spec
  imports Node_Steps
begin

text \<open>
  The interrupt handler as the abstract machine run over the pending messages: every behaviour of
  \<open>interrupt_callback\<close> on a well-formed node is one of the specification, applied to the messages
  in the ring in order until one is refused.
\<close>

text \<open>The ports a message is filed under on the machine that receives it.\<close>

definition msg_lport :: "ltcp_queue_msg \<Rightarrow> u16" where
  "msg_lport m = ucast (src_port m)"

definition msg_rport :: "ltcp_queue_msg \<Rightarrow> u16" where
  "msg_rport m = ucast (dest_port m)"

definition msg_index :: "ltcp_queue_msg \<Rightarrow> nat" where
  "msg_index m = port_index (msg_lport m)"

definition msg_outcome :: "ltcp_queue_msg \<Rightarrow> conn_state \<Rightarrow> (int \<times> conn_state) res \<Rightarrow> bool" where
  "msg_outcome m A out \<longleftrightarrow> rcv_outcome (msg_type m) (msg_index m) (msg_rport m) (src_ip m) A out"

text \<open>The message has a valid port, and a removal it asks for is not that of the last of several entries.\<close>

definition msg_safe :: "ltcp_queue_msg \<Rightarrow> conn_state \<Rightarrow> bool" where
  "msg_safe m A \<longleftrightarrow> msg_index m < MAX_NUMBER_OF_PORTS \<and>
     (msg_type m = CLOSE \<longrightarrow> unlink_safe (msg_rport m) (src_ip m) (cs_conns A (msg_index m))) \<and>
     (msg_type m = CONNECT_SUCCESS \<longrightarrow> unlink_safe (msg_rport m) (src_ip m) (cs_incoming A (msg_index m)))"

text \<open>
  A run over messages, with the messages it leaves: it ends when there is none, faults with the
  handler or, when \<open>skbs\<close> does not promise socket buffers, for want of one, and returns -1 behind the first refused message.
\<close>

inductive msgs_run :: "bool \<Rightarrow> ltcp_queue_msg list \<Rightarrow> conn_state \<Rightarrow> (int \<times> conn_state) res \<Rightarrow> ltcp_queue_msg list \<Rightarrow> bool" where
  finished: "msgs_run skbs [] A (Inr (0, A)) []"
| no_skb: "\<not> skbs \<Longrightarrow> msgs_run skbs (m # ms) A (Inl NullDeref) ms"
| faults: "msg_outcome m A (Inl e) \<Longrightarrow> msgs_run skbs (m # ms) A (Inl e) ms"
| refused: "msg_outcome m A (Inr (rc, A')) \<Longrightarrow> rc \<noteq> 0 \<Longrightarrow> msgs_run skbs (m # ms) A (Inr (- 1, A')) ms"
| handled: "msg_outcome m A (Inr (0, A')) \<Longrightarrow> msgs_run skbs ms A' out left \<Longrightarrow> msgs_run skbs (m # ms) A out left"

inductive_cases msgs_run_NilE: "msgs_run skbs [] A out left"
inductive_cases msgs_run_ConsE: "msgs_run skbs (m # ms) A out left"
inductive_cases success_outcomeE: "rcv_outcome CONNECT_SUCCESS i rport rip A out"

text \<open>Whatever the outcomes, no message of the run is unsafe.\<close>

fun run_safe :: "ltcp_queue_msg list \<Rightarrow> conn_state \<Rightarrow> bool" where
  "run_safe [] A = True"
| "run_safe (m # ms) A = (msg_safe m A \<and> (\<forall>A'. msg_outcome m A (Inr (0, A')) \<longrightarrow> run_safe ms A'))"

subsection \<open>One message\<close>

lemma rcv_simulates:
  assumes ok: "node_ok st A" and carries: "skb_carries st skb (msg_type m) (msg_lport m) (msg_rport m)"
    and ip: "iph_saddr skb = src_ip m" and safe: "msg_safe m A" and env: "kernel_ok env"
  shows "\<exists>out. msg_outcome m A out \<and> simulates out (local_tcp_rcv env skb st)"
proof -
  let ?i = "msg_index m"
  have i: "?i = port_index (msg_lport m)" "?i < MAX_NUMBER_OF_PORTS"
    using safe by (simp_all add: msg_index_def msg_safe_def)
  note r = rcv_cases [OF carries, of env]
  have spec: "msg_outcome m A (rcv_spec (msg_type m) ?i (msg_rport m) (src_ip m) c A)" for c
    unfolding msg_outcome_def by (rule as_specified)
  consider "msg_type m = REGULAR" | "msg_type m = CONNECT" | "msg_type m = CLOSE" | "msg_type m = CONNECT_SUCCESS"
    | "msg_type m \<noteq> REGULAR" "msg_type m \<noteq> CONNECT" "msg_type m \<noteq> CLOSE" "msg_type m \<noteq> CONNECT_SUCCESS" by blast
  then show ?thesis
  proof cases
    case 1
    with regular_refines [OF ok i, of "msg_rport m" "src_ip m" skb] r ip
    have "simulates (rcv_spec (msg_type m) ?i (msg_rport m) (src_ip m) 0 A) (local_tcp_rcv env skb st)"
      by (simp add: rcv_spec_def)
    with spec show ?thesis by blast
  next
    case 2
    have "local_tcp_rcv env skb st = rcv_connect env (msg_lport m) (msg_rport m) (src_ip m) (iph_daddr skb) st"
      using rcv_dispatch(2) [of st skb] carries 2 ip by simp
    with connect_simulates [OF ok i env] 2 show ?thesis unfolding msg_outcome_def by metis
  next
    case 3
    have "local_tcp_rcv env skb st = rcv_close (msg_lport m) (msg_rport m) (src_ip m) st"
      using rcv_dispatch(3) [of st skb] carries 3 ip by simp
    with close_refines [OF ok i, of "msg_rport m" "src_ip m"] safe 3
    have "simulates (rcv_spec (msg_type m) ?i (msg_rport m) (src_ip m) 0 A) (local_tcp_rcv env skb st)"
      by (auto simp: rcv_spec_def msg_safe_def local_tcp_type_defs split: option.splits)
    with spec show ?thesis by blast
  next
    case 4
    have "local_tcp_rcv env skb st = rcv_connect_success (msg_lport m) (msg_rport m) (src_ip m) st"
      using rcv_dispatch(4) [of st skb] carries 4 ip by simp
    with success_refines [OF ok i, of "msg_rport m" "src_ip m"] safe 4
    have "simulates (rcv_spec (msg_type m) ?i (msg_rport m) (src_ip m) 0 A) (local_tcp_rcv env skb st)"
      by (auto simp: rcv_spec_def msg_safe_def local_tcp_type_defs split: option.splits)
    with spec show ?thesis by blast
  next
    case 5
    with r ok have "simulates (rcv_spec (msg_type m) ?i (msg_rport m) (src_ip m) 0 A) (local_tcp_rcv env skb st)"
      by (simp add: rcv_spec_def)
    with spec show ?thesis by blast
  qed
qed

subsection \<open>The loop\<close>

definition pending_msgs :: "ltcp_ring_queue \<Rightarrow> ltcp_queue_msg list" where
  "pending_msgs q = map (rq_queue q) (pending q)"

lemma slot_skb_carries:
  "rq_queue rq = rq_queue (recv_queue (daemon st)) \<Longrightarrow>
   skb_carries (with_recv_queue rq st) (slot_skb st i) (msg_type (rq_queue rq i)) (msg_lport (rq_queue rq i)) (msg_rport (rq_queue rq i)) \<and>
   iph_saddr (slot_skb st i) = src_ip (rq_queue rq i)"
  by (simp add: skb_carries_def slot_skb_def with_recv_queue_def msg_lport_def msg_rport_def Let_def)

lemma with_recv_queue_ok: "node_ok st A \<Longrightarrow> node_ok (with_recv_queue rq st) A"
  by (erule node_ok_same) (simp add: tables_same_def with_recv_queue_def)

lemma recv_loop_simulates:
  assumes "node_ok st A" and "ring_ok (recv_queue (daemon st))" and "kernel_ok env"
    and "run_safe (pending_msgs (recv_queue (daemon st))) A"
  shows "\<exists>out left r. msgs_run (\<forall>i. alloc_skb env i) (pending_msgs (recv_queue (daemon st))) A out left \<and>
    recv_loop env st = Some r \<and> simulates out r \<and>
    (\<forall>rc st'. r = Inr (rc, st') \<longrightarrow> pending_msgs (recv_queue (daemon st')) = left)"
  using assms
proof (induction "pending (recv_queue (daemon st))" arbitrary: st A)
  case Nil
  from recv_loop_Nil [OF Nil.prems(2) Nil.hyps [symmetric], of env] obtain rq where
    rq: "recv_loop env st = Some (Inr (0, with_recv_queue rq st))" "pending rq = []" by blast
  have "msgs_run (\<forall>i. alloc_skb env i) (pending_msgs (recv_queue (daemon st))) A (Inr (0, A)) []"
    using Nil.hyps finished by (simp add: pending_msgs_def flip: Nil.hyps)
  moreover have "simulates (Inr (0, A)) (Inr (0, with_recv_queue rq st))"
    using with_recv_queue_ok [OF Nil.prems(1)] by simp
  moreover have "pending_msgs (recv_queue (daemon (with_recv_queue rq st))) = []"
    using rq(2) by (simp add: pending_msgs_def with_recv_queue_def)
  ultimately show ?case using rq(1) by blast
next
  case (Cons i "is")
  let ?q = "recv_queue (daemon st)"
  let ?m = "rq_queue ?q i" and ?ms = "map (rq_queue ?q) is"
  have msgs: "pending_msgs ?q = ?m # ?ms" using Cons.hyps(2) by (simp add: pending_msgs_def flip: Cons.hyps(2))
  have safe: "msg_safe ?m A" "\<And>A'. msg_outcome ?m A (Inr (0, A')) \<Longrightarrow> run_safe ?ms A'"
    using Cons.prems(4) by (simp_all add: msgs)
  have outcome: "\<exists>out. msg_outcome ?m A out \<and> simulates out (local_tcp_rcv env (slot_skb st i) (with_recv_queue rq st))"
    if "rq_queue rq = rq_queue ?q" for rq
    using rcv_simulates [OF with_recv_queue_ok [OF Cons.prems(1), of rq] _ _ _ Cons.prems(3)]
      slot_skb_carries [OF that, of i] safe(1) that by fastforce
  from Cons.prems(2) Cons.hyps(2) [symmetric] show ?case
  proof (cases rule: recv_loop_turn [of st i "is" env, case_names no_skb fault refused handled])
    case no_skb
    then have "\<not> (\<forall>i. alloc_skb env i)" by blast
    from msgs_run.no_skb [OF this] no_skb(2) show ?thesis unfolding msgs
      by (intro exI [of _ "Inl NullDeref"] exI [of _ ?ms] conjI) simp_all
  next
    case (fault rq e)
    from outcome [OF fault(2)] fault(3) have "msg_outcome ?m A (Inl e)" by (auto dest: simulates_Inl)
    from faults [OF this] fault(4) show ?thesis unfolding msgs
      by (intro exI [of _ "Inl e"] exI [of _ ?ms] conjI) simp_all
  next
    case (refused rq rc st2)
    from outcome [OF refused(4)] refused(5) obtain A' where A': "msg_outcome ?m A (Inr (rc, A'))" "node_ok st2 A'"
      by (auto dest!: simulates_Inr)
    have "pending_msgs (recv_queue (daemon st2)) = ?ms" using refused by (simp add: pending_msgs_def)
    with msgs_run.refused [OF A'(1) refused(6)] A'(2) refused(8) show ?thesis unfolding msgs
      by (intro exI [of _ "Inr (- 1, A')"] exI [of _ ?ms] exI [of _ "Inr (- 1, st2)"]) simp
  next
    case (handled rq st2)
    from outcome [OF handled(4)] handled(5) obtain A' where A': "msg_outcome ?m A (Inr (0, A'))" "node_ok st2 A'"
      by (auto dest!: simulates_Inr)
    have ms: "pending_msgs (recv_queue (daemon st2)) = ?ms" using handled by (simp add: pending_msgs_def)
    from Cons.hyps(1) [of st2 A'] handled(2,3,6) A'(2) Cons.prems(3) safe(2) [OF A'(1)] ms obtain out left r where
      IH: "msgs_run (\<forall>i. alloc_skb env i) ?ms A' out left" "recv_loop env st2 = Some r" "simulates out r"
      "\<forall>rc st'. r = Inr (rc, st') \<longrightarrow> pending_msgs (recv_queue (daemon st')) = left" by auto
    from msgs_run.handled [OF A'(1) IH(1)] IH(2-4) handled(7) show ?thesis unfolding msgs by auto
  qed
qed

text \<open>
  C1. The interrupt handler refines the abstract protocol: on a well-formed node, whatever
  messages are pending, if no message asks for the removal of the last of several entries of a
  port, \<open>interrupt_callback\<close> has a behaviour of the specification run over the pending messages in
  order: it faults as the run does, or returns the run's result on a well-formed node that
  represents the run's connection lists, with exactly the messages the run leaves still pending.
\<close>

theorem interrupt_refines_spec:
  assumes "node_ok st A" and "ring_ok (recv_queue (daemon st))" and "\<not> recv_queue_lock (daemon st)"
    and "kernel_ok env" and "run_safe (pending_msgs (recv_queue (daemon st))) A"
  shows "\<exists>out left. msgs_run (\<forall>i. alloc_skb env i) (pending_msgs (recv_queue (daemon st))) A out left \<and>
    simulates out (interrupt_callback env st) \<and>
    (\<forall>rc st'. interrupt_callback env st = Inr (rc, st') \<longrightarrow> pending_msgs (recv_queue (daemon st')) = left)"
proof -
  let ?st = "st\<lparr>daemon := (daemon st)\<lparr>recv_queue_lock := True\<rparr>\<rparr>"
  have call: "interrupt_callback env st = rbind (of_loop (recv_loop env ?st)) (\<lambda>(rc, st1).
     Inr (rc, st1\<lparr>daemon := (daemon st1)\<lparr>recv_queue_lock := False\<rparr>\<rparr>))"
    using assms(3) by (simp add: interrupt_callback_def rdma_recv_def)
  have "node_ok ?st A" by (rule node_ok_same [OF assms(1)]) (simp add: tables_same_def)
  from recv_loop_simulates [OF this _ assms(4)] assms(2,5) obtain out left r where
    r: "msgs_run (\<forall>i. alloc_skb env i) (pending_msgs (recv_queue (daemon st))) A out left" "recv_loop env ?st = Some r" "simulates out r"
    "\<forall>rc st'. r = Inr (rc, st') \<longrightarrow> pending_msgs (recv_queue (daemon st')) = left" by auto
  show ?thesis
  proof (cases r)
    case (Inl e)
    with call r(2) have "interrupt_callback env st = Inl e" by simp
    with r(1,3) Inl show ?thesis by (intro exI [of _ out] exI [of _ left]) simp
  next
    case (Inr p)
    obtain rc st1 where p: "r = Inr (rc, st1)" using Inr by (cases p) simp
    let ?st' = "st1\<lparr>daemon := (daemon st1)\<lparr>recv_queue_lock := False\<rparr>\<rparr>"
    have i: "interrupt_callback env st = Inr (rc, ?st')" using call r(2) p by simp
    obtain A' where A': "out = Inr (rc, A')" "node_ok st1 A'" using r(3) p by (cases out) auto
    have "node_ok ?st' A'" by (rule node_ok_same [OF A'(2)]) (simp add: tables_same_def)
    with r(1,4) p i A'(1) show ?thesis by (intro exI [of _ out] exI [of _ left]) simp
  qed
qed

text \<open>A pending connection and one message in the ring, the peer's CONNECT_SUCCESS.\<close>

definition demo_called :: ltcp where
  "demo_called = with_recv_queue ((demo_ring 0 1)\<lparr>rq_queue := (\<lambda>_. demo_wire CONNECT_SUCCESS 2 1)\<rparr>) demo_pending"

lemma demo_called_ring:
  "ring_ok (recv_queue (daemon demo_called))" "\<not> recv_queue_lock (daemon demo_called)"
  "pending_msgs (recv_queue (daemon demo_called)) = [demo_wire CONNECT_SUCCESS 2 1]"
  by (simp_all add: demo_called_def with_recv_queue_def demo_ring_def ring_ok_def LTCP_MSG_QUEUE_SIZE pending_msgs_def
      pending_def slots_between_def demo_pending_def Let_def demo_node_def demo_rdma_def)

lemma demo_success_outcome:
  assumes "msgs_run True [demo_wire CONNECT_SUCCESS 2 1] (no_conns\<lparr>cs_incoming := at_8083 [(Some 600, 0x931F, 2)]\<rparr>) out left"
  shows "out = Inr (0, no_conns\<lparr>cs_conns := at_8083 [(Some 600, 0x931F, 2)]\<rparr>) \<and> left = []"
proof -
  let ?A = "no_conns\<lparr>cs_incoming := at_8083 [(Some 600, 0x931F, 2)]\<rparr>" and ?m = "demo_wire CONNECT_SUCCESS 2 1"
  have m: "msg_type ?m = CONNECT_SUCCESS" "msg_index ?m = 8083" "msg_rport ?m = 0x931F" "src_ip ?m = 2"
    using demo_port(1) by (simp_all add: demo_wire_def msg_index_def msg_lport_def msg_rport_def)
  have split: "split_key 0x931F 2 (cs_incoming ?A 8083) = Some ([], (Some 600, 0x931F, 2), [])"
    by (simp add: split_key_def at_8083_def has_key_def)
  have spec: "rcv_spec CONNECT_SUCCESS 8083 0x931F 2 c ?A = Inr (0, no_conns\<lparr>cs_conns := at_8083 [(Some 600, 0x931F, 2)]\<rparr>)" for c
    using split by (simp add: rcv_spec_def local_tcp_type_defs establish_def no_conns_def at_8083_def) (simp add: fun_eq_iff)
  have types: "CONNECT_SUCCESS \<noteq> CONNECT" by (simp add: local_tcp_type_defs)
  have o: "x = Inr (0, no_conns\<lparr>cs_conns := at_8083 [(Some 600, 0x931F, 2)]\<rparr>)" if "msg_outcome ?m ?A x" for x
    using that unfolding msg_outcome_def m by (rule success_outcomeE) (use spec types in simp_all)
  from assms show ?thesis
    by (rule msgs_run_ConsE) (auto dest: o elim: msgs_run_NilE)
qed

theorem interrupt_refines_spec_witness:
  "\<exists>st'. interrupt_callback demo_kenv demo_called = Inr (0, st') \<and>
     node_ok st' (no_conns\<lparr>cs_conns := at_8083 [(Some 600, 0x931F, 2)]\<rparr>)"
proof -
  let ?A = "no_conns\<lparr>cs_incoming := at_8083 [(Some 600, 0x931F, 2)]\<rparr>"
  have ok: "node_ok demo_called ?A"
    using node_ok_same [OF demo_pending_ok, of 0 demo_called]
    by (simp add: tables_same_def demo_called_def with_recv_queue_def demo_inbox_def)
  have "msg_safe (demo_wire CONNECT_SUCCESS 2 1) ?A"
    using demo_port
    by (simp add: msg_safe_def demo_wire_def msg_index_def msg_lport_def msg_rport_def local_tcp_type_defs
        unlink_safe_def split_key_def at_8083_def has_key_def)
  then have "run_safe (pending_msgs (recv_queue (daemon demo_called))) ?A" by (simp add: demo_called_ring)
  from interrupt_refines_spec [OF ok demo_called_ring(1,2) demo_kernel_ok this] obtain out left where
    r: "msgs_run (\<forall>i. alloc_skb demo_kenv i) [demo_wire CONNECT_SUCCESS 2 1] ?A out left"
    "simulates out (interrupt_callback demo_kenv demo_called)"
    by (auto simp: demo_called_ring)
  have "\<forall>i. alloc_skb demo_kenv i" by (simp add: demo_kenv_def)
  with r(1) demo_success_outcome [of out left] have "out = Inr (0, no_conns\<lparr>cs_conns := at_8083 [(Some 600, 0x931F, 2)]\<rparr>)" by simp
  with r(2) show ?thesis by simp
qed

end
