(* ===== verification/Data_Stream.thy ===== *)
theory Data_Stream
  imports Interrupt_Spec
begin

text \<open>
  Demultiplexing: data messages of several connections that are pending together reach the
  receive queues of their own sockets, in order.
\<close>

text \<open>The socket a message belongs to: that of the first established connection with its key.\<close>

definition owner :: "conn_state \<Rightarrow> ltcp_queue_msg \<Rightarrow> addr option" where
  "owner A m =
     (case split_key (msg_rport m) (src_ip m) (cs_conns A (msg_index m)) of
        None \<Rightarrow> None
      | Some (us, e, vs) \<Rightarrow> fst e)"

definition deliverable :: "conn_state \<Rightarrow> ltcp_queue_msg \<Rightarrow> bool" where
  "deliverable A m \<longleftrightarrow> msg_type m = REGULAR \<and> msg_index m < MAX_NUMBER_OF_PORTS \<and> owner A m \<noteq> None"

text \<open>The slots of a list that are delivered to a socket, and the socket after that.\<close>

definition slots_of :: "conn_state \<Rightarrow> ltcp_ring_queue \<Rightarrow> addr \<Rightarrow> nat list \<Rightarrow> nat list" where
  "slots_of A q s is = filter (\<lambda>i. owner A (rq_queue q i) = Some s) is"

definition slot_buffer :: "ltcp_ring_queue \<Rightarrow> addr \<Rightarrow> nat \<Rightarrow> sk_buff" where
  "slot_buffer q s i = \<lparr>skb_msg = i, iph_saddr = src_ip (rq_queue q i), iph_daddr = dest_ip (rq_queue q i), skb_sk = Some s\<rparr>"

definition delivered :: "conn_state \<Rightarrow> ltcp_ring_queue \<Rightarrow> nat list \<Rightarrow> addr \<Rightarrow> ltcp_sock \<Rightarrow> ltcp_sock" where
  "delivered A q is s k = k\<lparr>sk_receive_queue := sk_receive_queue k @ map (slot_buffer q s) (slots_of A q s is),
     sk_data_ready := sk_data_ready k + length (slots_of A q s is)\<rparr>"

lemma delivered_Nil [simp]: "delivered A q [] s k = k"
  by (simp add: delivered_def slots_of_def)

lemma delivered_Cons:
  "delivered A q (i # is) s k =
     delivered A q is s (if owner A (rq_queue q i) = Some s
       then k\<lparr>sk_receive_queue := sk_receive_queue k @ [slot_buffer q s i], sk_data_ready := sk_data_ready k + 1\<rparr> else k)"
  by (simp add: delivered_def slots_of_def)

lemma delivered_cong: "rq_queue q' = rq_queue q \<Longrightarrow> delivered A q' = delivered A q"
  by (simp add: delivered_def slots_of_def slot_buffer_def fun_eq_iff)

text \<open>One deliverable message.\<close>

lemma rcv_deliverable:
  assumes ok: "node_ok st A" and m: "deliverable A m" "owner A m = Some s"
    and carries: "skb_carries st skb (msg_type m) (msg_lport m) (msg_rport m)" "iph_saddr skb = src_ip m"
  shows "\<exists>k. socks st s = Some k \<and> local_tcp_rcv env skb st =
    Inr (0, st\<lparr>socks := (socks st)(s \<mapsto> k\<lparr>sk_receive_queue := sk_receive_queue k @ [skb\<lparr>skb_sk := Some s\<rparr>],
                                          sk_data_ready := sk_data_ready k + 1\<rparr>)\<rparr>)"
proof -
  obtain us e vs where sp: "split_key (msg_rport m) (src_ip m) (cs_conns A (msg_index m)) = Some (us, e, vs)"
    using m by (auto simp: owner_def split: option.splits)
  then have e: "fst e = Some s" using m(2) by (simp add: owner_def)
  note k = split_key_Some [OF sp]
  have i: "msg_index m = port_index (msg_lport m)" "msg_index m < MAX_NUMBER_OF_PORTS"
    using m(1) by (simp_all add: deliverable_def msg_index_def)
  have ee: "e = (Some s, msg_rport m, src_ip m)" using e k by (cases e) (simp add: has_key_def)
  have "e \<in> set (cs_conns A (msg_index m))" using k by simp
  then have "\<exists>s k. fst e = Some s \<and> socks st s = Some k"
    using ok i(2) unfolding node_ok_def socks_live_def by blast
  with e obtain k0 where k0: "socks st s = Some k0" by auto
  have rel: "node_rel st A" using ok by (simp add: node_ok_def)
  have conns: "cs_conns A (msg_index m) = us @ (Some s, msg_rport m, src_ip m) # vs" using k ee by simp
  have "local_tcp_rcv env skb st = rcv_regular (msg_lport m) (msg_rport m) (src_ip m) skb st"
    using rcv_dispatch(1) [of st skb] carries m(1) by (simp add: deliverable_def)
  with rcv_regular_found [OF rel i conns _ k0] k k0 show ?thesis by auto
qed

lemma stream_loop:
  assumes "node_ok st A" and "ring_ok (recv_queue (daemon st))" and "pending (recv_queue (daemon st)) = is"
    and "\<forall>i \<in> set is. deliverable A (rq_queue (recv_queue (daemon st)) i) \<and> alloc_skb env i"
  shows "\<exists>st'. recv_loop env st = Some (Inr (0, st')) \<and> pending (recv_queue (daemon st')) = [] \<and>
    node_ok st' A \<and> socks st' = (\<lambda>s. map_option (delivered A (recv_queue (daemon st)) is s) (socks st s))"
  using assms
proof (induction "is" arbitrary: st)
  case Nil
  from recv_loop_Nil [OF Nil(2,3), of env] obtain rq where
    "recv_loop env st = Some (Inr (0, with_recv_queue rq st))" "pending rq = []" by blast
  with with_recv_queue_ok [OF Nil(1), of rq] show ?case
    by (intro exI [of _ "with_recv_queue rq st"]) (simp add: with_recv_queue_def option.map_id0 [unfolded id_def] option.map_ident)
next
  case (Cons i "is")
  let ?q = "recv_queue (daemon st)" and ?m = "rq_queue (recv_queue (daemon st)) i"
  have d: "deliverable A ?m" and a: "alloc_skb env i" using Cons.prems(4) by simp_all
  then obtain s where s: "owner A ?m = Some s" by (auto simp: deliverable_def)
  have rcv: "\<exists>k. socks st s = Some k \<and> local_tcp_rcv env (slot_skb st i) (with_recv_queue rq st) =
      Inr (0, (with_recv_queue rq st)\<lparr>socks := (socks st)(s \<mapsto> k\<lparr>
        sk_receive_queue := sk_receive_queue k @ [slot_buffer ?q s i], sk_data_ready := sk_data_ready k + 1\<rparr>)\<rparr>)"
    if rq: "rq_queue rq = rq_queue ?q" for rq
  proof -
    have "skb_carries (with_recv_queue rq st) (slot_skb st i) (msg_type ?m) (msg_lport ?m) (msg_rport ?m)"
      "iph_saddr (slot_skb st i) = src_ip ?m"
      using slot_skb_carries [OF rq, of i] rq by simp_all
    from rcv_deliverable [OF with_recv_queue_ok [OF Cons.prems(1)] d s this, of env] show ?thesis
      by (auto simp: with_recv_queue_def slot_skb_def slot_buffer_def Let_def)
  qed
  from Cons.prems(2,3) show ?case
  proof (cases rule: recv_loop_turn [of st i "is" env, case_names no_skb fault refused handled])
    case no_skb
    with a show ?thesis by simp
  next
    case (fault rq e)
    from rcv [OF fault(2)] fault(3) show ?thesis by auto
  next
    case (refused rq rc st2)
    from rcv [OF refused(4)] refused(5,6) show ?thesis by auto
  next
    case (handled rq st2)
    from rcv [OF handled(4)] handled(5) obtain k where k: "socks st s = Some k" "st2 = (with_recv_queue rq st)\<lparr>
        socks := (socks st)(s \<mapsto> k\<lparr>sk_receive_queue := sk_receive_queue k @ [slot_buffer ?q s i],
                                    sk_data_ready := sk_data_ready k + 1\<rparr>)\<rparr>" by auto
    have "node_ok st2 A" by (rule node_ok_same [OF with_recv_queue_ok [OF Cons.prems(1), of rq]])
      (simp add: k(2) tables_same_def with_recv_queue_def)
    from Cons.IH [OF this] handled(2-4,6) Cons.prems(4) obtain st' where
      st': "recv_loop env st2 = Some (Inr (0, st'))" "pending (recv_queue (daemon st')) = []" "node_ok st' A"
      "socks st' = (\<lambda>x. map_option (delivered A rq is x) (socks st2 x))" by auto
    have "socks st' x = map_option (delivered A ?q (i # is) x) (socks st x)" for x
      unfolding st'(4) using delivered_cong [OF handled(4), of A] k s
      by (cases "x = s"; cases "socks st x") (simp_all add: delivered_Cons)
    with handled(7) st'(1-3) show ?thesis by (intro exI [of _ st']) (simp add: fun_eq_iff)
  qed
qed

text \<open>
  C8. Data reaches its sockets: when only data messages of established connections are pending,
  of any number of connections in any interleaving, the interrupt handler accepts them all; every
  socket's receive queue grows by exactly the messages of its own key, in the order of the ring,
  its \<open>sk_data_ready\<close> is called once for each, and no other socket and no connection list changes.
\<close>

theorem data_demultiplexed:
  assumes "node_ok st A" and "ring_ok (recv_queue (daemon st))" and "\<not> recv_queue_lock (daemon st)"
    and "\<forall>i \<in> set (pending (recv_queue (daemon st))). deliverable A (rq_queue (recv_queue (daemon st)) i) \<and> alloc_skb env i"
  shows "\<exists>st'. interrupt_callback env st = Inr (0, st') \<and> pending (recv_queue (daemon st')) = [] \<and> node_ok st' A \<and>
    socks st' = (\<lambda>s. map_option (delivered A (recv_queue (daemon st)) (pending (recv_queue (daemon st))) s) (socks st s))"
proof -
  let ?st = "st\<lparr>daemon := (daemon st)\<lparr>recv_queue_lock := True\<rparr>\<rparr>"
  have call: "interrupt_callback env st = rbind (of_loop (recv_loop env ?st)) (\<lambda>(rc, st1).
     Inr (rc, st1\<lparr>daemon := (daemon st1)\<lparr>recv_queue_lock := False\<rparr>\<rparr>))"
    using assms(3) by (simp add: interrupt_callback_def rdma_recv_def)
  have "node_ok ?st A" by (rule node_ok_same [OF assms(1)]) (simp add: tables_same_def)
  from stream_loop [OF this, of _ env] assms(2,4) obtain st1 where
    st1: "recv_loop env ?st = Some (Inr (0, st1))" "pending (recv_queue (daemon st1)) = []" "node_ok st1 A"
    "socks st1 = (\<lambda>s. map_option (delivered A (recv_queue (daemon st)) (pending (recv_queue (daemon st))) s) (socks st s))"
    by auto
  let ?st' = "st1\<lparr>daemon := (daemon st1)\<lparr>recv_queue_lock := False\<rparr>\<rparr>"
  have "node_ok ?st' A" by (rule node_ok_same [OF st1(3)]) (simp add: tables_same_def)
  with call st1 show ?thesis by (intro exI [of _ ?st']) simp
qed

text \<open>Two data messages in the ring of the established node.\<close>

definition demo_stream :: ltcp where
  "demo_stream = with_recv_queue ((demo_ring 0 2)\<lparr>rq_queue := (\<lambda>_. demo_wire REGULAR 2 1)\<rparr>) demo_established"

theorem data_demultiplexed_witness:
  "\<exists>st' k. interrupt_callback demo_kenv demo_stream = Inr (0, st') \<and> socks st' 600 = Some k \<and>
     map skb_msg (sk_receive_queue k) = [0, 1]"
proof -
  let ?A = "no_conns\<lparr>cs_conns := at_8083 [(Some 600, 0x931F, 2)]\<rparr>" and ?m = "demo_wire REGULAR 2 1"
  have "\<exists>s k. fst e = Some s \<and> socks demo_established s = Some k"
    if "e \<in> set (at_8083 [(Some 600, 0x931F, 2)] i)" for e i
    using that demo_socks(2) by (auto simp: at_8083_def split: if_splits)
  moreover have "socks demo_established s \<noteq> None" if "cs_listening no_conns i = Some s" for i s
    using that by (auto simp: no_conns_def demo_established_def demo_node_def Let_def split: if_splits)
  ultimately have "node_ok demo_established ?A"
    using demo_established_rel by (simp add: node_ok_def socks_live_def no_conns_def)
  from with_recv_queue_ok [OF this] have ok: "node_ok demo_stream ?A" by (simp add: demo_stream_def)
  have ring: "ring_ok (recv_queue (daemon demo_stream))" "\<not> recv_queue_lock (daemon demo_stream)"
    "pending (recv_queue (daemon demo_stream)) = [0, 1]" "rq_queue (recv_queue (daemon demo_stream)) = (\<lambda>_. ?m)"
    by (simp_all add: demo_stream_def with_recv_queue_def demo_ring_def ring_ok_def LTCP_MSG_QUEUE_SIZE
        pending_def slots_between_def demo_established_def Let_def demo_node_def demo_rdma_def upt_rec)
  have own: "owner ?A ?m = Some 600" "deliverable ?A ?m"
    using demo_port by (simp_all add: owner_def deliverable_def demo_wire_def msg_index_def msg_lport_def msg_rport_def
        split_key_def at_8083_def has_key_def)
  have "\<forall>i \<in> set (pending (recv_queue (daemon demo_stream))).
      deliverable ?A (rq_queue (recv_queue (daemon demo_stream)) i) \<and> alloc_skb demo_kenv i"
    using own ring by (simp add: demo_kenv_def)
  from data_demultiplexed [OF ok ring(1,2) this] obtain st' where
    st': "interrupt_callback demo_kenv demo_stream = Inr (0, st')"
    "socks st' = (\<lambda>s. map_option (delivered ?A (recv_queue (daemon demo_stream)) [0, 1] s) (socks demo_stream s))"
    by (auto simp: ring)
  have "socks demo_stream 600 = Some demo_new_sock"
    by (simp add: demo_stream_def with_recv_queue_def demo_socks(2))
  moreover have "sk_receive_queue demo_new_sock = []" by (simp add: demo_new_sock_def demo_listener_def)
  ultimately show ?thesis using st' own(1) ring(4)
    by (simp add: delivered_def slots_of_def slot_buffer_def)
qed

end
