(* ===== verification/Sock_Io.thy ===== *)
theory Sock_Io
  imports Ltcp_Prelude
begin

text \<open>
  What the user programs see of the system: a process with a connected socket. The results of
  the system calls are a script in the state (the reads in order, the keys typed, the results of
  \<open>socket\<close>, \<open>bind\<close>, \<open>listen\<close>, \<open>accept\<close> and \<open>connect\<close>), what the process does is
  accumulated (the messages written, the lines printed, the descriptors closed). Sleeps, times
  and \<open>setrlimit\<close> are not modelled.
\<close>

datatype out = Line string | Text "u8 list" | Received int "u8 list" | Round nat | Mark u8 | Invalid int

record proc =
  p_socket :: int
  p_bind :: int
  p_listen :: int
  p_accept :: int
  p_connect :: int
  p_reads :: "u8 list option list"
  p_stdin :: "u8 list"
  p_writes :: "u8 list list"
  p_out :: "out list"
  p_closed :: "int list"

definition say :: "out \<Rightarrow> proc \<Rightarrow> proc" where
  "say x p = p\<lparr>p_out := p_out p @ [x]\<rparr>"

definition close_fd :: "int \<Rightarrow> proc \<Rightarrow> proc" where
  "close_fd fd p = p\<lparr>p_closed := p_closed p @ [fd]\<rparr>"

text \<open>Bytes stored at an offset of a buffer.\<close>

definition overlay :: "'a list \<Rightarrow> nat \<Rightarrow> 'a list \<Rightarrow> 'a list" where
  "overlay buf off d = take off buf @ d @ drop (off + length d) buf"

text \<open>
  \<open>read(fd, buf + off, n)\<close>: the next result of the script, None an error; what arrives beyond
  the buffer is written beyond it. \<open>write(fd, buf + off, n)\<close> appends the bytes as a message.
\<close>

definition sock_read :: "nat \<Rightarrow> nat \<Rightarrow> u8 list \<Rightarrow> proc \<Rightarrow> (int \<times> u8 list \<times> proc) res" where
  "sock_read off n buf p =
     (case p_reads p of
        [] \<Rightarrow> Inl Blocked
      | None # rs \<Rightarrow> Inr (- 1, buf, p\<lparr>p_reads := rs\<rparr>)
      | Some bs # rs \<Rightarrow>
          let d = take n bs
          in if off + length d \<le> length buf
             then Inr (int (length d), overlay buf off d, p\<lparr>p_reads := rs\<rparr>)
             else Inl OutOfBounds)"

definition sock_write :: "nat \<Rightarrow> nat \<Rightarrow> u8 list \<Rightarrow> proc \<Rightarrow> proc res" where
  "sock_write off n buf p =
     (if off + n \<le> length buf then Inr (p\<lparr>p_writes := p_writes p @ [take n (drop off buf)]\<rparr>)
      else Inl OutOfBounds)"

subsection \<open>Facts the programs share\<close>

lemma length_overlay [simp]: "off + length d \<le> length buf \<Longrightarrow> length (overlay buf off d) = length buf"
  by (simp add: overlay_def)

lemma take_overlay: "off \<le> length buf \<Longrightarrow> take off (overlay buf off d) = take off buf"
  by (simp add: overlay_def)

lemma read_overlay: "off \<le> length buf \<Longrightarrow> take (length d) (drop off (overlay buf off d)) = d"
  by (simp add: overlay_def)

lemma nth_overlay_before: "j < off \<Longrightarrow> off \<le> length buf \<Longrightarrow> overlay buf off d ! j = buf ! j"
  by (simp add: overlay_def nth_append)

lemma sock_read_message:
  "p_reads p = Some bs # rs \<Longrightarrow> length bs \<le> n \<Longrightarrow> off + length bs \<le> length buf \<Longrightarrow>
   sock_read off n buf p = Inr (int (length bs), overlay buf off bs, p\<lparr>p_reads := rs\<rparr>)"
  by (simp add: sock_read_def)

lemma sock_read_Inr:
  assumes "sock_read off n buf p = Inr (r, buf', p')"
  shows "length buf' = length buf" "length (p_reads p) = Suc (length (p_reads p'))"
    "p_writes p' = p_writes p" "p_stdin p' = p_stdin p" "p_out p' = p_out p"
  using assms by (auto simp: sock_read_def Let_def split: list.splits option.splits if_splits)

lemma sock_write_ok:
  "off + n \<le> length buf \<Longrightarrow> sock_write off n buf p = Inr (p\<lparr>p_writes := p_writes p @ [take n (drop off buf)]\<rparr>)"
  by (simp add: sock_write_def)

lemma say_fields [simp]:
  "p_reads (say x p) = p_reads p" "p_writes (say x p) = p_writes p" "p_stdin (say x p) = p_stdin p"
  "p_out (say x p) = p_out p @ [x]" "p_closed (say x p) = p_closed p"
  by (simp_all add: say_def)

text \<open>A process at the start of a program whose system calls succeed.\<close>

definition demo_proc :: "u8 list \<Rightarrow> u8 list list \<Rightarrow> proc" where
  "demo_proc typed rs = \<lparr>p_socket = 3, p_bind = 0, p_listen = 0, p_accept = 4, p_connect = 0,
     p_reads = map Some rs, p_stdin = typed, p_writes = [], p_out = [], p_closed = []\<rparr>"

end
