(* ===== verification/Echo_Test.thy ===== *)
theory Echo_Test
  imports Sock_Io
begin

text \<open>
  The latency test (\<open>userspace_test/write_file\<close>): \<open>ping\<close> of the client sends messages of
  1, 2, 4, ... bytes up to the size of its buffer and waits for each to come back, \<open>pong\<close> of
  the server reads each and writes it back. \<open>sz\<close> is SEND_SIZE, the compile-time
  \<open>SEND_SIZE_MB * MB\<close>.
\<close>

definition MB_test :: nat where
  "MB_test = 1024 * 1024"

definition SEND_SIZE :: "nat \<Rightarrow> nat" where
  "SEND_SIZE SEND_SIZE_MB = SEND_SIZE_MB * MB_test"

definition ping_str :: "u8 list" where
  "ping_str = [0x70, 0x69, 0x6E, 0x67, 0]"

definition pong_str :: "u8 list" where
  "pong_str = [0x70, 0x6F, 0x6E, 0x67, 0]"

text \<open>\<open>strcpy\<close> of a literal to the start of the buffer.\<close>

definition strcpy :: "u8 list \<Rightarrow> u8 list \<Rightarrow> u8 list res" where
  "strcpy buf s = (if length s \<le> length buf then Inr (overlay buf 0 s) else Inl OutOfBounds)"

subsection \<open>Reading a message\<close>

text \<open>
  The loop both programs read with: every turn reads to the same place, \<open>r\<close> is a
  \<open>size_t\<close>, so an error counts as \<open>2 ^ 64 - 1\<close> bytes.
\<close>

function read_full :: "nat \<Rightarrow> nat \<Rightarrow> u64 \<Rightarrow> u8 list \<Rightarrow> proc \<Rightarrow> (u8 list \<times> proc) res" where
  "read_full off n tot buf p =
     rbind (sock_read off n buf p) (\<lambda>(r, buf', p').
     if r = 0 then Inr (buf', p')
     else let tot' = tot + of_int r
          in if of_nat n \<le> tot' then Inr (buf', p')
             else read_full off n tot' buf' p')"
  by pat_completeness auto
termination
  by (relation "measure (\<lambda>(off, n, tot, buf, p). length (p_reads p))") (auto dest: sock_read_Inr)

declare read_full.simps [simp del]

subsection \<open>The client\<close>

text \<open>The start of each megabyte of the message gets its number.\<close>

definition fill_marks :: "nat \<Rightarrow> u8 list \<Rightarrow> u8 list" where
  "fill_marks i buf = foldl (\<lambda>b j. b[j * MB_test := of_nat (j mod 256)]) buf [0..<(i + MB_test - 1) div MB_test]"

definition print_marks :: "nat \<Rightarrow> u8 list \<Rightarrow> proc \<Rightarrow> proc" where
  "print_marks i buf p = foldl (\<lambda>q j. say (Mark (buf ! (j * MB_test))) q) p [0..<(i + MB_test - 1) div MB_test]"

definition ping_round :: "nat \<Rightarrow> u8 list \<Rightarrow> proc \<Rightarrow> (u8 list \<times> proc) res" where
  "ping_round i tempbuff p =
     (let b1 = fill_marks i tempbuff
      in rbind (sock_write 0 i b1 p) (\<lambda>p1.
         rbind (read_full (i - 1) i 0 b1 p1) (\<lambda>(b2, p2).
         Inr (b2, print_marks i b2 (say (Round i) p2)))))"

text \<open>\<open>i\<close> is an \<open>int\<close>.\<close>

partial_function (option) ping_loop :: "nat \<Rightarrow> nat \<Rightarrow> u8 list \<Rightarrow> proc \<Rightarrow> (u8 list \<times> proc) res option" where
  "ping_loop sz i tempbuff p =
     (if i < sz then
        (case ping_round i tempbuff p of
           Inl e \<Rightarrow> Some (Inl e)
         | Inr (b, p1) \<Rightarrow> if i * 2 < 2 ^ 31 then ping_loop sz (i * 2) b p1 else Some (Inl Overflow))
      else Some (Inr (tempbuff, p)))"

text \<open>\<open>ping\<close> returns, or leaves the program with an exit code.\<close>

definition ping :: "nat \<Rightarrow> int \<Rightarrow> proc \<Rightarrow> (int option \<times> proc) res" where
  "ping sz fd p =
     rbind (strcpy (replicate sz 0) ping_str) (\<lambda>tempbuff.
     if p_connect p \<noteq> 0 then
       Inr (Some 1, close_fd fd (say (Line ''connection with the server failed...'') p))
     else rbind (sock_write 0 5 tempbuff p) (\<lambda>p1.
          rbind (sock_read 0 5 tempbuff p1) (\<lambda>(r, b, p2).
          rbind (read_cstring b) (\<lambda>s.
          rbind (of_loop (ping_loop sz 1 b (say (Text s) p2))) (\<lambda>(b1, p3). Inr (None, p3))))))"

definition echo_client_main :: "nat \<Rightarrow> int \<Rightarrow> proc \<Rightarrow> (int \<times> proc) res" where
  "echo_client_main sz argc p =
     (if argc \<noteq> 2 then Inr (- 1, say (Line ''Usage: ./client <IP-dest>. Example: ./client 127.0.0.1  1'') p)
      else if p_socket p = - 1 then Inr (1, say (Line ''socket creation failed...'') p)
      else rbind (ping sz (p_socket p) (say (Line ''Socket successfully created..'') p)) (\<lambda>(code, p1).
           Inr (case code of Some c \<Rightarrow> c | None \<Rightarrow> 0, p1)))"

subsection \<open>The server\<close>

text \<open>\<open>i\<close> is a \<open>size_t\<close>; \<open>i < sz\<close> keeps its double far below \<open>2 ^ 64\<close>.\<close>

partial_function (option) pong_loop :: "nat \<Rightarrow> nat \<Rightarrow> u8 list \<Rightarrow> proc \<Rightarrow> (u8 list \<times> proc) res option" where
  "pong_loop sz i tempbuff p =
     (if i < sz then
        (case rbind (read_full (i - 1) i 0 tempbuff p) (\<lambda>(b, p1).
              rbind (sock_write (i - 1) i b p1) (\<lambda>p2. Inr (b, p2))) of
           Inl e \<Rightarrow> Some (Inl e)
         | Inr (b, p2) \<Rightarrow> pong_loop sz (i * 2) b p2)
      else Some (Inr (tempbuff, p)))"

definition pong :: "nat \<Rightarrow> proc \<Rightarrow> (int option \<times> proc) res" where
  "pong sz p =
     (if p_accept p < 0 then Inr (Some 0, say (Line ''server accept failed...'') p)
      else rbind (sock_read 0 5 (replicate sz 0) p) (\<lambda>(r, b, p1).
           rbind (strcpy b pong_str) (\<lambda>b1.
           rbind (sock_write 0 5 b1 p1) (\<lambda>p2.
           rbind (read_cstring b1) (\<lambda>s.
           rbind (of_loop (pong_loop sz 1 b1 (say (Text s) p2))) (\<lambda>(b2, p3).
           Inr (None, close_fd (p_accept p3) p3)))))))"

definition echo_server_main :: "nat \<Rightarrow> int \<Rightarrow> proc \<Rightarrow> (int \<times> proc) res" where
  "echo_server_main sz argc p =
     (if argc \<noteq> 1 then Inr (- 1, say (Line ''Usage: ./server'') p)
      else if p_socket p = - 1 then Inr (0, say (Line ''socket creation failed...'') p)
      else let p1 = say (Line ''Socket successfully created..'') p
      in if p_bind p1 \<noteq> 0 then Inr (0, say (Line ''socket bind failed...'') p1)
      else let p2 = say (Line ''Socket successfully binded..'') p1
      in if p_listen p2 \<noteq> 0 then Inr (0, say (Line ''Listen failed...'') p2)
      else let p3 = say (Line ''Server listening..'') p2
      in rbind (pong sz p3) (\<lambda>(code, p4).
         case code of Some c \<Rightarrow> Inr (c, p4) | None \<Rightarrow> Inr (0, close_fd (p_socket p4) p4)))"

subsection \<open>One message\<close>

lemma read_full_message:
  assumes "p_reads p = Some bs # rs" and "length bs = n" and "0 < n" and "n < 2 ^ 64" and "off + n \<le> length buf"
  shows "read_full off n 0 buf p = Inr (overlay buf off bs, p\<lparr>p_reads := rs\<rparr>)"
  using assms by (subst read_full.simps) (simp add: sock_read_message Let_def)

lemma length_fill_marks [simp]: "length (fill_marks i buf) = length buf"
proof -
  have "length (foldl (\<lambda>b j. b[j * MB_test := f j]) buf js) = length buf" for f and js :: "nat list"
    by (induction js arbitrary: buf) simp_all
  then show ?thesis by (simp add: fill_marks_def)
qed

text \<open>The server reads a message of \<open>i\<close> bytes behind position \<open>i - 1\<close> and writes it back.\<close>

lemma pong_turn:
  assumes "p_reads p = Some w # rs" and "length w = i" and "0 < i" and "i < 2 ^ 64" and "i < sz"
    and "2 * i - 1 \<le> length buf"
  shows "pong_loop sz i buf p =
    pong_loop sz (i * 2) (overlay buf (i - 1) w) (p\<lparr>p_reads := rs, p_writes := p_writes p @ [w]\<rparr>)"
proof -
  have "i - 1 + i \<le> length buf" using assms(3,6) by linarith
  then show ?thesis
    using assms(1-5) read_full_message [OF assms(1,2,3,4), of "i - 1" buf] read_overlay [of "i - 1" buf w]
    by (subst pong_loop.simps) (simp add: sock_write_def)
qed

lemma pong_loop_done: "\<not> i < sz \<Longrightarrow> pong_loop sz i buf p = Some (Inr (buf, p))"
  by (subst pong_loop.simps) simp

lemma pong_overrun:
  assumes "p_reads p = Some w # rs" and "length w = i" and "0 < i" and "i < sz" and "length buf < 2 * i - 1"
  shows "pong_loop sz i buf p = Some (Inl OutOfBounds)"
proof -
  have "\<not> i - 1 + i \<le> length buf" "\<not> i + i - Suc 0 \<le> length buf" using assms(3,5) by linarith+
  then have "read_full (i - 1) i 0 buf p = Inl OutOfBounds"
    using assms(1,2,3) by (subst read_full.simps) (simp add: sock_read_def)
  with assms(4) show ?thesis by (subst pong_loop.simps) simp
qed

text \<open>Messages of doubling size, the first of \<open>i\<close> bytes.\<close>

fun doubling :: "nat \<Rightarrow> u8 list list \<Rightarrow> bool" where
  "doubling i [] = True"
| "doubling i (w # ws) = (length w = i \<and> doubling (i * 2) ws)"

lemma doubling_nth: "doubling i ws \<longleftrightarrow> (\<forall>j < length ws. length (ws ! j) = i * 2 ^ j)"
proof (induction ws arbitrary: i)
  case (Cons w ws)
  then show ?case by (auto simp: All_less_Suc2 mult.assoc)
qed simp

lemma pong_turns:
  assumes "doubling i ws" and "p_reads p = map Some ws @ rest" and "0 < i" and "length buf = sz"
    and "i * 2 ^ length ws \<le> sz" and "sz < 2 ^ 64"
  shows "\<exists>b p'. pong_loop sz i buf p = pong_loop sz (i * 2 ^ length ws) b p' \<and> length b = sz \<and>
    p' = p\<lparr>p_reads := rest, p_writes := p_writes p @ ws\<rparr>"
  using assms
proof (induction ws arbitrary: i buf p)
  case Nil
  then show ?case by (intro exI [of _ buf] exI [of _ p]) (cases p, simp)
next
  case (Cons w ws)
  let ?p = "p\<lparr>p_reads := map Some ws @ rest, p_writes := p_writes p @ [w]\<rparr>"
  have "i * 2 \<le> i * 2 ^ length (w # ws)" by simp
  then have le: "i * 2 \<le> sz" using Cons.prems(5) by linarith
  then have "pong_loop sz i buf p = pong_loop sz (i * 2) (overlay buf (i - 1) w) ?p"
    using Cons.prems by (intro pong_turn) auto
  moreover have "length (overlay buf (i - 1) w) = sz" using Cons.prems(1,3,4) le by simp
  then have "\<exists>b p'. pong_loop sz (i * 2) (overlay buf (i - 1) w) ?p = pong_loop sz (i * 2 * 2 ^ length ws) b p' \<and>
      length b = sz \<and> p' = ?p\<lparr>p_reads := rest, p_writes := p_writes ?p @ ws\<rparr>"
    using Cons.prems by (intro Cons.IH) (simp_all add: mult.assoc)
  ultimately show ?case by (auto simp: mult.assoc)
qed

text \<open>The client's messages, given that each comes back: they depend on its buffer only.\<close>

lemma print_marks_fields [simp]:
  "p_reads (print_marks i b p) = p_reads p" "p_writes (print_marks i b p) = p_writes p"
  "p_closed (print_marks i b p) = p_closed p"
proof -
  have "p_reads (foldl (\<lambda>q j. say (f j) q) p js) = p_reads p \<and> p_writes (foldl (\<lambda>q j. say (f j) q) p js) = p_writes p \<and>
      p_closed (foldl (\<lambda>q j. say (f j) q) p js) = p_closed p" for f and js :: "nat list"
    by (induction js arbitrary: p) simp_all
  then show "p_reads (print_marks i b p) = p_reads p" "p_writes (print_marks i b p) = p_writes p"
    "p_closed (print_marks i b p) = p_closed p"
    by (simp_all add: print_marks_def)
qed

lemma ping_turn:
  assumes "p_reads p = Some w # rs" and "w = take i (fill_marks i buf)" and "0 < i" and "i * 2 < 2 ^ 31" and "i < sz"
    and "2 * i - 1 \<le> length buf"
  shows "\<exists>p'. ping_loop sz i buf p = ping_loop sz (i * 2) (overlay (fill_marks i buf) (i - 1) w) p' \<and>
    p_reads p' = rs \<and> p_writes p' = p_writes p @ [w] \<and> p_closed p' = p_closed p"
proof -
  let ?b = "fill_marks i buf" and ?p1 = "p\<lparr>p_writes := p_writes p @ [w]\<rparr>"
  have le: "i - 1 + i \<le> length buf" using assms(3,6) by linarith
  then have "sock_write 0 i ?b p = Inr ?p1" by (simp add: sock_write_def assms(2))
  moreover have "read_full (i - 1) i 0 ?b ?p1 = Inr (overlay ?b (i - 1) w, ?p1\<lparr>p_reads := rs\<rparr>)"
    using assms(1-4) le by (intro read_full_message) auto
  ultimately have "ping_round i buf p = Inr (overlay ?b (i - 1) w,
      print_marks i (overlay ?b (i - 1) w) (say (Round i) (?p1\<lparr>p_reads := rs\<rparr>)))"
    by (simp add: ping_round_def Let_def)
  with assms(4,5) show ?thesis
    by (subst ping_loop.simps)
      (intro exI [of _ "print_marks i (overlay ?b (i - 1) w) (say (Round i) (?p1\<lparr>p_reads := rs\<rparr>))"], simp)
qed

lemma ping_turns:
  assumes "0 < i" and "sz = i * 2 ^ k" and "sz < 2 ^ 31" and "length buf = sz"
  shows "\<exists>ws. length ws = k \<and> doubling i ws \<and> (\<forall>p rest. p_reads p = map Some ws @ rest \<longrightarrow>
    (\<exists>b p'. ping_loop sz i buf p = Some (Inr (b, p')) \<and> p_reads p' = rest \<and> p_writes p' = p_writes p @ ws \<and>
      p_closed p' = p_closed p))"
  using assms
proof (induction k arbitrary: i buf)
  case 0
  then have "ping_loop sz i buf p = Some (Inr (buf, p))" for p by (subst ping_loop.simps) simp
  then show ?case by (intro exI [of _ "[]"]) simp
next
  case (Suc k)
  let ?w = "take i (fill_marks i buf)"
  let ?b = "overlay (fill_marks i buf) (i - 1) ?w"
  have sz: "sz = i * 2 * 2 ^ k" using Suc.prems(2) by simp
  then have le: "i * 2 \<le> sz" by simp
  have lw: "length ?w = i" using le Suc.prems(4) by simp
  have lb: "length ?b = sz" using le lw Suc.prems(1,4) by (subst length_overlay) auto
  from Suc.IH [of "i * 2", OF _ sz Suc.prems(3) lb] Suc.prems(1) obtain ws where
    ws: "length ws = k" "doubling (i * 2) ws"
    "\<And>p rest. p_reads p = map Some ws @ rest \<Longrightarrow> \<exists>b p'. ping_loop sz (i * 2) ?b p = Some (Inr (b, p')) \<and>
       p_reads p' = rest \<and> p_writes p' = p_writes p @ ws \<and> p_closed p' = p_closed p"
    by auto
  have "\<exists>b p'. ping_loop sz i buf p = Some (Inr (b, p')) \<and> p_reads p' = rest \<and> p_writes p' = p_writes p @ ?w # ws \<and>
      p_closed p' = p_closed p"
    if r: "p_reads p = map Some (?w # ws) @ rest" for p rest
  proof -
    have b: "i * 2 < 2 ^ 31" "i < sz" "2 * i - 1 \<le> length buf" using le Suc.prems(1,3,4) by linarith+
    from r have "p_reads p = Some ?w # (map Some ws @ rest)" by simp
    from ping_turn [OF this refl Suc.prems(1) b] obtain p1 where
      p1: "ping_loop sz i buf p = ping_loop sz (i * 2) ?b p1" "p_reads p1 = map Some ws @ rest"
      "p_writes p1 = p_writes p @ [?w]" "p_closed p1 = p_closed p" by blast
    from ws(3) [OF p1(2)] p1(1,3,4) show ?thesis by auto
  qed
  with ws(1,2) lw show ?case by (intro exI [of _ "?w # ws"]) simp
qed

subsection \<open>Properties\<close>

lemma send_size_power: "m \<le> 10 \<Longrightarrow> SEND_SIZE (2 ^ m) = 2 ^ (20 + m) \<and> (2 :: nat) ^ (20 + m) < 2 ^ 31 \<and> 5 \<le> (2 :: nat) ^ (20 + m)"
proof -
  assume "m \<le> 10"
  then have "(2 :: nat) ^ (20 + m) \<le> 2 ^ 30" by (intro power_increasing) simp_all
  moreover have "(2 :: nat) ^ 20 \<le> 2 ^ (20 + m)" by (rule power_increasing) simp_all
  moreover have "SEND_SIZE (2 ^ m) = 2 ^ (20 + m)" by (simp add: SEND_SIZE_def MB_test_def power_add)
  ultimately show ?thesis by (simp del: power_add)
qed

text \<open>What the client sends after the greeting, when every message comes back.\<close>

lemma ping_session:
  assumes "m \<le> 10"
  shows "\<exists>ws. length ws = 20 + m \<and> doubling 1 ws \<and> (\<exists>p. echo_client_main (SEND_SIZE (2 ^ m)) 2
      (demo_proc [] (pong_str # ws)) = Inr (0, p) \<and> p_writes p = ping_str # ws \<and> p_reads p = [])"
proof -
  define sz where "sz = (2 :: nat) ^ (20 + m)"
  have sz: "SEND_SIZE (2 ^ m) = sz" "sz < 2 ^ 31" "5 \<le> sz" "sz = 1 * 2 ^ (20 + m)"
    using send_size_power [OF assms] by (simp_all add: sz_def)
  let ?b0 = "overlay (replicate sz 0) 0 ping_str"
  let ?b1 = "overlay ?b0 0 pong_str"
  have l: "length ping_str = 5" "length pong_str = 5" "length ?b0 = sz" "length ?b1 = sz"
    using sz(3) by (simp_all add: ping_str_def pong_str_def)
  from ping_turns [OF zero_less_one sz(4,2) l(4)] obtain ws where ws: "length ws = 20 + m" "doubling 1 ws"
    "\<And>p rest. p_reads p = map Some ws @ rest \<Longrightarrow>
      \<exists>b p'. ping_loop sz 1 ?b1 p = Some (Inr (b, p')) \<and> p_reads p' = rest \<and> p_writes p' = p_writes p @ ws"
    by blast
  let ?p0 = "say (Line ''Socket successfully created..'') (demo_proc [] (pong_str # ws))"
  let ?p1 = "?p0\<lparr>p_writes := [ping_str]\<rparr>"
  let ?p2 = "say (Text (cstring ?b1)) (?p1\<lparr>p_reads := map Some ws\<rparr>)"
  have "take 5 ?b0 = ping_str" by (simp add: overlay_def l)
  then have w: "sock_write 0 5 ?b0 ?p0 = Inr ?p1"
    using sz(3) l by (simp add: sock_write_def demo_proc_def say_def)
  have r: "sock_read 0 5 ?b0 ?p1 = Inr (5, ?b1, ?p1\<lparr>p_reads := map Some ws\<rparr>)"
    using sock_read_message [of ?p1 pong_str "map Some ws" 5 0 ?b0] l sz(3) by (simp add: demo_proc_def say_def)
  have z: "0 \<in> set ?b1" by (simp add: overlay_def pong_str_def)
  obtain b p' where e: "ping_loop sz 1 ?b1 ?p2 = Some (Inr (b, p'))" "p_reads p' = []" "p_writes p' = p_writes ?p2 @ ws"
    using ws(3) [of ?p2 "[]"] by (auto simp: say_def)
  have "ping sz 3 ?p0 = Inr (None, p')"
    using w r z e(1) l sz(3) by (simp add: ping_def strcpy_def read_cstring_def demo_proc_def say_def)
  then have "echo_client_main sz 2 (demo_proc [] (pong_str # ws)) = Inr (0, p')"
    by (simp add: echo_client_main_def demo_proc_def)
  with ws(1,2) e(2,3) sz(1) show ?thesis by (intro exI [of _ ws]) (simp add: say_def)
qed

text \<open>The server on these messages.\<close>

lemma pong_session:
  assumes "m \<le> 10" and "length ws = 20 + m" and "doubling 1 ws"
  shows "\<exists>p. echo_server_main (SEND_SIZE (2 ^ m)) 1 (demo_proc [] (ping_str # ws)) = Inr (0, p) \<and>
      p_writes p = pong_str # ws \<and> p_reads p = [] \<and> p_closed p = [4, 3]"
proof -
  define sz where "sz = (2 :: nat) ^ (20 + m)"
  have sz: "SEND_SIZE (2 ^ m) = sz" "sz < 2 ^ 64" "5 \<le> sz" "1 * 2 ^ length ws \<le> sz"
    using send_size_power [OF assms(1)] assms(2) by (simp_all add: sz_def)
  let ?p0 = "say (Line ''Server listening..'') (say (Line ''Socket successfully binded..'')
    (say (Line ''Socket successfully created..'') (demo_proc [] (ping_str # ws))))"
  let ?b0 = "overlay (replicate sz 0) 0 ping_str"
  let ?b1 = "overlay ?b0 0 pong_str"
  have l: "length ping_str = 5" "length pong_str = 5" "length ?b0 = sz" "length ?b1 = sz"
    using sz(3) by (simp_all add: ping_str_def pong_str_def)
  let ?p1 = "?p0\<lparr>p_reads := map Some ws\<rparr>"
  let ?p2 = "say (Text (cstring ?b1)) (?p1\<lparr>p_writes := [pong_str]\<rparr>)"
  have r: "sock_read 0 5 (replicate sz 0) ?p0 = Inr (5, ?b0, ?p1)"
    using sock_read_message [of ?p0 ping_str "map Some ws" 5 0 "replicate sz 0"] l sz(3)
    by (simp add: demo_proc_def)
  have "take 5 ?b1 = pong_str" by (simp add: overlay_def l)
  then have w: "sock_write 0 5 ?b1 ?p1 = Inr (?p1\<lparr>p_writes := [pong_str]\<rparr>)"
    using sz(3) l by (simp add: sock_write_def demo_proc_def say_def)
  have z: "0 \<in> set ?b1" by (simp add: overlay_def pong_str_def)
  have "p_reads ?p2 = map Some ws @ []" by simp
  from pong_turns [OF assms(3) this _ l(4) sz(4,2)] obtain b where
    "pong_loop sz 1 ?b1 ?p2 = pong_loop sz (1 * 2 ^ length ws) b (?p2\<lparr>p_reads := [], p_writes := p_writes ?p2 @ ws\<rparr>)"
    by auto
  then have e: "pong_loop sz 1 ?b1 ?p2 = Some (Inr (b, ?p2\<lparr>p_reads := [], p_writes := p_writes ?p2 @ ws\<rparr>))"
    using pong_loop_done [of "1 * 2 ^ length ws" sz] assms(2) by (simp add: sz_def)
  let ?q = "close_fd 4 (?p2\<lparr>p_reads := [], p_writes := p_writes ?p2 @ ws\<rparr>)"
  have "pong sz ?p0 = Inr (None, ?q)"
    using r w z e l sz(3) by (simp add: pong_def strcpy_def read_cstring_def demo_proc_def say_def)
  then have "echo_server_main sz 1 (demo_proc [] (ping_str # ws)) = Inr (0, close_fd 3 ?q)"
    by (simp add: echo_server_main_def Let_def demo_proc_def say_def close_fd_def)
  with sz(1) show ?thesis by (simp add: close_fd_def say_def demo_proc_def)
qed

text \<open>
  C38. The latency test completes over any transport that delivers whole messages in order: for
  every power of two of megabytes up to the 1024 of the Makefile there are messages, one of
  \<open>2 ^ j\<close> bytes for each \<open>j\<close>, such that the client, given them as replies after the greeting,
  sends exactly these messages and exits with 0, and the server, given them, sends exactly these
  replies, closes both descriptors and exits with 0.
\<close>

theorem echo_session:
  assumes "m \<le> 10"
  shows "\<exists>ws. length ws = 20 + m \<and> (\<forall>j < 20 + m. length (ws ! j) = 2 ^ j) \<and>
    (\<exists>p. echo_client_main (SEND_SIZE (2 ^ m)) 2 (demo_proc [] (pong_str # ws)) = Inr (0, p) \<and>
       p_writes p = ping_str # ws \<and> p_reads p = []) \<and>
    (\<exists>p. echo_server_main (SEND_SIZE (2 ^ m)) 1 (demo_proc [] (ping_str # ws)) = Inr (0, p) \<and>
       p_writes p = pong_str # ws \<and> p_reads p = [] \<and> p_closed p = [4, 3])"
proof -
  from ping_session [OF assms] obtain ws where ws: "length ws = 20 + m" "doubling 1 ws"
    "\<exists>p. echo_client_main (SEND_SIZE (2 ^ m)) 2 (demo_proc [] (pong_str # ws)) = Inr (0, p) \<and>
       p_writes p = ping_str # ws \<and> p_reads p = []" by blast
  from ws(1,2) have "\<forall>j < 20 + m. length (ws ! j) = 2 ^ j" by (simp add: doubling_nth)
  with ws pong_session [OF assms ws(1,2)] show ?thesis by blast
qed

theorem echo_session_witness:
  "\<exists>ws. length ws = 30 \<and> (\<exists>p. echo_server_main (SEND_SIZE 1024) 1 (demo_proc [] (ping_str # ws)) = Inr (0, p) \<and>
       p_writes p = pong_str # ws)"
  using echo_session [of 10] by auto

text \<open>
  C40. With a buffer whose size is not a power of two the server overruns it: if \<open>2 ^ k\<close> is the
  largest power below \<open>sz\<close> and \<open>sz < 2 ^ (k + 1) - 1\<close>, the last message of a client that follows
  the protocol is read to position \<open>2 ^ k - 1\<close> and ends behind the buffer.
\<close>

theorem echo_buffer_overrun:
  assumes "2 ^ k < sz" and "sz < 2 ^ (k + 1) - 1" and "sz < 2 ^ 64"
    and "length ws = k" and "\<forall>j < k. length (ws ! j) = 2 ^ j" and "length w = 2 ^ k"
    and "p_reads p = map Some ws @ Some w # rest" and "length buf = sz"
  shows "pong_loop sz 1 buf p = Some (Inl OutOfBounds)"
proof -
  have d: "doubling 1 ws" using assms(4,5) by (simp add: doubling_nth)
  have "1 * 2 ^ length ws \<le> sz" using assms(1,4) by simp
  from pong_turns [OF d assms(7) zero_less_one assms(8) this assms(3)] obtain b p' where
    b: "pong_loop sz 1 buf p = pong_loop sz (2 ^ k) b p'" "length b = sz" "p_reads p' = Some w # rest"
    using assms(4) by auto
  have "pong_loop sz (2 ^ k) b p' = Some (Inl OutOfBounds)"
    by (rule pong_overrun [OF b(3) assms(6)]) (use assms(1,2) b(2) in simp_all)
  with b(1) show ?thesis by simp
qed

theorem echo_buffer_overrun_witness:
  "pong_loop (SEND_SIZE 3) 1 (replicate (SEND_SIZE 3) 0)
     (demo_proc [] (map (\<lambda>j. replicate (2 ^ j) 7) [0..<22])) = Some (Inl OutOfBounds)"
proof -
  let ?ws = "map (\<lambda>j. replicate (2 ^ j) 7) [0..<21]"
  have "[0..<22] = [0..<21] @ [21 :: nat]" by (simp add: upt_rec)
  then have "p_reads (demo_proc [] (map (\<lambda>j. replicate (2 ^ j) 7) [0..<22])) = map Some ?ws @ Some (replicate (2 ^ 21) 7) # []"
    by (simp add: demo_proc_def)
  then show ?thesis
    by (intro echo_buffer_overrun [of 21 _ ?ws]) (simp_all add: SEND_SIZE_def MB_test_def)
qed

text \<open>
  The numbers the client prints after each round say nothing about the reply: from the second
  message on they are the marks it stored itself, whatever came back.
\<close>

theorem printed_marks_ignore_reply:
  assumes "2 ^ Suc e \<le> length buf"
  shows "print_marks (2 ^ Suc e) (overlay (fill_marks (2 ^ Suc e) buf) (2 ^ Suc e - 1) reply) p =
    print_marks (2 ^ Suc e) (fill_marks (2 ^ Suc e) buf) p"
proof -
  let ?i = "(2 :: nat) ^ Suc e" and ?b = "fill_marks (2 ^ Suc e) buf"
  have before: "overlay ?b (?i - 1) reply ! (j * MB_test) = ?b ! (j * MB_test)"
    if "j < (?i + MB_test - 1) div MB_test" for j
  proof (rule nth_overlay_before)
    have "Suc j * MB_test \<le> ?i + MB_test - 1"
      using that by (meson Suc_leI div_times_less_eq_dividend dual_order.trans mult_le_mono1)
    then have "j * MB_test \<le> ?i - 1" by (simp add: MB_test_def)
    moreover have "even (j * MB_test)" by (simp add: MB_test_def)
    moreover have "odd (?i - 1)" by simp
    ultimately show "j * MB_test < ?i - 1" by (metis le_neq_implies_less)
  next
    show "?i - 1 \<le> length ?b" using assms by simp
  qed
  have "foldl (\<lambda>q j. say (Mark (f j)) q) q js = foldl (\<lambda>q j. say (Mark (g j)) q) q js"
    if "\<forall>j \<in> set js. f j = g j" for f g q and js :: "nat list"
    using that by (induction js arbitrary: q) simp_all
  with before show ?thesis unfolding print_marks_def by simp
qed

text \<open>
  A message that arrives in two reads is garbled: both parts are stored at the same place, so
  the second one overwrites the first.
\<close>

theorem segmented_message_garbled:
  assumes "p_reads p = Some a # Some b # rs" and "a \<noteq> []" and "b \<noteq> []" and "length a + length b = n"
    and "n < 2 ^ 64" and "off + n \<le> length buf"
  shows "read_full off n 0 buf p = Inr (overlay (overlay buf off a) off b, p\<lparr>p_reads := rs\<rparr>)"
proof -
  have l: "length a < n" "length b < n" "off + length a \<le> length buf" "off + length b \<le> length buf"
    using assms(2-4,6) by auto
  have u: "unat (of_nat (length a) :: u64) = length a" "unat (of_nat n :: u64) = n"
    "(0 :: u64) + of_nat (length a) + of_nat (length b) = of_nat n"
    using l assms(4,5) unat_of_nat64 [of "length a"] unat_of_nat64 [of n] by (simp_all flip: of_nat_add)
  then have "\<not> (of_nat n :: u64) \<le> of_nat (length a)" using l(1) by (simp add: word_le_nat_alt)
  with u l assms(1,2,3) show ?thesis
    by (subst read_full.simps, subst read_full.simps) (simp add: sock_read_message Let_def)
qed

end
