(* ===== verification/Chat_Program.thy ===== *)
theory Chat_Program
  imports Sock_Io
begin

text \<open>
  The chat program (\<open>userspace_test/commandprogram\<close>): the client's menu and its chat, the
  server's chat. A line is read from the keyboard character by character; at the end of the
  input \<open>getchar\<close> returns EOF for ever.
\<close>

definition BUFF_MAX :: nat where
  "BUFF_MAX = 4096 * 1024"

definition newline :: u8 where
  "newline = 0x0A"

definition exit_str :: "u8 list" where
  "exit_str = [0x65, 0x78, 0x69, 0x74]"

definition getchar :: "proc \<Rightarrow> u8 \<times> proc" where
  "getchar p = (case p_stdin p of [] \<Rightarrow> (0xFF, p) | c # cs \<Rightarrow> (c, p\<lparr>p_stdin := cs\<rparr>))"

text \<open>
  \<open>while (((buff[n++] = getchar()) != '\n') && n < MAX-1)\<close>. In \<open>main\<close> the index is a
  \<open>char\<close>; its buffer of 20 bytes ends before the index can wrap.
\<close>

function read_line :: "nat \<Rightarrow> u8 list \<Rightarrow> proc \<Rightarrow> (nat \<times> u8 list \<times> proc) res" where
  "read_line n buff p =
     (if n < length buff then
        (case getchar p of (c, p') \<Rightarrow>
           if c \<noteq> newline \<and> n + 1 < BUFF_MAX - 1 then read_line (n + 1) (buff[n := c]) p'
           else Inr (n + 1, buff[n := c], p'))
      else Inl OutOfBounds)"
  by pat_completeness auto
termination
  by (relation "measure (\<lambda>(n, buff, p). length buff - n)") auto

declare read_line.simps [simp del]

text \<open>\<open>buff[n++] = '\0'\<close>.\<close>

definition end_line :: "nat \<Rightarrow> u8 list \<Rightarrow> (nat \<times> u8 list) res" where
  "end_line n buff = (if n < length buff then Inr (n + 1, buff[n := 0]) else Inl OutOfBounds)"

definition is_exit :: "u8 list \<Rightarrow> bool" where
  "is_exit buff \<longleftrightarrow> take 4 buff = exit_str"

subsection \<open>The two chats\<close>

text \<open>
  One turn of the loop in \<open>chat\<close> of the client; the result says whether the loop is left. The
  automatic \<open>buff\<close> is the same memory in every turn.
\<close>

definition chat_turn :: "u8 list \<Rightarrow> proc \<Rightarrow> (bool \<times> u8 list \<times> proc) res" where
  "chat_turn buff p =
     rbind (read_line 0 buff (say (Line ''Write message: '') p)) (\<lambda>(n, b1, p1).
     rbind (end_line n b1) (\<lambda>(n2, b2).
     if is_exit b2 then Inr (True, b2, say (Line ''Server Exit...'') p1)
     else rbind (sock_write 0 n2 b2 p1) (\<lambda>p2.
          rbind (sock_read 0 BUFF_MAX b2 p2) (\<lambda>(r, b3, p3).
          rbind (read_cstring b3) (\<lambda>s.
          Inr (False, b3, say (Received r s) p3))))))"

text \<open>One turn of the loop in \<open>func\<close> of the server.\<close>

definition func_turn :: "u8 list \<Rightarrow> proc \<Rightarrow> (bool \<times> u8 list \<times> proc) res" where
  "func_turn buff p =
     rbind (sock_read 0 BUFF_MAX buff p) (\<lambda>(r, b1, p1).
     rbind (read_cstring b1) (\<lambda>s.
     rbind (read_line 0 b1 (say (Line ''Write message: '') (say (Received r s) p1))) (\<lambda>(n, b2, p2).
     rbind (end_line n b2) (\<lambda>(n2, b3).
     rbind (sock_write 0 n2 b3 p2) (\<lambda>p3.
     if is_exit b3 then Inr (True, b3, say (Line ''Server Exit...'') p3)
     else Inr (False, b3, p3))))))"

text \<open>Every turn that does not leave the loop has read from the socket.\<close>

lemma getchar_fields [simp]:
  "p_reads (snd (getchar p)) = p_reads p" "p_writes (snd (getchar p)) = p_writes p"
  "p_out (snd (getchar p)) = p_out p" "p_closed (snd (getchar p)) = p_closed p"
  "length (p_stdin (snd (getchar p))) = length (p_stdin p) - 1"
  by (simp_all add: getchar_def split: list.split)

lemma read_line_frame:
  "read_line n buff p = Inr (m, b, p') \<Longrightarrow> p_reads p' = p_reads p \<and> p_writes p' = p_writes p \<and>
     length b = length buff \<and> length (p_stdin p') \<le> length (p_stdin p) - 1"
proof (induction n buff p rule: read_line.induct)
  case (1 n buff p)
  obtain c p1 where g: "getchar p = (c, p1)" by (cases "getchar p")
  then have "snd (getchar p) = p1" by simp
  with getchar_fields [of p] have f: "p_reads p1 = p_reads p" "p_writes p1 = p_writes p"
    "length (p_stdin p1) = length (p_stdin p) - 1" by simp_all
  show ?case
  proof (cases "n < length buff \<and> c \<noteq> newline \<and> n + 1 < BUFF_MAX - 1")
    case True
    then have "read_line (n + 1) (buff[n := c]) p1 = Inr (m, b, p')"
      using 1(2) g by (subst (asm) read_line.simps [of n]) simp
    with True 1(1) [OF _ g [symmetric]] f show ?thesis by fastforce
  next
    case False
    with 1(2) g f show ?thesis
      by (subst (asm) read_line.simps) (auto split: if_splits)
  qed
qed

lemma say_stdin [simp]: "p_stdin (say x p) = p_stdin p"
  by (simp add: say_def)

lemma chat_turn_frame:
  assumes "chat_turn buff p = Inr (left, b, p')"
  shows "length (p_stdin p') \<le> length (p_stdin p)" "\<not> left \<Longrightarrow> length (p_reads p') < length (p_reads p)"
proof -
  from assms obtain n b1 p1 where a: "read_line 0 buff (say (Line ''Write message: '') p) = Inr (n, b1, p1)"
    by (auto simp: chat_turn_def rbind_eq_Inr)
  note f = read_line_frame [OF a]
  have "length (p_stdin p') = length (p_stdin p1) \<and> (\<not> left \<longrightarrow> length (p_reads p1) = Suc (length (p_reads p')))"
    using assms a sock_read_Inr
    by (fastforce simp: chat_turn_def rbind_eq_Inr sock_write_def split: if_splits)
  with f show "length (p_stdin p') \<le> length (p_stdin p)" "\<not> left \<Longrightarrow> length (p_reads p') < length (p_reads p)"
    by auto
qed

lemma func_turn_frame:
  assumes "func_turn buff p = Inr (left, b, p')"
  shows "length (p_reads p') < length (p_reads p)"
proof -
  from assms obtain r b1 p1 where a: "sock_read 0 BUFF_MAX buff p = Inr (r, b1, p1)"
    by (auto simp: func_turn_def rbind_eq_Inr)
  with assms have "length (p_reads p') = length (p_reads p1)"
    using read_line_frame
    by (fastforce simp: func_turn_def rbind_eq_Inr sock_write_def split: if_splits)
  with sock_read_Inr(2) [OF a] show ?thesis by simp
qed

function chat_loop :: "u8 list \<Rightarrow> proc \<Rightarrow> (u8 list \<times> proc) res" where
  "chat_loop buff p =
     rbind (chat_turn buff p) (\<lambda>(left, b, p'). if left then Inr (b, p') else chat_loop b p')"
  by pat_completeness auto
termination
  by (relation "measure (\<lambda>(buff, p). length (p_reads p))") (auto dest: chat_turn_frame(2))

function func :: "u8 list \<Rightarrow> proc \<Rightarrow> (u8 list \<times> proc) res" where
  "func buff p =
     rbind (func_turn buff p) (\<lambda>(left, b, p'). if left then Inr (b, p') else func b p')"
  by pat_completeness auto
termination
  by (relation "measure (\<lambda>(buff, p). length (p_reads p))") (auto dest: func_turn_frame)

declare chat_loop.simps [simp del] func.simps [simp del]

definition chat :: "u8 list \<Rightarrow> proc \<Rightarrow> (u8 list \<times> proc) res" where
  "chat buff p = chat_loop buff (say (Line ''Write exit to quit the program.'') p)"

subsection \<open>The programs\<close>

text \<open>
  One turn of the client's menu. The first character goes to \<open>function\<close>, the rest of the line
  to \<open>buff[20]\<close>, and the choice is made by \<open>buff[0]\<close>. \<open>chat_buff\<close> is what the stack holds
  when \<open>chat\<close> starts. The result is an exit code or None.
\<close>

definition menu_turn :: "int \<Rightarrow> u8 list \<Rightarrow> u8 list \<Rightarrow> proc \<Rightarrow> (int option \<times> u8 list \<times> u8 list \<times> proc) res" where
  "menu_turn sockfd chat_buff buff p =
     (case getchar (say (Line ''What do you want to do:'') p) of (function, p1) \<Rightarrow>
      rbind (read_line 0 buff p1) (\<lambda>(n, b, p2).
      if b ! 0 = 0x63 then
        rbind (chat chat_buff p2) (\<lambda>(cb, p3). Inr (None, cb, b, p3))
      else if b ! 0 = 0x71 then
        Inr (Some 0, chat_buff, b, close_fd sockfd (say (Line ''Closing program...'') p2))
      else if b ! 0 \<in> set (0x70 # map of_nat [0x31..<0x38]) then
        Inr (None, chat_buff, b, say (Line ''Not yet implemented'') p2)
      else Inr (None, chat_buff, b, say (Invalid (uint function)) p2)))"

lemma chat_loop_stdin: "chat_loop buff p = Inr (b, p') \<Longrightarrow> length (p_stdin p') \<le> length (p_stdin p)"
proof (induction buff p rule: chat_loop.induct)
  case (1 buff p)
  from 1(2) obtain left b1 p1 where t: "chat_turn buff p = Inr (left, b1, p1)"
    and r: "(if left then Inr (b1, p1) else chat_loop b1 p1) = Inr (b, p')"
    by (subst (asm) chat_loop.simps) (auto simp: rbind_eq_Inr)
  from chat_turn_frame(1) [OF t] 1(1) [OF t refl refl] r show ?case by (cases left) auto
qed

lemma chat_stdin: "chat buff p = Inr (b, p') \<Longrightarrow> length (p_stdin p') \<le> length (p_stdin p)"
  using chat_loop_stdin [of buff "say (Line ''Write exit to quit the program.'') p"] by (simp add: chat_def)

text \<open>At the end of the input the line never ends: it runs over any buffer shorter than \<open>BUFF_MAX\<close>.\<close>

lemma read_line_eof: "p_stdin p = [] \<Longrightarrow> length buff < BUFF_MAX - 1 \<Longrightarrow> read_line n buff p = Inl OutOfBounds"
proof (induction n buff p rule: read_line.induct)
  case (1 n buff p)
  have g: "getchar p = (0xFF, p)" using 1(2) by (simp add: getchar_def)
  have c: "(0xFF :: u8) \<noteq> newline" by (simp add: newline_def)
  show ?case
  proof (cases "n < length buff")
    case True
    then have "n + 1 < BUFF_MAX - 1" using 1(3) by simp
    with True c g 1(1) [OF True g [symmetric]] 1(2,3) show ?thesis by (subst read_line.simps) simp
  next
    case False
    then show ?thesis by (subst read_line.simps) simp
  qed
qed

lemma menu_turn_frame:
  assumes "menu_turn fd cb buff p = Inr (code, cb', b, p')" and "length buff < BUFF_MAX - 1"
  shows "length (p_stdin p') < length (p_stdin p)" "length b = length buff"
proof -
  obtain c p1 where g: "getchar (say (Line ''What do you want to do:'') p) = (c, p1)" by fastforce
  then have p1: "length (p_stdin p1) = length (p_stdin p) - 1"
    using getchar_fields(5) [of "say (Line ''What do you want to do:'') p"] by simp
  from assms(1) g obtain n b1 p2 where r: "read_line 0 buff p1 = Inr (n, b1, p2)"
    by (auto simp: menu_turn_def rbind_eq_Inr)
  have "p_stdin p1 \<noteq> []" using r read_line_eof [of p1 buff 0] assms(2) by auto
  moreover note read_line_frame [OF r]
  moreover have "length (p_stdin p') \<le> length (p_stdin p2) \<and> b = b1"
    using assms(1) g r chat_stdin by (fastforce simp: menu_turn_def rbind_eq_Inr close_fd_def split: if_splits)
  ultimately show "length (p_stdin p') < length (p_stdin p)" "length b = length buff"
    using p1 by (cases "p_stdin p1"; auto)+
qed

partial_function (option) menu_loop :: "int \<Rightarrow> u8 list \<Rightarrow> u8 list \<Rightarrow> proc \<Rightarrow> (int \<times> proc) res option" where
  "menu_loop sockfd chat_buff buff p =
     (case menu_turn sockfd chat_buff buff p of
        Inl e \<Rightarrow> Some (Inl e)
      | Inr (code, cb, b, p') \<Rightarrow>
          (case code of Some c \<Rightarrow> Some (Inr (c, p')) | None \<Rightarrow> menu_loop sockfd cb b p'))"

definition chat_client_main :: "u8 list \<Rightarrow> u8 list \<Rightarrow> int \<Rightarrow> proc \<Rightarrow> (int \<times> proc) res" where
  "chat_client_main chat_buff buff argc p =
     (if argc \<noteq> 2 then Inr (- 1, say (Line ''Usage: ./client <IP-dest>. Example: ./client 127.0.0.1'') p)
      else if p_socket p = - 1 then Inr (1, say (Line ''socket creation failed...'') p)
      else let p1 = say (Line ''Socket successfully created..'') p
      in if p_connect p1 \<noteq> 0 then
           Inr (1, close_fd (p_socket p1) (say (Line ''connection with the server failed...'') p1))
      else of_loop (menu_loop (p_socket p1) chat_buff buff (say (Line ''connected to the server..'') p1)))"

definition chat_server_main :: "u8 list \<Rightarrow> proc \<Rightarrow> (int \<times> proc) res" where
  "chat_server_main chat_buff p =
     (if p_socket p = - 1 then Inr (0, say (Line ''socket creation failed...'') p)
      else let p1 = say (Line ''Socket successfully created..'') p
      in if p_bind p1 \<noteq> 0 then Inr (0, say (Line ''socket bind failed...'') p1)
      else let p2 = say (Line ''Socket successfully binded..'') p1
      in if p_listen p2 \<noteq> 0 then Inr (0, say (Line ''Listen failed...'') p2)
      else let p3 = say (Line ''Server listening..'') p2
      in if p_accept p3 < 0 then Inr (0, say (Line ''server accept failed...'') p3)
      else rbind (func chat_buff (say (Line ''server accept the client...'') p3)) (\<lambda>(b, p4).
           Inr (0, close_fd (p_accept p4) (close_fd (p_socket p4) p4))))"

subsection \<open>Reading a line\<close>

lemma read_line_line:
  "p_stdin p = l @ newline # rest \<Longrightarrow> newline \<notin> set l \<Longrightarrow> n + length l < length buff \<Longrightarrow>
   n + length l < BUFF_MAX - 1 \<Longrightarrow>
   read_line n buff p = Inr (n + length l + 1, overlay buff n (l @ [newline]), p\<lparr>p_stdin := rest\<rparr>)"
proof (induction l arbitrary: n buff p)
  case Nil
  then have "getchar p = (newline, p\<lparr>p_stdin := rest\<rparr>)" by (simp add: getchar_def)
  with Nil show ?case by (subst read_line.simps) (simp add: overlay_def upd_conv_take_nth_drop)
next
  case (Cons c l)
  let ?p = "p\<lparr>p_stdin := l @ newline # rest\<rparr>"
  have g: "getchar p = (c, ?p)" using Cons.prems(1) by (simp add: getchar_def)
  have "c \<noteq> newline" using Cons.prems(2) by auto
  then have "read_line n buff p = read_line (n + 1) (buff[n := c]) ?p"
    using Cons.prems(3,4) g by (subst read_line.simps) simp
  also have "\<dots> = Inr (n + 1 + length l + 1, overlay (buff[n := c]) (n + 1) (l @ [newline]), ?p\<lparr>p_stdin := rest\<rparr>)"
    using Cons.prems(2-4) by (intro Cons.IH) simp_all
  also have "overlay (buff[n := c]) (n + 1) (l @ [newline]) = overlay buff n ((c # l) @ [newline])"
    using Cons.prems(3) by (simp add: overlay_def take_Suc_conv_app_nth)
  finally show ?case by simp
qed

lemma read_line_no_newline:
  "newline \<notin> set (take (length buff - n) (p_stdin p)) \<Longrightarrow> n \<le> length buff \<Longrightarrow> length buff < BUFF_MAX - 1 \<Longrightarrow>
   read_line n buff p = Inl OutOfBounds"
proof (induction "length buff - n" arbitrary: n buff p)
  case 0
  then show ?case by (subst read_line.simps) simp
next
  case (Suc k)
  obtain c p1 where g: "getchar p = (c, p1)" by (cases "getchar p")
  have n: "n < length buff" using Suc.hyps(2) by simp
  have c: "c \<noteq> newline" "newline \<notin> set (take k (p_stdin p1))"
    using g Suc.prems(1) unfolding Suc.hyps(2) [symmetric]
    by (auto simp: getchar_def newline_def split: list.splits)
  have "read_line n buff p = read_line (n + 1) (buff[n := c]) p1"
    using n c(1) g Suc.prems(3) by (subst read_line.simps) simp
  moreover have "read_line (n + 1) (buff[n := c]) p1 = Inl OutOfBounds"
  proof (rule Suc.hyps(1))
    show k: "k = length (buff[n := c]) - (n + 1)" using Suc.hyps(2) by simp
    show "newline \<notin> set (take (length (buff[n := c]) - (n + 1)) (p_stdin p1))" using c(2) unfolding k .
  qed (use Suc.prems(3) n in simp_all)
  ultimately show ?case by simp
qed

text \<open>
  The client's menu overruns its buffer: the line read into \<open>buff[20]\<close> is bounded by the
  size of another array, so the program writes behind the buffer exactly when the first 20
  characters typed after the first one hold no newline, also at the end of the input.
\<close>

theorem menu_line_overrun:
  assumes "length buff = 20"
  shows "read_line 0 buff p = Inl OutOfBounds \<longleftrightarrow> newline \<notin> set (take 20 (p_stdin p))"
proof
  assume "newline \<notin> set (take 20 (p_stdin p))"
  then show "read_line 0 buff p = Inl OutOfBounds"
    using assms by (intro read_line_no_newline) (simp_all add: BUFF_MAX_def)
next
  assume oob: "read_line 0 buff p = Inl OutOfBounds"
  show "newline \<notin> set (take 20 (p_stdin p))"
  proof
    assume "newline \<in> set (take 20 (p_stdin p))"
    then obtain l r where l: "take 20 (p_stdin p) = l @ newline # r" "newline \<notin> set l"
      using split_list_first by fastforce
    then have "p_stdin p = l @ newline # (r @ drop 20 (p_stdin p))"
      by (metis append_Cons append_assoc append_take_drop_id)
    moreover have "length l < 20" using arg_cong [OF l(1), of length] by simp
    ultimately have "\<exists>x. read_line 0 buff p = Inr x"
      using read_line_line [of p l _ 0 buff] l(2) assms by (auto simp: BUFF_MAX_def)
    with oob show False by simp
  qed
qed

theorem menu_line_overrun_witness:
  "read_line 0 (replicate 20 0) (demo_proc (replicate 20 0x61 @ [newline]) []) = Inl OutOfBounds \<and>
   read_line 0 (replicate 20 0) (demo_proc (replicate 19 0x61 @ [newline]) []) \<noteq> Inl OutOfBounds"
  using menu_line_overrun [of "replicate 20 0" "demo_proc (replicate 20 0x61 @ [newline]) []"]
    menu_line_overrun [of "replicate 20 0" "demo_proc (replicate 19 0x61 @ [newline]) []"]
  by (simp add: demo_proc_def newline_def)

subsection \<open>Turns of the chats\<close>

text \<open>
  A line that fits, without zero bytes, and the message it is sent as; what a process has
  printed of received messages.
\<close>

definition line_ok :: "u8 list \<Rightarrow> bool" where
  "line_ok l \<longleftrightarrow> newline \<notin> set l \<and> 0 \<notin> set l \<and> length l < BUFF_MAX - 1"

definition typed :: "u8 list list \<Rightarrow> u8 list" where
  "typed ls = concat (map (\<lambda>l. l @ [newline]) ls)"

definition message :: "u8 list \<Rightarrow> u8 list" where
  "message l = l @ [newline, 0]"

fun heard :: "out list \<Rightarrow> u8 list list" where
  "heard [] = []"
| "heard (Received r s # xs) = s # heard xs"
| "heard (x # xs) = heard xs"

lemma heard_append [simp]: "heard (xs @ ys) = heard xs @ heard ys"
  by (induction xs rule: heard.induct) simp_all

text \<open>A line typed into a buffer of the chat's size, and the line ended.\<close>

lemma line_in_buffer:
  assumes "line_ok l" and "p_stdin p = l @ newline # rest" and "length buff = BUFF_MAX"
  shows "read_line 0 buff p = Inr (length l + 1, overlay buff 0 (l @ [newline]), p\<lparr>p_stdin := rest\<rparr>)"
    "end_line (length l + 1) (overlay buff 0 (l @ [newline])) = Inr (length l + 2, overlay buff 0 (message l))"
    "length (overlay buff 0 (message l)) = BUFF_MAX" "take (length l + 2) (overlay buff 0 (message l)) = message l"
    "cstring (overlay buff 0 (message l)) = l @ [newline]" "0 \<in> set (overlay buff 0 (message l))"
proof -
  have len: "length l + 2 \<le> length buff" using assms(1,3) by (simp add: line_ok_def BUFF_MAX_def)
  show "read_line 0 buff p = Inr (length l + 1, overlay buff 0 (l @ [newline]), p\<lparr>p_stdin := rest\<rparr>)"
    using read_line_line [of p l rest 0 buff] assms by (simp add: line_ok_def BUFF_MAX_def)
  have "(overlay buff 0 (l @ [newline]))[length l + 1 := 0] = overlay buff 0 (message l)"
    using len by (simp add: overlay_def message_def list_update_append Cons_nth_drop_Suc [symmetric])
  then show "end_line (length l + 1) (overlay buff 0 (l @ [newline])) = Inr (length l + 2, overlay buff 0 (message l))"
    using len by (simp add: end_line_def)
  show "length (overlay buff 0 (message l)) = BUFF_MAX"
    using len assms(3) by (subst length_overlay) (simp_all add: message_def)
  show "take (length l + 2) (overlay buff 0 (message l)) = message l" by (simp add: overlay_def message_def)
  have nz: "takeWhile (\<lambda>b. b \<noteq> 0) (l @ ys) = l @ takeWhile (\<lambda>b. b \<noteq> 0) ys" for ys
    using assms(1) by (intro takeWhile_append2) (auto simp: line_ok_def)
  show "cstring (overlay buff 0 (message l)) = l @ [newline]" "0 \<in> set (overlay buff 0 (message l))"
    by (simp_all add: overlay_def message_def cstring_def newline_def nz)
qed

lemma is_exit_message: "line_ok l \<Longrightarrow> is_exit (overlay buff 0 (message l)) \<longleftrightarrow> take 4 l = exit_str"
proof -
  assume ok: "line_ok l"
  have e: "newline \<notin> set exit_str" "length exit_str = 4" by (simp_all add: exit_str_def newline_def)
  show ?thesis
  proof (cases "4 \<le> length l")
    case True
    then show ?thesis by (simp add: is_exit_def overlay_def message_def)
  next
    case False
    then have "newline \<in> set (take 4 (overlay buff 0 (message l)))"
      by (simp add: overlay_def message_def take_Cons' split: if_splits)
    moreover have "length (take 4 l) \<noteq> 4" using False by simp
    ultimately show ?thesis using e unfolding is_exit_def by metis
  qed
qed

lemma chat_turn_line:
  assumes "line_ok l" and "p_stdin p = l @ newline # rest" and "take 4 l \<noteq> exit_str"
    and "line_ok s" and "p_reads p = Some (message s) # rs" and "length buff = BUFF_MAX"
  shows "\<exists>b p'. chat_turn buff p = Inr (False, b, p') \<and> length b = BUFF_MAX \<and> p_stdin p' = rest \<and>
    p_reads p' = rs \<and> p_writes p' = p_writes p @ [message l] \<and> heard (p_out p') = heard (p_out p) @ [s @ [newline]] \<and>
    p_socket p' = p_socket p \<and> p_closed p' = p_closed p"
proof -
  let ?p = "say (Line ''Write message: '') p"
  have st: "p_stdin ?p = l @ newline # rest" using assms(2) by simp
  note li = line_in_buffer [OF assms(1) st assms(6)]
  let ?b = "overlay buff 0 (message l)"
  let ?p2 = "?p\<lparr>p_stdin := rest, p_writes := p_writes p @ [message l]\<rparr>"
  let ?p3 = "?p2\<lparr>p_reads := rs\<rparr>"
  have len: "length l + 2 \<le> BUFF_MAX" "length s + 2 \<le> BUFF_MAX"
    using assms(1,4) by (simp_all add: line_ok_def BUFF_MAX_def)
  have w: "sock_write 0 (length l + 2) ?b (?p\<lparr>p_stdin := rest\<rparr>) = Inr ?p2"
    using li(3,4) len(1) by (simp add: sock_write_def)
  have r: "sock_read 0 BUFF_MAX ?b ?p2 = Inr (int (length s + 2), overlay ?b 0 (message s), ?p3)"
    using sock_read_message [of ?p2 "message s" rs BUFF_MAX 0 ?b] assms(5) li(3) len(2) by (simp add: message_def)
  note ls = line_in_buffer(3,5,6) [OF assms(4) _ li(3), of "?p\<lparr>p_stdin := s @ newline # []\<rparr>" "[]"]
  have "chat_turn buff p = Inr (False, overlay ?b 0 (message s), say (Received (int (length s + 2)) (s @ [newline])) ?p3)"
    using li(1,2) is_exit_message [OF assms(1)] assms(3) w r ls(2,3)
    by (simp add: chat_turn_def read_cstring_def)
  with ls(1) show ?thesis by (simp add: say_def)
qed

lemma chat_turn_exit:
  assumes "line_ok l" and "p_stdin p = l @ newline # rest" and "take 4 l = exit_str" and "length buff = BUFF_MAX"
  shows "\<exists>b p'. chat_turn buff p = Inr (True, b, p') \<and> p_stdin p' = rest \<and> p_reads p' = p_reads p \<and>
    p_writes p' = p_writes p \<and> heard (p_out p') = heard (p_out p) \<and> p_socket p' = p_socket p \<and> p_closed p' = p_closed p"
proof -
  have st: "p_stdin (say (Line ''Write message: '') p) = l @ newline # rest" using assms(2) by simp
  note li = line_in_buffer [OF assms(1) st assms(4)]
  show ?thesis using li(1,2) is_exit_message [OF assms(1)] assms(3) by (simp add: chat_turn_def say_def)
qed

lemma func_turn_line:
  assumes "line_ok l" and "p_stdin p = l @ newline # rest"
    and "line_ok s" and "p_reads p = Some (message s) # rs" and "length buff = BUFF_MAX"
  shows "\<exists>b p'. func_turn buff p = Inr (take 4 l = exit_str, b, p') \<and> length b = BUFF_MAX \<and> p_stdin p' = rest \<and>
    p_reads p' = rs \<and> p_writes p' = p_writes p @ [message l] \<and> heard (p_out p') = heard (p_out p) @ [s @ [newline]] \<and>
    p_socket p' = p_socket p \<and> p_accept p' = p_accept p \<and> p_closed p' = p_closed p"
proof -
  let ?b = "overlay buff 0 (message s)"
  let ?p1 = "say (Line ''Write message: '') (say (Received (int (length s + 2)) (s @ [newline])) (p\<lparr>p_reads := rs\<rparr>))"
  have len: "length l + 2 \<le> BUFF_MAX" "length s + 2 \<le> BUFF_MAX"
    using assms(1,3) by (simp_all add: line_ok_def BUFF_MAX_def)
  have r: "sock_read 0 BUFF_MAX buff p = Inr (int (length s + 2), ?b, p\<lparr>p_reads := rs\<rparr>)"
    using sock_read_message [of p "message s" rs BUFF_MAX 0 buff] assms(4,5) len(2) by (simp add: message_def)
  note ls = line_in_buffer(3,5,6) [OF assms(3) _ assms(5), of "p\<lparr>p_stdin := s @ newline # []\<rparr>" "[]"]
  have lb: "length ?b = BUFF_MAX" "read_cstring ?b = Inr (s @ [newline])" using ls by (simp_all add: read_cstring_def)
  have st: "p_stdin ?p1 = l @ newline # rest" using assms(2) by simp
  note li = line_in_buffer [OF assms(1) st lb(1)]
  let ?p3 = "?p1\<lparr>p_stdin := rest, p_writes := p_writes p @ [message l]\<rparr>"
  have w: "sock_write 0 (length l + 2) (overlay ?b 0 (message l)) (?p1\<lparr>p_stdin := rest\<rparr>) = Inr ?p3"
    using li(3,4) len(1) by (simp add: sock_write_def)
  show ?thesis
    using r lb(2) li(1-3) is_exit_message [OF assms(1)] w by (auto simp: func_turn_def say_def)
qed

subsection \<open>Conversations\<close>

lemma chat_loop_run:
  assumes "length cl = length sl" and "\<forall>l \<in> set cl. line_ok l \<and> take 4 l \<noteq> exit_str" and "\<forall>s \<in> set sl. line_ok s"
    and "line_ok e" and "take 4 e = exit_str"
    and "p_stdin p = typed (cl @ [e]) @ rest" and "p_reads p = map (Some \<circ> message) sl" and "length buff = BUFF_MAX"
  shows "\<exists>b p'. chat_loop buff p = Inr (b, p') \<and> p_stdin p' = rest \<and> p_reads p' = [] \<and>
    p_writes p' = p_writes p @ map message cl \<and> heard (p_out p') = heard (p_out p) @ map (\<lambda>s. s @ [newline]) sl \<and>
    p_socket p' = p_socket p \<and> p_closed p' = p_closed p"
  using assms
proof (induction cl sl arbitrary: buff p rule: list_induct2)
  case Nil
  from chat_turn_exit [OF Nil(3) _ Nil(4,7), of p rest] Nil(5,6) show ?case
    by (subst chat_loop.simps) (auto simp: typed_def)
next
  case (Cons l cl s sl)
  let ?rest = "typed (cl @ [e]) @ rest"
  from chat_turn_line [of l p ?rest s "map (Some \<circ> message) sl" buff] Cons.prems obtain b p1 where
    t: "chat_turn buff p = Inr (False, b, p1)" "length b = BUFF_MAX" "p_stdin p1 = ?rest"
    "p_reads p1 = map (Some \<circ> message) sl" "p_writes p1 = p_writes p @ [message l]"
    "heard (p_out p1) = heard (p_out p) @ [s @ [newline]]" "p_socket p1 = p_socket p" "p_closed p1 = p_closed p"
    by (auto simp: typed_def)
  from Cons.IH [OF _ _ Cons.prems(3,4) t(3,4,2)] Cons.prems(1,2) t(1,5-8) show ?case
    by (subst chat_loop.simps) auto
qed

lemma func_run:
  assumes "length sl = length cl" and "\<forall>l \<in> set sl. line_ok l \<and> take 4 l \<noteq> exit_str" and "\<forall>l \<in> set cl. line_ok l"
    and "line_ok e" and "take 4 e = exit_str" and "line_ok c"
    and "p_stdin p = typed (sl @ [e])" and "p_reads p = map (Some \<circ> message) (cl @ [c])" and "length buff = BUFF_MAX"
  shows "\<exists>b p'. func buff p = Inr (b, p') \<and> p_reads p' = [] \<and> p_writes p' = p_writes p @ map message (sl @ [e]) \<and>
    heard (p_out p') = heard (p_out p) @ map (\<lambda>s. s @ [newline]) (cl @ [c]) \<and>
    p_socket p' = p_socket p \<and> p_accept p' = p_accept p \<and> p_closed p' = p_closed p"
  using assms
proof (induction sl cl arbitrary: buff p rule: list_induct2)
  case Nil
  from func_turn_line [OF Nil(3) _ Nil(5) _ Nil(8), of p "[]" "[]"] Nil(4,6,7) show ?case
    by (subst func.simps) (auto simp: typed_def)
next
  case (Cons s sl l cl)
  from func_turn_line [of s p "typed (sl @ [e])" l "map (Some \<circ> message) (cl @ [c])" buff] Cons.prems obtain b p1 where
    t: "func_turn buff p = Inr (False, b, p1)" "length b = BUFF_MAX" "p_stdin p1 = typed (sl @ [e])"
    "p_reads p1 = map (Some \<circ> message) (cl @ [c])" "p_writes p1 = p_writes p @ [message s]"
    "heard (p_out p1) = heard (p_out p) @ [l @ [newline]]"
    "p_socket p1 = p_socket p" "p_accept p1 = p_accept p" "p_closed p1 = p_closed p"
    by (auto simp: typed_def)
  from Cons.IH [OF _ _ Cons.prems(3-5) t(3,4,2)] Cons.prems(1,2) t(1,5-9) show ?case
    by (subst func.simps) auto
qed

subsection \<open>The menu\<close>

text \<open>The menu reads a character and a line that starts with another one.\<close>

lemma menu_line:
  assumes "p_stdin p = f # l @ newline # rest" and "newline \<notin> set l" and "length l < 20" and "length buff = 20"
  shows "getchar (say (Line ''What do you want to do:'') p) =
      (f, (say (Line ''What do you want to do:'') p)\<lparr>p_stdin := l @ newline # rest\<rparr>)"
    "read_line 0 buff ((say (Line ''What do you want to do:'') p)\<lparr>p_stdin := l @ newline # rest\<rparr>) =
       Inr (length l + 1, overlay buff 0 (l @ [newline]), (say (Line ''What do you want to do:'') p)\<lparr>p_stdin := rest\<rparr>)"
    "overlay buff 0 (l @ [newline]) ! 0 = hd (l @ [newline])" "length (overlay buff 0 (l @ [newline])) = 20"
proof -
  show "getchar (say (Line ''What do you want to do:'') p) =
      (f, (say (Line ''What do you want to do:'') p)\<lparr>p_stdin := l @ newline # rest\<rparr>)"
    using assms(1) by (simp add: getchar_def)
  show "read_line 0 buff ((say (Line ''What do you want to do:'') p)\<lparr>p_stdin := l @ newline # rest\<rparr>) =
       Inr (length l + 1, overlay buff 0 (l @ [newline]), (say (Line ''What do you want to do:'') p)\<lparr>p_stdin := rest\<rparr>)"
    using read_line_line [of "(say (Line ''What do you want to do:'') p)\<lparr>p_stdin := l @ newline # rest\<rparr>" l rest 0 buff]
      assms by (simp add: BUFF_MAX_def)
  show "overlay buff 0 (l @ [newline]) ! 0 = hd (l @ [newline])" by (cases l) (simp_all add: overlay_def)
  show "length (overlay buff 0 (l @ [newline])) = 20" using assms(3,4) by (subst length_overlay) simp_all
qed

text \<open>
  A single letter is never a command: typed with the newline it is stored in \<open>function\<close>, the
  choice is made by the newline, and the menu reports an invalid input.
\<close>

theorem single_letter_invalid:
  assumes "p_stdin p = f # newline # rest" and "length buff = 20"
  shows "\<exists>b p'. menu_turn fd cb buff p = Inr (None, cb, b, p') \<and> p_stdin p' = rest \<and>
    p_out p' = p_out p @ [Line ''What do you want to do:'', Invalid (uint f)] \<and>
    p_writes p' = p_writes p \<and> p_closed p' = p_closed p"
proof -
  have "p_stdin p = f # [] @ newline # rest" using assms(1) by simp
  note m = menu_line [OF this _ _ assms(2)]
  have "newline \<noteq> 0x63" "newline \<noteq> 0x71" "newline \<notin> set (0x70 # map of_nat [0x31..<0x38])"
    by (simp_all add: newline_def upt_rec)
  with m show ?thesis by (simp add: menu_turn_def say_def)
qed

text \<open>The menu ends for every input: with an exit code, or with a line that overruns its buffer.\<close>

lemma menu_loop_ends: "length buff = 20 \<Longrightarrow> \<exists>r. menu_loop fd cb buff p = Some r"
proof (induction "length (p_stdin p)" arbitrary: cb buff p rule: less_induct)
  case less
  show ?case
  proof (cases "menu_turn fd cb buff p")
    case (Inl e)
    then show ?thesis by (subst menu_loop.simps) simp
  next
    case (Inr t)
    obtain code cb' b p' where t: "t = (code, cb', b, p')" by (cases t)
    from menu_turn_frame [OF Inr [unfolded t]] less.prems have "length (p_stdin p') < length (p_stdin p)" "length b = 20"
      by (simp_all add: BUFF_MAX_def)
    from less.hyps [OF this] Inr t show ?thesis by (subst menu_loop.simps) (simp split: option.split)
  qed
qed

subsection \<open>A session\<close>

lemma menu_chat:
  assumes "p_stdin p = f # 0x63 # newline # rest" and "length buff = 20"
    and "chat cb ((say (Line ''What do you want to do:'') p)\<lparr>p_stdin := rest\<rparr>) = Inr (cb', p')"
  shows "\<exists>b. length b = 20 \<and> menu_loop fd cb buff p = menu_loop fd cb' b p'"
proof -
  have "p_stdin p = f # [0x63] @ newline # rest" using assms(1) by simp
  note m = menu_line [OF this _ _ assms(2)]
  have "menu_turn fd cb buff p = Inr (None, cb', overlay buff 0 ([0x63] @ [newline]), p')"
    using m(1-3) assms(3) by (simp add: menu_turn_def newline_def)
  then have "menu_loop fd cb buff p = menu_loop fd cb' (overlay buff 0 ([0x63] @ [newline])) p'"
    by (subst menu_loop.simps) simp
  then show ?thesis using m(4) by (intro exI [of _ "overlay buff 0 ([0x63] @ [newline])"]) (simp add: newline_def)
qed

lemma menu_quit:
  assumes "p_stdin p = f # 0x71 # newline # rest" and "length buff = 20"
  shows "\<exists>p'. menu_loop fd cb buff p = Some (Inr (0, p')) \<and> p_writes p' = p_writes p \<and>
    heard (p_out p') = heard (p_out p) \<and> p_closed p' = p_closed p @ [fd] \<and> p_reads p' = p_reads p"
proof -
  have "p_stdin p = f # [0x71] @ newline # rest" using assms(1) by simp
  note m = menu_line [OF this _ _ assms(2)]
  show ?thesis using m(1-3)
    by (subst menu_loop.simps) (simp add: menu_turn_def newline_def close_fd_def say_def)
qed

lemma chat_sides:
  assumes "length cl = length sl" and "\<forall>l \<in> set (cl @ [c] @ sl). line_ok l \<and> take 4 l \<noteq> exit_str"
    and "line_ok ce" and "take 4 ce = exit_str" and "line_ok se" and "take 4 se = exit_str"
    and "length buff = 20" and "length cbuf = BUFF_MAX" and "length sbuf = BUFF_MAX"
  shows "\<exists>p. chat_client_main cbuf buff 2 (demo_proc ([f, 0x63, newline] @ typed (cl @ [c, ce]) @ [g, 0x71, newline])
        (map message (sl @ [se]))) = Inr (0, p) \<and>
      p_writes p = map message (cl @ [c]) \<and> heard (p_out p) = map (\<lambda>s. s @ [newline]) (sl @ [se]) \<and> p_closed p = [3]"
    and "\<exists>p. chat_server_main sbuf (demo_proc (typed (sl @ [se])) (map message (cl @ [c]))) = Inr (0, p) \<and>
      p_writes p = map message (sl @ [se]) \<and> heard (p_out p) = map (\<lambda>l. l @ [newline]) (cl @ [c]) \<and> p_closed p = [3, 4]"
proof -
  let ?p = "say (Line ''connected to the server..'') (say (Line ''Socket successfully created..'')
    (demo_proc ([f, 0x63, newline] @ typed (cl @ [c, ce]) @ [g, 0x71, newline]) (map message (sl @ [se]))))"
  let ?menu = "(say (Line ''What do you want to do:'') ?p)\<lparr>p_stdin := typed (cl @ [c, ce]) @ [g, 0x71, newline]\<rparr>"
  let ?p1 = "say (Line ''Write exit to quit the program.'') ?menu"
  have "\<exists>b p'. chat_loop cbuf ?p1 = Inr (b, p') \<and> p_stdin p' = [g, 0x71, newline] \<and> p_reads p' = [] \<and>
    p_writes p' = p_writes ?p1 @ map message (cl @ [c]) \<and>
    heard (p_out p') = heard (p_out ?p1) @ map (\<lambda>s. s @ [newline]) (sl @ [se]) \<and>
    p_socket p' = p_socket ?p1 \<and> p_closed p' = p_closed ?p1"
    by (rule chat_loop_run [OF _ _ _ assms(3,4)]) (use assms(1,2,5,8) in \<open>auto simp: demo_proc_def typed_def say_def\<close>)
  then obtain b p' where l: "chat_loop cbuf ?p1 = Inr (b, p')" and p': "p_stdin p' = [g, 0x71, newline]"
    "p_writes p' = p_writes ?p1 @ map message (cl @ [c])"
    "heard (p_out p') = heard (p_out ?p1) @ map (\<lambda>s. s @ [newline]) (sl @ [se])" "p_closed p' = p_closed ?p1" by blast
  have c: "chat cbuf ?menu = Inr (b, p')" "p_stdin p' = [g, 0x71, newline]" "p_writes p' = map message (cl @ [c])"
    "heard (p_out p') = map (\<lambda>s. s @ [newline]) (sl @ [se])" "p_closed p' = []"
    using l p' by (simp_all only: chat_def) (simp_all add: demo_proc_def say_def)
  have "p_stdin ?p = f # 0x63 # newline # typed (cl @ [c, ce]) @ [g, 0x71, newline]" by (simp add: demo_proc_def)
  from menu_chat [OF this assms(7) c(1), of 3] obtain b1 where
    b1: "length b1 = 20" "menu_loop 3 cbuf buff ?p = menu_loop 3 b b1 p'" by blast
  from menu_quit [of p' g "[]" b1 3 b] c(2) b1(1) obtain p2 where
    p2: "menu_loop 3 b b1 p' = Some (Inr (0, p2))" "p_writes p2 = p_writes p'" "heard (p_out p2) = heard (p_out p')"
    "p_closed p2 = [3]" using c(5) by auto
  have "chat_client_main cbuf buff 2 (demo_proc ([f, 0x63, newline] @ typed (cl @ [c, ce]) @ [g, 0x71, newline])
        (map message (sl @ [se]))) = Inr (0, p2)"
    using b1(2) p2(1) by (simp add: chat_client_main_def Let_def demo_proc_def say_def)
  with p2 c show "\<exists>p. chat_client_main cbuf buff 2 (demo_proc ([f, 0x63, newline] @ typed (cl @ [c, ce]) @ [g, 0x71, newline])
        (map message (sl @ [se]))) = Inr (0, p) \<and>
      p_writes p = map message (cl @ [c]) \<and> heard (p_out p) = map (\<lambda>s. s @ [newline]) (sl @ [se]) \<and> p_closed p = [3]"
    by auto
next
  let ?p = "say (Line ''server accept the client...'') (say (Line ''Server listening..'')
    (say (Line ''Socket successfully binded..'') (say (Line ''Socket successfully created..'')
    (demo_proc (typed (sl @ [se])) (map message (cl @ [c]))))))"
  have "\<exists>b p'. func sbuf ?p = Inr (b, p') \<and> p_reads p' = [] \<and> p_writes p' = p_writes ?p @ map message (sl @ [se]) \<and>
    heard (p_out p') = heard (p_out ?p) @ map (\<lambda>s. s @ [newline]) (cl @ [c]) \<and>
    p_socket p' = p_socket ?p \<and> p_accept p' = p_accept ?p \<and> p_closed p' = p_closed ?p"
    by (rule func_run [OF _ _ _ assms(5,6)]) (use assms(1,2,9) in \<open>auto simp: demo_proc_def say_def\<close>)
  then obtain b p' where f: "func sbuf ?p = Inr (b, p')" "p_writes p' = map message (sl @ [se])"
    "heard (p_out p') = map (\<lambda>s. s @ [newline]) (cl @ [c])" "p_socket p' = 3" "p_accept p' = 4" "p_closed p' = []"
    by (auto simp: demo_proc_def say_def)
  then have "chat_server_main sbuf (demo_proc (typed (sl @ [se])) (map message (cl @ [c]))) =
      Inr (0, close_fd 4 (close_fd 3 p'))"
    by (simp add: chat_server_main_def Let_def demo_proc_def say_def close_fd_def)
  with f show "\<exists>p. chat_server_main sbuf (demo_proc (typed (sl @ [se])) (map message (cl @ [c]))) = Inr (0, p) \<and>
      p_writes p = map message (sl @ [se]) \<and> heard (p_out p) = map (\<lambda>l. l @ [newline]) (cl @ [c]) \<and> p_closed p = [3, 4]"
    by (intro exI [of _ "close_fd 4 (close_fd 3 p')"]) (simp add: close_fd_def)
qed

text \<open>
  C39. A chat over a transport that delivers whole messages: the client chooses the chat, both
  sides type lines of their own, one per turn, the server's last one an exit line, the client
  then types its exit line and quits. Every line arrives: each side sends its lines as messages
  in order and prints the other's lines in order; both programs close their descriptors and exit
  with 0. The client's own exit line is not sent.
\<close>

theorem chat_session:
  assumes "length cl = length sl" and "\<forall>l \<in> set (cl @ [c] @ sl). line_ok l \<and> take 4 l \<noteq> exit_str"
    and "line_ok ce" and "take 4 ce = exit_str" and "line_ok se" and "take 4 se = exit_str"
    and "length buff = 20" and "length cbuf = BUFF_MAX" and "length sbuf = BUFF_MAX"
  shows "(\<exists>p. chat_client_main cbuf buff 2 (demo_proc ([f, 0x63, newline] @ typed (cl @ [c, ce]) @ [g, 0x71, newline])
        (map message (sl @ [se]))) = Inr (0, p) \<and>
      p_writes p = map message (cl @ [c]) \<and> heard (p_out p) = map (\<lambda>s. s @ [newline]) (sl @ [se]) \<and> p_closed p = [3]) \<and>
    (\<exists>p. chat_server_main sbuf (demo_proc (typed (sl @ [se])) (map message (cl @ [c]))) = Inr (0, p) \<and>
      p_writes p = map message (sl @ [se]) \<and> heard (p_out p) = map (\<lambda>l. l @ [newline]) (cl @ [c]) \<and> p_closed p = [3, 4])"
  by (intro conjI chat_sides [OF assms])

theorem chat_session_witness:
  "\<exists>p. chat_server_main (replicate BUFF_MAX 0) (demo_proc [0x65, 0x78, 0x69, 0x74, newline] [[0x68, 0x69, newline, 0]]) =
       Inr (0, p) \<and> heard (p_out p) = [[0x68, 0x69, newline]]"
proof -
  have ok: "line_ok [0x68, 0x69]" "line_ok exit_str" "take 4 exit_str = exit_str" "take 4 [0x68, 0x69] \<noteq> exit_str"
    by (simp_all add: line_ok_def exit_str_def newline_def BUFF_MAX_def)
  have "\<forall>l \<in> set ([] @ [[0x68, 0x69]] @ []). line_ok l \<and> take 4 l \<noteq> exit_str" using ok by simp
  from chat_session [OF refl this ok(2,3) ok(2,3), where buff = "replicate 20 0"
      and cbuf = "replicate BUFF_MAX 0" and sbuf = "replicate BUFF_MAX 0" and f = "0x63" and g = "0x71"]
  show ?thesis by (auto simp: typed_def message_def exit_str_def)
qed

end
