(* ===== verification/Raw_Ip_Test.thy ===== *)
theory Raw_Ip_Test
  imports Ltcp_Prelude
begin

text \<open>
  The raw IP test program (\<open>Ethernet test module/test_module.c\<close>): the layout of the IP header,
  its checksum, the scatter and gather of a packet in \<open>send_ip_packet\<close> and
  \<open>recv_ip_packet\<close>, and the list of the machine's interfaces. \<open>socket\<close>, \<open>sendmsg\<close>,
  \<open>recvmsg\<close> and \<open>getifaddrs\<close> are the system's: their results are arguments.
\<close>

subsection \<open>The IP header in memory\<close>

text \<open>\<open>struct iphdr\<close> of a little-endian machine, and its 20 bytes.\<close>

record iphdr =
  ip_ihl :: "4 word"
  ip_version :: "4 word"
  ip_tos :: u8
  ip_tot_len :: u16
  ip_id :: u16
  ip_frag_off :: u16
  ip_ttl :: u8
  ip_protocol :: u8
  ip_check :: u16
  ip_saddr :: u32
  ip_daddr :: u32

definition lo :: "u16 \<Rightarrow> u8" where
  "lo w = ucast w"

definition hi :: "u16 \<Rightarrow> u8" where
  "hi w = ucast (drop_bit 8 w)"

definition u32_bytes :: "u32 \<Rightarrow> u8 list" where
  "u32_bytes w = [ucast w, ucast (drop_bit 8 w), ucast (drop_bit 16 w), ucast (drop_bit 24 w)]"

definition iphdr_bytes :: "iphdr \<Rightarrow> u8 list" where
  "iphdr_bytes h =
     [ucast (ip_ihl h) OR push_bit 4 (ucast (ip_version h)), ip_tos h, lo (ip_tot_len h), hi (ip_tot_len h),
      lo (ip_id h), hi (ip_id h), lo (ip_frag_off h), hi (ip_frag_off h), ip_ttl h, ip_protocol h,
      lo (ip_check h), hi (ip_check h)] @ u32_bytes (ip_saddr h) @ u32_bytes (ip_daddr h)"

text \<open>Two bytes read as an \<open>unsigned short\<close>, four as an \<open>unsigned int\<close>.\<close>

definition half :: "u8 \<Rightarrow> u8 \<Rightarrow> u16" where
  "half a b = ucast a OR push_bit 8 (ucast b)"

definition quad :: "u8 \<Rightarrow> u8 \<Rightarrow> u8 \<Rightarrow> u8 \<Rightarrow> u32" where
  "quad a b c d = ucast a OR push_bit 8 (ucast b) OR push_bit 16 (ucast c) OR push_bit 24 (ucast d)"

fun halves :: "u8 list \<Rightarrow> u16 list" where
  "halves (a # b # bs) = half a b # halves bs"
| "halves bs = []"

text \<open>The first 20 of the received bytes as the header; fewer leave the rest of it unchanged.\<close>

definition iphdr_parse :: "iphdr \<Rightarrow> u8 list \<Rightarrow> iphdr" where
  "iphdr_parse old bs =
     (let b = (\<lambda>i. (bs @ drop (length bs) (iphdr_bytes old)) ! i)
      in \<lparr>ip_ihl = ucast (b 0), ip_version = ucast (drop_bit 4 (b 0)), ip_tos = b 1, ip_tot_len = half (b 2) (b 3),
          ip_id = half (b 4) (b 5), ip_frag_off = half (b 6) (b 7), ip_ttl = b 8, ip_protocol = b 9,
          ip_check = half (b 10) (b 11), ip_saddr = quad (b 12) (b 13) (b 14) (b 15),
          ip_daddr = quad (b 16) (b 17) (b 18) (b 19)\<rparr>)"

lemma half_lo_hi: "half (lo w) (hi w) = w"
  by (rule bit_word_eqI) (auto simp: half_def lo_def hi_def bit_simps)

lemma quad_bytes: "quad (ucast w) (ucast (drop_bit 8 w)) (ucast (drop_bit 16 w)) (ucast (drop_bit 24 w)) = w"
proof (rule bit_word_eqI)
  fix n assume n: "n < LENGTH(32)"
  then consider "n < 8" | "8 \<le> n" "n < 16" | "16 \<le> n" "n < 24" | "24 \<le> n" "n < 32" by fastforce
  then show "bit (quad (ucast w) (ucast (drop_bit 8 w)) (ucast (drop_bit 16 w)) (ucast (drop_bit 24 w))) n = bit w n"
    by cases (auto simp: quad_def bit_simps)
qed

lemma length_iphdr_bytes [simp]: "length (iphdr_bytes h) = 20"
  by (simp add: iphdr_bytes_def u32_bytes_def)

lemma nibbles:
  "ucast ((ucast v :: u8) OR push_bit 4 (ucast w)) = (v :: 4 word)"
  "ucast (drop_bit 4 ((ucast v :: u8) OR push_bit 4 (ucast w))) = (w :: 4 word)"
  "ucast (drop_bit 4 (ucast v :: u8) OR drop_bit 4 (push_bit 4 (ucast w))) = (w :: 4 word)"
  by (rule bit_word_eqI; auto simp: bit_simps dest: bit_imp_le_length)+

lemma iphdr_parse_bytes: "iphdr_parse old (iphdr_bytes h) = h"
proof -
  have "drop (length (iphdr_bytes h)) (iphdr_bytes old) = []" by simp
  then show ?thesis
    by (cases h) (simp add: iphdr_parse_def Let_def iphdr_bytes_def u32_bytes_def half_lo_hi quad_bytes nibbles)
qed

subsection \<open>The checksum\<close>

text \<open>
  \<open>temp_sum\<close> is a \<open>long\<close>; the ten summands are \<open>unsigned short\<close>, so it stays below
  \<open>2 ^ 20\<close> and an unsigned word of 64 bits holds it.
\<close>

fun sum_halves :: "u64 \<Rightarrow> u16 list \<Rightarrow> u64" where
  "sum_halves acc [] = acc"
| "sum_halves acc (x # xs) = sum_halves (acc + ucast x) xs"

text \<open>\<open>while (temp_sum >> 16)\<close>.\<close>

lemma fold_value:
  "unat (drop_bit 16 x + (x AND 0xFFFF) :: u64) = unat x div 65536 + unat x mod 65536"
proof -
  have d: "unat (drop_bit 16 x) = unat x div 65536" by (simp add: drop_bit_eq_div unat_div)
  have "x AND 0xFFFF = take_bit 16 x" using take_bit_eq_mask [of 16 x] by (simp add: mask_eq_exp_minus_1)
  then have m: "unat (x AND 0xFFFF) = unat x mod 65536" by (simp only: unsigned_take_bit_eq) (simp add: take_bit_eq_mod)
  have "unat x < 2 ^ 64" using unsigned_less [of x, where ?'a = nat] by simp
  then have "unat x div 65536 + unat x mod 65536 < 2 ^ 64" by simp
  with d m show ?thesis by (simp add: unat_add_lem [THEN iffD1])
qed

lemma drop_bit_zero: "drop_bit 16 x = 0 \<longleftrightarrow> unat (x :: u64) < 65536"
proof -
  have "drop_bit 16 x = 0 \<longleftrightarrow> unat (drop_bit 16 x) = 0" by (simp add: unat_eq_0)
  also have "unat (drop_bit 16 x) = unat x div 65536" by (simp add: drop_bit_eq_div unat_div)
  finally show ?thesis by auto
qed

function csum_fold :: "u64 \<Rightarrow> u64" where
  "csum_fold x = (if drop_bit 16 x \<noteq> 0 then csum_fold (drop_bit 16 x + (x AND 0xFFFF)) else x)"
  by pat_completeness auto
termination
proof (relation "measure unat", simp, goal_cases)
  case (1 x)
  then have "65536 \<le> unat x" by (simp add: drop_bit_zero)
  then have "unat x div 65536 + unat x mod 65536 < unat x"
    using div_mult_mod_eq [of "unat x" 65536] by linarith
  then show ?case by (simp add: fold_value)
qed

declare csum_fold.simps [simp del]

definition calc_checksum :: "iphdr \<Rightarrow> u16" where
  "calc_checksum ip_hdr =
     (let arr = halves (iphdr_bytes (ip_hdr\<lparr>ip_check := 0\<rparr>));
          temp_sum = sum_halves 0 arr
      in NOT (ucast (csum_fold temp_sum)))"

text \<open>Folding keeps the value modulo \<open>65535\<close> and never makes a positive sum zero.\<close>

lemma csum_fold_value:
  "unat (csum_fold x) < 65536 \<and> unat (csum_fold x) mod 65535 = unat x mod 65535 \<and>
   (unat (csum_fold x) = 0 \<longleftrightarrow> unat x = 0)"
proof (induction x rule: csum_fold.induct)
  case (1 x)
  show ?case
  proof (cases "unat x < 65536")
    case True
    then have "csum_fold x = x" by (subst csum_fold.simps) (simp add: drop_bit_zero)
    with True show ?thesis by simp
  next
    case False
    let ?y = "drop_bit 16 x + (x AND 0xFFFF)"
    have nz: "drop_bit 16 x \<noteq> 0" using False by (simp add: drop_bit_zero)
    then have "csum_fold x = csum_fold ?y" by (subst csum_fold.simps) simp
    moreover have y: "unat ?y = unat x div 65536 + unat x mod 65536" by (rule fold_value)
    moreover have "unat x = 65535 * (unat x div 65536) + unat ?y"
      unfolding y using div_mult_mod_eq [of "unat x" 65536] by linarith
    then have "unat ?y mod 65535 = unat x mod 65535" by (metis mod_mult_self4)
    moreover have "unat ?y \<noteq> 0" unfolding y using False by (simp add: div_greater_zero_iff)
    ultimately show ?thesis using 1 [OF nz] False by simp
  qed
qed

lemma sum_halves_value:
  "unat acc + length xs * 65535 < 2 ^ 64 \<Longrightarrow> unat (sum_halves acc xs) = unat acc + sum_list (map unat xs)"
proof (induction xs arbitrary: acc)
  case (Cons x xs)
  have "unat x < 65536" using unsigned_less [of x, where ?'a = nat] by simp
  then have u: "unat (ucast x :: u64) = unat x" by (simp add: unsigned_ucast_eq take_bit_eq_mod)
  then have "unat acc + unat (ucast x :: u64) < 2 ^ 64" using Cons.prems \<open>unat x < 65536\<close> by simp
  then have "unat (acc + ucast x) = unat acc + unat x" by (simp add: unat_add_lem [THEN iffD1] u)
  with Cons \<open>unat x < 65536\<close> show ?case by simp
qed simp

lemma halves_iphdr:
  "\<exists>us vs. length us = 5 \<and> length vs = 4 \<and> (\<forall>c. halves (iphdr_bytes (h\<lparr>ip_check := c\<rparr>)) = us @ c # vs)"
  by (intro exI [of _ "take 5 (halves (iphdr_bytes h))"] exI [of _ "drop 6 (halves (iphdr_bytes h))"])
    (simp add: iphdr_bytes_def u32_bytes_def half_lo_hi)

lemma unat_not_u16: "unat (NOT w :: u16) = 65535 - unat w"
proof -
  have "NOT w = - 1 - w" by (simp add: not_eq_complement)
  moreover have "unat (- 1 - w) = unat (- 1 :: u16) - unat w" by (rule unat_sub) simp
  moreover have "unat (- 1 :: u16) = 65535" by (simp add: unsigned_minus_1_eq_mask mask_eq_exp_minus_1)
  ultimately show ?thesis by simp
qed

lemma ones_complement:
  fixes F S c G :: nat
  assumes "F < 65536" and F: "F mod 65535 = S mod 65535" "F = 0 \<longleftrightarrow> S = 0" and c: "c = 65535 - F"
    and G: "G < 65536" "G mod 65535 = (S + c) mod 65535" "G = 0 \<longleftrightarrow> S + c = 0"
  shows "G = 65535"
proof -
  have "(S + c) mod 65535 = (F + c) mod 65535" by (rule mod_add_cong [OF F(1) [symmetric] refl])
  also have "F + c = 65535" using assms(1) c by simp
  finally have "G mod 65535 = 0" using G(2) by simp
  then obtain k where k: "G = 65535 * k" by blast
  have "G \<noteq> 0" using F(2) c G(3) by (cases "S = 0") simp_all
  moreover have "k < 2" using G(1) unfolding k by linarith
  ultimately have "k = 1" unfolding k by linarith
  then show ?thesis by (simp add: k)
qed

text \<open>
  C37. The checksum is the one a receiver accepts: with the result of \<open>calc_checksum\<close> stored in
  its \<open>check\<close> field, the folded sum of any header's ten half words is \<open>0xFFFF\<close>, whatever the
  field held before.
\<close>

theorem checksum_verifies:
  "csum_fold (sum_halves 0 (halves (iphdr_bytes (h\<lparr>ip_check := calc_checksum h\<rparr>)))) = 0xFFFF"
proof -
  obtain us vs where hv: "length us = 5" "length vs = 4" "\<And>c. halves (iphdr_bytes (h\<lparr>ip_check := c\<rparr>)) = us @ c # vs"
    using halves_iphdr [of h] by blast
  let ?S = "sum_list (map unat us) + sum_list (map unat vs)"
  have s: "unat (sum_halves 0 (us @ c # vs)) = ?S + unat c" for c
    using sum_halves_value [of 0 "us @ c # vs"] hv(1,2) by simp
  let ?F = "csum_fold (sum_halves 0 (us @ 0 # vs))"
  let ?c = "calc_checksum h"
  have F: "unat ?F < 65536" "unat ?F mod 65535 = ?S mod 65535" "unat ?F = 0 \<longleftrightarrow> ?S = 0"
    using csum_fold_value [of "sum_halves 0 (us @ 0 # vs)"] s [of 0] by simp_all
  have c: "?c = NOT (ucast ?F)" using hv(3) by (simp add: calc_checksum_def Let_def)
  have cv: "unat ?c = 65535 - unat ?F"
    using F(1) by (simp add: c unat_not_u16 unsigned_ucast_eq take_bit_eq_mod)
  let ?G = "csum_fold (sum_halves 0 (us @ ?c # vs))"
  have G: "unat ?G < 65536" "unat ?G mod 65535 = (?S + unat ?c) mod 65535" "unat ?G = 0 \<longleftrightarrow> ?S + unat ?c = 0"
    using csum_fold_value [of "sum_halves 0 (us @ ?c # vs)"] s [of ?c] by simp_all
  have "unat ?G = 65535" by (rule ones_complement [OF F cv G])
  then have "?G = 0xFFFF" by (simp add: word_unat_eq_iff)
  then show ?thesis by (simp add: hv(3))
qed

subsection \<open>Packets\<close>

text \<open>
  \<open>send_ip_packet\<close> gathers the header and \<open>packetlen\<close> bytes of data into one message to the
  header's destination; a failing \<open>sendmsg\<close> is only reported. The result is the message.
\<close>

definition send_ip_packet :: "iphdr \<Rightarrow> u8 list \<Rightarrow> nat \<Rightarrow> (u32 \<times> u8 list) res" where
  "send_ip_packet ip_hdr packetdata packetlen =
     (if packetlen \<le> length packetdata
      then Inr (ip_daddr ip_hdr, iphdr_bytes ip_hdr @ take packetlen packetdata)
      else Inl OutOfBounds)"

text \<open>
  \<open>recvmsg\<close> scatters what arrived (None: it failed, which nobody notices) over the header and
  the first \<open>packetlen\<close> bytes of the data; bytes that did not arrive stay as they were.
\<close>

definition recv_ip_packet :: "u8 list option \<Rightarrow> iphdr \<Rightarrow> u8 list \<Rightarrow> nat \<Rightarrow> (iphdr \<times> u8 list) res" where
  "recv_ip_packet arrived ip_hdr packetdata packetlen =
     (if length packetdata < packetlen then Inl OutOfBounds
      else case arrived of
        None \<Rightarrow> Inr (ip_hdr, packetdata)
      | Some bs \<Rightarrow>
          let got = take packetlen (drop 20 bs)
          in Inr (iphdr_parse ip_hdr (take 20 bs), got @ drop (length got) packetdata))"

subsection \<open>Interfaces\<close>

text \<open>An entry of \<open>getifaddrs\<close>: the name and the link-layer address, if it is AF_PACKET.\<close>

record ifaddrs =
  ifa_name :: "u8 list"
  ifa_sa_family :: "nat option"
  ifa_sockaddr :: "u8 list"

record interface =
  if_name :: "u8 list"
  if_sockaddr :: "u8 list"

definition AF_PACKET :: nat where
  "AF_PACKET = 17"

definition MAX_INTERFACE_NAME_SIZE :: nat where
  "MAX_INTERFACE_NAME_SIZE = 50"

definition lo_name :: "u8 list" where
  "lo_name = [0x6C, 0x6F]"

fun get_number_of_interfaces :: "ifaddrs list \<Rightarrow> nat" where
  "get_number_of_interfaces [] = 0"
| "get_number_of_interfaces (ifaddr # rest) =
     (if ifa_sa_family ifaddr = Some AF_PACKET \<and> ifa_name ifaddr \<noteq> lo_name
      then Suc (get_number_of_interfaces rest) else get_number_of_interfaces rest)"

text \<open>\<open>strncpy\<close> of a string (its bytes before the NUL) into the name array.\<close>

definition strncpy_name :: "u8 list \<Rightarrow> u8 list" where
  "strncpy_name nm = take MAX_INTERFACE_NAME_SIZE (nm @ replicate MAX_INTERFACE_NAME_SIZE 0)"

text \<open>The second loop of \<open>setup_interfaces\<close>, over the zeroed array of \<open>calloc\<close>.\<close>

fun fill_interfaces :: "interface list \<Rightarrow> nat \<Rightarrow> ifaddrs list \<Rightarrow> interface list res" where
  "fill_interfaces interfaces index [] = Inr interfaces"
| "fill_interfaces interfaces index (ifaddr # rest) =
     (if ifa_sa_family ifaddr = Some AF_PACKET \<and> ifa_name ifaddr \<noteq> lo_name then
        (if index < length interfaces
         then fill_interfaces
                (interfaces[index := \<lparr>if_name = strncpy_name (ifa_name ifaddr), if_sockaddr = ifa_sockaddr ifaddr\<rparr>])
                (Suc index) rest
         else Inl OutOfBounds)
      else fill_interfaces interfaces index rest)"

definition zero_interface :: interface where
  "zero_interface = \<lparr>if_name = replicate 50 0, if_sockaddr = replicate 20 0\<rparr>"

text \<open>
  \<open>getifaddrs\<close> is called twice; when the second call fails the program goes on with a pointer
  nobody set. The list is walked to its end, so \<open>freeifaddrs\<close> gets NULL. The result is the
  array and the pointer that is freed.
\<close>

definition setup_interfaces :: "ifaddrs list option \<Rightarrow> (interface list \<times> addr option) res" where
  "setup_interfaces got =
     (case got of
        None \<Rightarrow> Inl Dangling
      | Some ifaddr \<Rightarrow>
          let number_of_interfaces = get_number_of_interfaces ifaddr
          in rbind (fill_interfaces (replicate number_of_interfaces zero_interface) 0 ifaddr)
               (\<lambda>interfaces. Inr (interfaces, None)))"

definition is_interface :: "ifaddrs \<Rightarrow> bool" where
  "is_interface a \<longleftrightarrow> ifa_sa_family a = Some AF_PACKET \<and> ifa_name a \<noteq> lo_name"

definition interface_of :: "ifaddrs \<Rightarrow> interface" where
  "interface_of a = \<lparr>if_name = strncpy_name (ifa_name a), if_sockaddr = ifa_sockaddr a\<rparr>"

lemma number_of_interfaces: "get_number_of_interfaces as = length (filter is_interface as)"
  by (induction as) (simp_all add: is_interface_def)

lemma fill_interfaces_filter:
  "length done + length (filter is_interface as) = n \<Longrightarrow>
   fill_interfaces (done @ replicate (length (filter is_interface as)) z) (length done) as =
     Inr (done @ map interface_of (filter is_interface as))"
proof (induction as arbitrary: "done" n)
  case (Cons a as)
  show ?case
  proof (cases "is_interface a")
    case True
    have "(done @ z # replicate (length (filter is_interface as)) z)[length done := interface_of a] =
        (done @ [interface_of a]) @ replicate (length (filter is_interface as)) z" by simp
    with True Cons.IH [of "done @ [interface_of a]"] show ?thesis
      by (simp add: is_interface_def interface_of_def)
  next
    case False
    with Cons.IH [of "done"] show ?thesis by (auto simp: is_interface_def)
  qed
qed simp

text \<open>
  \<open>setup_interfaces\<close> agrees with its specification: the array it allocates from a first
  pass over the list holds, after the second pass, exactly the link-layer entries other than
  the loopback, in order, with their names cut to 50 bytes; it never writes outside the array.
  The list itself is never freed: the pointer passed to \<open>freeifaddrs\<close> is NULL by then.
\<close>

theorem setup_interfaces_exact:
  "setup_interfaces (Some as) = Inr (map interface_of (filter is_interface as), None)"
  using fill_interfaces_filter [of "[]" as _ zero_interface]
  by (simp add: setup_interfaces_def number_of_interfaces)

subsection \<open>The program\<close>

definition IPPROTO_LOCAL_TCP_test :: u8 where
  "IPPROTO_LOCAL_TCP_test = 5"

text \<open>\<open>"Test string"\<close> and \<open>"Not a test    "\<close> with their terminating zeros.\<close>

definition test_data :: "u8 list" where
  "test_data = [0x54, 0x65, 0x73, 0x74, 0x20, 0x73, 0x74, 0x72, 0x69, 0x6E, 0x67, 0]"

definition test_data2 :: "u8 list" where
  "test_data2 = [0x4E, 0x6F, 0x74, 0x20, 0x61, 0x20, 0x74, 0x65, 0x73, 0x74, 0x20, 0x20, 0x20, 0x20, 0]"

definition test_header :: "u32 \<Rightarrow> u32 \<Rightarrow> iphdr" where
  "test_header saddr daddr =
     \<lparr>ip_ihl = 5, ip_version = 4, ip_tos = 0,
      ip_tot_len = htons (5 * 4 + (of_nat (length (cstring test_data)) + 1)),
      ip_id = 1, ip_frag_off = 0, ip_ttl = 128, ip_protocol = IPPROTO_LOCAL_TCP_test, ip_check = 0,
      ip_saddr = saddr, ip_daddr = daddr\<rparr>"

text \<open>
  \<open>main\<close>: the two addresses are the results of \<open>inet_addr\<close>; \<open>wire\<close> says what arrives after
  the message was sent. \<open>calc_checksum\<close> is called and its result dropped. The result is the
  message and the string that is printed.
\<close>

definition test_main ::
    "u32 \<Rightarrow> u32 \<Rightarrow> (u32 \<times> u8 list \<Rightarrow> u8 list option) \<Rightarrow> ((u32 \<times> u8 list) \<times> u8 list) res" where
  "test_main saddr daddr wire =
     (let ip_hdr = test_header saddr daddr;
          data_size = length (cstring test_data) + 1
      in rbind (send_ip_packet ip_hdr test_data data_size) (\<lambda>msg.
         rbind (recv_ip_packet (wire msg) ip_hdr test_data2 (length (cstring test_data) + 1)) (\<lambda>(h, data2).
         rbind (read_cstring data2) (\<lambda>s. Inr (msg, s)))))"

lemma drop_keeps_last: "n \<le> length xs \<Longrightarrow> z \<in> set (drop n (xs @ [z]))"
  by simp

lemma test_lengths:
  "length (cstring test_data) = 11" "length test_data = 12" "length test_data2 = 15"
  "\<exists>xs. length xs = 14 \<and> test_data2 = xs @ [0]"
proof -
  show "length (cstring test_data) = 11" "length test_data = 12" "length test_data2 = 15"
    by (simp_all add: cstring_def test_data_def test_data2_def)
  have "test_data2 = take 14 test_data2 @ [0]" "length (take 14 test_data2) = 14" by (simp_all add: test_data2_def)
  then show "\<exists>xs. length xs = 14 \<and> test_data2 = xs @ [0]" by blast
qed

lemma recv_terminated:
  "\<exists>h' d. recv_ip_packet got h test_data2 12 = Inr (h', d) \<and> 0 \<in> set d"
proof -
  obtain xs where xs: "length xs = 14" "test_data2 = xs @ [0]" using test_lengths(4) by blast
  have "0 \<in> set (drop n test_data2)" if "n \<le> 12" for n
    unfolding xs(2) using that xs(1) by (intro drop_keeps_last) simp
  from this [of 0] this [of "length (take 12 (drop 20 (the got)))"] show ?thesis
    by (cases got) (auto simp: recv_ip_packet_def test_lengths Let_def)
qed

lemma recv_sent:
  assumes "length data \<le> length buf"
  shows "recv_ip_packet (Some (iphdr_bytes h @ data)) h' buf (length data) = Inr (h, data @ drop (length data) buf)"
  using assms by (simp add: recv_ip_packet_def Let_def iphdr_parse_bytes)

text \<open>
  The test program's packet comes back unchanged: if the packet it sends is what arrives,
  header and data are those sent (the rest of the buffer stays), and it prints the test string.
  Whatever arrives instead, it prints a terminated string. But the header it sends carries a
  zero checksum.
\<close>

theorem test_packet_round_trip:
  "(\<exists>msg. send_ip_packet h data (length data) = Inr msg \<and>
     recv_ip_packet (Some (snd msg)) h' (replicate (length data) b @ rest) (length data) = Inr (h, data @ rest)) \<and>
   test_main saddr daddr (\<lambda>m. Some (snd m)) =
     Inr ((daddr, iphdr_bytes (test_header saddr daddr) @ test_data), cstring test_data) \<and>
   (\<forall>wire. \<exists>m s. test_main saddr daddr wire = Inr (m, s)) \<and>
   ip_check (test_header saddr daddr) = 0"
proof (intro conjI allI)
  show "\<exists>msg. send_ip_packet h data (length data) = Inr msg \<and>
     recv_ip_packet (Some (snd msg)) h' (replicate (length data) b @ rest) (length data) = Inr (h, data @ rest)"
    by (simp add: send_ip_packet_def recv_sent)
  have sent: "send_ip_packet (test_header saddr daddr) test_data (length (cstring test_data) + 1) =
      Inr (daddr, iphdr_bytes (test_header saddr daddr) @ test_data)"
    by (simp add: send_ip_packet_def test_lengths test_header_def)
  have n: "length (cstring test_data) + 1 = length test_data" by (simp add: test_lengths)
  have z: "0 \<in> set test_data" by (simp add: test_data_def)
  then have str: "read_cstring (test_data @ xs) = Inr (cstring test_data)" for xs
    by (simp add: read_cstring_def cstring_append)
  show "test_main saddr daddr (\<lambda>m. Some (snd m)) =
     Inr ((daddr, iphdr_bytes (test_header saddr daddr) @ test_data), cstring test_data)"
    using sent recv_sent [of test_data test_data2 "test_header saddr daddr"] unfolding n
    by (simp add: test_main_def Let_def test_lengths(1-3) str)
  show "\<exists>m s. test_main saddr daddr wire = Inr (m, s)" for wire
    using sent recv_terminated [of "wire (daddr, iphdr_bytes (test_header saddr daddr) @ test_data)" "test_header saddr daddr"]
    by (auto simp: test_main_def Let_def test_lengths(1) read_cstring_def)
  show "ip_check (test_header saddr daddr) = 0" by (simp add: test_header_def)
qed

end
