(* ===== verification/Local_Ips.thy ===== *)
theory Local_Ips
  imports Ltcp_Prelude
begin

text \<open>
  The lookup of an address in the list of RDMA peers, \<open>check_if_local_or_remote\<close>, and the
  callbacks that do nothing but print: \<open>myproto_err\<close>, \<open>local_tcp_lib_hash\<close>, \<open>local_tcp_init\<close>
  and \<open>create_segment_callback\<close>.
\<close>

definition MAX_NUMBER_OF_LOCAL_RDMA_IP :: nat where
  "MAX_NUMBER_OF_LOCAL_RDMA_IP = 16"

definition list_of_local_ips :: "u64 list" where
  "list_of_local_ips = replicate MAX_NUMBER_OF_LOCAL_RDMA_IP 0"

function check_loop :: "u64 list \<Rightarrow> u64 \<Rightarrow> nat \<Rightarrow> nat res" where
  "check_loop ips daddr i =
     (if i < MAX_NUMBER_OF_LOCAL_RDMA_IP then
        if length ips \<le> i then Inl OutOfBounds
        else if daddr = ips ! i then Inr i
        else check_loop ips daddr (i + 1)
      else Inr 0)"
  by pat_completeness auto
termination
  by (relation "measure (\<lambda>(ips, daddr, i). MAX_NUMBER_OF_LOCAL_RDMA_IP - i)") auto

declare check_loop.simps [simp del]

definition check_if_local_or_remote :: "u64 list \<Rightarrow> u64 \<Rightarrow> nat res" where
  "check_if_local_or_remote ips daddr = check_loop ips daddr 0"

definition myproto_err :: int where
  "myproto_err = 0"

definition local_tcp_lib_hash :: int where
  "local_tcp_lib_hash = 0"

definition local_tcp_init :: int where
  "local_tcp_init = 0"

definition create_segment_callback :: int where
  "create_segment_callback = 0"

lemma check_loop_finds:
  assumes "length ips = MAX_NUMBER_OF_LOCAL_RDMA_IP"
  shows "i \<le> MAX_NUMBER_OF_LOCAL_RDMA_IP \<Longrightarrow> \<exists>r. check_loop ips daddr i = Inr r \<and>
    (if daddr \<in> set (drop i ips) then i \<le> r \<and> r < length ips \<and> ips ! r = daddr \<and> (\<forall>j. i \<le> j \<and> j < r \<longrightarrow> ips ! j \<noteq> daddr)
     else r = 0)"
  using assms
proof (induction ips daddr i rule: check_loop.induct)
  case (1 ips daddr i)
  show ?case
  proof (cases "i < MAX_NUMBER_OF_LOCAL_RDMA_IP")
    case False
    with 1(2,3) show ?thesis by (subst check_loop.simps) simp
  next
    case i: True
    then have d: "drop i ips = ips ! i # drop (i + 1) ips" using 1(3) by (simp add: Cons_nth_drop_Suc)
    show ?thesis
    proof (cases "daddr = ips ! i")
      case True
      with i 1(3) have "check_loop ips daddr i = Inr i" by (subst check_loop.simps) simp
      with True d i 1(3) show ?thesis by auto
    next
      case False
      with i 1(3) have e: "check_loop ips daddr i = check_loop ips daddr (i + 1)" by (subst check_loop.simps) simp
      have "i + 1 \<le> MAX_NUMBER_OF_LOCAL_RDMA_IP" using i by simp
      from 1(1) [OF i _ False this 1(3)] i 1(3) obtain r where r: "check_loop ips daddr (i + 1) = Inr r"
        "if daddr \<in> set (drop (i + 1) ips) then i + 1 \<le> r \<and> r < length ips \<and> ips ! r = daddr \<and>
           (\<forall>j. i + 1 \<le> j \<and> j < r \<longrightarrow> ips ! j \<noteq> daddr) else r = 0"
        by auto
      have "\<forall>j. i \<le> j \<and> j < r \<longrightarrow> j = i \<or> i + 1 \<le> j" by auto
      with r e d False show ?thesis by (auto split: if_splits)
    qed
  qed
qed

text \<open>
  The lookup stays inside the array and returns the first entry that holds the address. But it
  returns 0 both for an address that is not in the list and for the one in entry 0, which its
  description tells apart.
\<close>

theorem check_ambiguous:
  assumes "length ips = MAX_NUMBER_OF_LOCAL_RDMA_IP"
  shows "\<exists>r. check_if_local_or_remote ips daddr = Inr r \<and>
    (r = 0 \<longleftrightarrow> daddr \<notin> set ips \<or> ips ! 0 = daddr) \<and>
    (0 < r \<longrightarrow> r < 16 \<and> ips ! r = daddr \<and> (\<forall>j < r. ips ! j \<noteq> daddr))"
proof -
  from check_loop_finds [OF assms, of 0 daddr] obtain r where r: "check_loop ips daddr 0 = Inr r"
    "if daddr \<in> set ips then r < length ips \<and> ips ! r = daddr \<and> (\<forall>j < r. ips ! j \<noteq> daddr) else r = 0"
    by auto
  have "ips ! 0 \<in> set ips" using assms by (simp add: MAX_NUMBER_OF_LOCAL_RDMA_IP_def)
  with r assms show ?thesis
    by (intro exI [of _ r]) (auto simp: check_if_local_or_remote_def MAX_NUMBER_OF_LOCAL_RDMA_IP_def split: if_splits)
qed

end
