(* ===== verification/Spec2Isabelle.thy ===== *)
theory Spec2Isabelle
  imports Data_Transfer Daemon_Setup Data_Stream Echo_Test Chat_Program Raw_Ip_Test Local_Ips
begin

text \<open>
  The LTCP kernel module: a socket protocol that carries TCP connections between two machines
  over a PCIe/RDMA link.
\<close>

end
